(* ===== verification/Prelude.thy ===== *)
theory Prelude
  imports Main "HOL-Library.Multiset"
begin

text \<open>
  Shared vocabulary of the development.

  \<^item> \<open>exn\<close> and \<open>outcome\<close>: a Python call returns a value or raises; operations that change
    state return the state reached together with the outcome, so that a state change made before
    an exception is visible in the model.
  \<^item> \<open>dict\<close>: a Python dictionary, an association list in insertion order. Storing under an
    existing key replaces the value in place, storing under a new key appends, as CPython does.
    The mapping laws the components rely on are the locale \<open>mapping_store\<close>, interpreted here on
    the dictionary operations.
  \<^item> Strings are \<open>char list\<close>, so a Python string is modelled for code points below 256.
  \<^item> \<open>py_sorted_rev\<close>: \<open>sorted(xs, key=f, reverse=True)\<close>, which is stable.
\<close>

named_theorems invs \<open>preservation of the components' invariants\<close>
named_theorems frame \<open>what an operation leaves unchanged\<close>

section \<open>Exceptions and outcomes\<close>

datatype exn =
    ValueError | TypeError | KeyError | NameError | AttributeError | ZeroDivisionError
  | PermissionError | TimeoutError | FileNotFoundError | IndexError | OSError
  | TimeoutExpired | CalledProcessError int string | OtherError | Unmodelled

type_synonym 'a outcome = "exn + 'a"

abbreviation Ret :: "'a \<Rightarrow> 'a outcome" where
  "Ret \<equiv> Inr"

abbreviation Raise :: "exn \<Rightarrow> 'a outcome" where
  "Raise \<equiv> Inl"

section \<open>Dictionaries\<close>

type_synonym ('k, 'v) dict = "('k \<times> 'v) list"

definition dict_get :: "('k, 'v) dict \<Rightarrow> 'k \<Rightarrow> 'v option" where
  "dict_get d k = map_of d k"

fun dict_set :: "'k \<Rightarrow> 'v \<Rightarrow> ('k, 'v) dict \<Rightarrow> ('k, 'v) dict" where
  "dict_set k v [] = [(k, v)]"
| "dict_set k v ((k', v') # d) = (if k' = k then (k, v) # d else (k', v') # dict_set k v d)"

definition dict_pop :: "'k \<Rightarrow> ('k, 'v) dict \<Rightarrow> ('k, 'v) dict" where
  "dict_pop k d = filter (\<lambda>p. fst p \<noteq> k) d"

definition dict_mem :: "'k \<Rightarrow> ('k, 'v) dict \<Rightarrow> bool" where
  "dict_mem k d = (dict_get d k \<noteq> None)"

definition dict_keys :: "('k, 'v) dict \<Rightarrow> 'k list" where
  "dict_keys d = map fst d"

definition dict_values :: "('k, 'v) dict \<Rightarrow> 'v list" where
  "dict_values d = map snd d"

definition wf_dict :: "('k, 'v) dict \<Rightarrow> bool" where
  "wf_dict d = distinct (map fst d)"

lemma dict_get_Nil [simp]: "dict_get [] k = None"
  by (simp add: dict_get_def)

lemma dict_get_Cons [simp]:
  "dict_get ((k', v) # d) k = (if k' = k then Some v else dict_get d k)"
  by (simp add: dict_get_def)

lemma dict_get_set [simp]:
  "dict_get (dict_set k v d) k' = (if k' = k then Some v else dict_get d k')"
  by (induction k v d rule: dict_set.induct) auto

lemma dict_get_pop [simp]:
  "dict_get (dict_pop k d) k' = (if k' = k then None else dict_get d k')"
  by (induction d) (auto simp: dict_pop_def)

lemma keys_dict_set:
  "fst ` set (dict_set k v d) = insert k (fst ` set d)"
  by (induction k v d rule: dict_set.induct) auto

lemma wf_dict_Nil [simp]: "wf_dict []"
  by (simp add: wf_dict_def)

lemma wf_dict_set [simp, intro]: "wf_dict d \<Longrightarrow> wf_dict (dict_set k v d)"
proof (induction k v d rule: dict_set.induct)
  case (2 k v k' v' d)
  then show ?case
    using keys_dict_set [of k v d] by (auto simp: wf_dict_def)
qed (simp add: wf_dict_def)

lemma wf_dict_pop [simp, intro]: "wf_dict d \<Longrightarrow> wf_dict (dict_pop k d)"
  by (auto simp: wf_dict_def dict_pop_def distinct_map inj_on_def)

lemma dict_mem_iff: "dict_mem k d \<longleftrightarrow> k \<in> fst ` set d"
  by (simp add: dict_mem_def dict_get_def map_of_eq_None_iff)

lemma dict_mem_set [simp]: "dict_mem k' (dict_set k v d) \<longleftrightarrow> k' = k \<or> dict_mem k' d"
  by (simp add: dict_mem_def)

lemma in_dict_getI: "wf_dict d \<Longrightarrow> (k, v) \<in> set d \<Longrightarrow> dict_get d k = Some v"
  by (simp add: dict_get_def wf_dict_def)

lemma dict_getD: "dict_get d k = Some v \<Longrightarrow> (k, v) \<in> set d"
  by (auto simp: dict_get_def dest: map_of_SomeD)

lemma in_dict_values_iff:
  "wf_dict d \<Longrightarrow> v \<in> set (dict_values d) \<longleftrightarrow> (\<exists>k. dict_get d k = Some v)"
  by (force simp: dict_values_def intro: in_dict_getI dest: dict_getD)

lemma length_dict_set:
  "length (dict_set k v d) = length d + (if dict_mem k d then 0 else 1)"
  by (induction k v d rule: dict_set.induct) (auto simp: dict_mem_def)

lemma length_dict_pop_le: "length (dict_pop k d) \<le> length d"
  by (simp add: dict_pop_def)

lemma dict_set_new: "\<not> dict_mem k d \<Longrightarrow> dict_set k v d = d @ [(k, v)]"
  by (induction k v d rule: dict_set.induct) (auto simp: dict_mem_def)

lemma keys_dict_set_old: "dict_mem k d \<Longrightarrow> dict_keys (dict_set k v d) = dict_keys d"
  by (induction k v d rule: dict_set.induct) (auto simp: dict_mem_def dict_keys_def)

text \<open>
  The contract of a mutable mapping: what the components use of a dictionary. The derived
  lemmas are proved once from the laws and reused through the interpretation below.
\<close>

locale mapping_store =
  fixes look :: "'m \<Rightarrow> 'k \<Rightarrow> 'v option"
    and put :: "'k \<Rightarrow> 'v \<Rightarrow> 'm \<Rightarrow> 'm"
    and drop_key :: "'k \<Rightarrow> 'm \<Rightarrow> 'm"
    and invar :: "'m \<Rightarrow> bool"
  assumes look_put: "look (put k v m) k' = (if k' = k then Some v else look m k')"
    and look_drop: "look (drop_key k m) k' = (if k' = k then None else look m k')"
    and invar_put: "invar m \<Longrightarrow> invar (put k v m)"
    and invar_drop: "invar m \<Longrightarrow> invar (drop_key k m)"
begin

lemma put_frame: "k' \<noteq> k \<Longrightarrow> look (put k v m) k' = look m k'"
  by (simp add: look_put)

lemma all_put:
  assumes "\<And>j w. look m j = Some w \<Longrightarrow> P j w" and "P k v" and "look (put k v m) j = Some w"
  shows "P j w"
  using assms by (auto simp: look_put split: if_splits)

lemma all_drop:
  assumes "\<And>j w. look m j = Some w \<Longrightarrow> P j w" and "look (drop_key k m) j = Some w"
  shows "P j w"
  using assms by (auto simp: look_drop split: if_splits)

lemma put_put: "look (put k v (put k w m)) = look (put k v m)"
  by (rule ext) (simp add: look_put)

lemma put_commute:
  "k \<noteq> j \<Longrightarrow> look (put k v (put j w m)) = look (put j w (put k v m))"
  by (rule ext) (simp add: look_put)

lemma fold_put_frame:
  "k \<notin> set ks \<Longrightarrow> look (fold (\<lambda>j. put j (f j)) ks m) k = look m k"
  by (induction ks arbitrary: m) (simp_all add: look_put)

lemma fold_put_hit:
  "k \<in> set ks \<Longrightarrow> look (fold (\<lambda>j. put j (f j)) ks m) k = Some (f k)"
proof (induction ks arbitrary: m)
  case (Cons j ks)
  then show ?case
    by (cases "k \<in> set ks") (auto simp: look_put fold_put_frame)
qed simp

end

interpretation pydict: mapping_store dict_get dict_set dict_pop wf_dict
  by unfold_locales auto

section \<open>Strings\<close>

definition starts_with :: "string \<Rightarrow> string \<Rightarrow> bool" where
  "starts_with p s = (take (length p) s = p)"

fun substring :: "string \<Rightarrow> string \<Rightarrow> bool" where
  "substring p [] = (p = [])"
| "substring p (c # s) = (starts_with p (c # s) \<or> substring p s)"

definition lower_char :: "char \<Rightarrow> char" where
  "lower_char c =
     (let n = of_char c :: nat
      in if (65 \<le> n \<and> n \<le> 90) \<or> (192 \<le> n \<and> n \<le> 222 \<and> n \<noteq> 215) then char_of (n + 32) else c)"

definition py_lower :: "string \<Rightarrow> string" where
  "py_lower s = map lower_char s"

text \<open>A dash outside the model's alphabet, by its UTF-8 bytes; it occurs in messages only.\<close>

definition em_dash :: string where
  "em_dash = [char_of (226::nat), char_of (128::nat), char_of (148::nat)]"

text \<open>\<open>str.split(sep)\<close> for a one-character separator: always at least one piece.\<close>

fun split_on :: "char \<Rightarrow> string \<Rightarrow> string list" where
  "split_on sep [] = [[]]"
| "split_on sep (c # s) =
     (if c = sep then [] # split_on sep s
      else (case split_on sep s of [] \<Rightarrow> [[c]] | w # ws \<Rightarrow> (c # w) # ws))"

lemma split_on_nonempty [simp]: "split_on sep s \<noteq> []"
  by (cases s) (auto split: list.splits)

lemma starts_with_append [simp]: "starts_with p (p @ s)"
  by (simp add: starts_with_def)

lemma starts_with_iff: "starts_with p s \<longleftrightarrow> (\<exists>t. s = p @ t)"
  by (metis append_take_drop_id append_eq_conv_conj starts_with_def)

lemma substring_iff: "substring p s \<longleftrightarrow> (\<exists>a b. s = a @ p @ b)"
proof (induction p s rule: substring.induct)
  case (2 p c s)
  show ?case
  proof
    assume "substring p (c # s)"
    then show "\<exists>a b. c # s = a @ p @ b"
    proof (cases "starts_with p (c # s)")
      case True
      then obtain t where "c # s = [] @ p @ t" by (auto simp: starts_with_iff)
      then show ?thesis by blast
    next
      case False
      with \<open>substring p (c # s)\<close> 2 obtain a b where "s = a @ p @ b" by auto
      then have "c # s = (c # a) @ p @ b" by simp
      then show ?thesis by blast
    qed
  next
    assume "\<exists>a b. c # s = a @ p @ b"
    then obtain a b where ab: "c # s = a @ p @ b" by blast
    show "substring p (c # s)"
    proof (cases a)
      case Nil
      with ab have "starts_with p (c # s)" by (auto simp: starts_with_iff)
      then show ?thesis by simp
    next
      case (Cons d a')
      with ab have "s = a' @ p @ b" by simp
      with 2 show ?thesis by auto
    qed
  qed
qed simp

lemma split_on_append_sep:
  "split_on sep (a @ sep # b) = split_on sep a @ split_on sep b"
  by (induction a) (auto split: list.splits)

lemma split_on_plain: "sep \<notin> set w \<Longrightarrow> split_on sep w = [w]"
  by (induction w) auto

lemma split_on_join:
  "concat (map (\<lambda>w. sep # w) (split_on sep s)) = sep # s"
  by (induction s) (auto split: list.splits)

lemma split_on_no_sep: "w \<in> set (split_on sep s) \<Longrightarrow> sep \<notin> set w"
  by (induction s arbitrary: w) (auto split: list.splits if_splits)

text \<open>\<open>str(n)\<close> for a non-negative integer: the decimal digits.\<close>

definition show_digit :: "int \<Rightarrow> char" where
  "show_digit d = char_of (48 + d)"

fun show_dec :: "int \<Rightarrow> string" where
  "show_dec n = (if n < 10 then [show_digit n] else show_dec (n div 10) @ [show_digit (n mod 10)])"

declare show_dec.simps [simp del]

section \<open>Sorting\<close>

text \<open>
  \<open>sorted(xs, key=f, reverse=True)\<close>: descending, and elements with equal keys keep their
  order. CPython reverses the list, sorts it stably and reverses the result.
\<close>

definition py_sorted_rev :: "('a \<Rightarrow> 'b::linorder) \<Rightarrow> 'a list \<Rightarrow> 'a list" where
  "py_sorted_rev f xs = rev (sort_key f (rev xs))"

lemma py_sorted_rev_mset [simp]: "mset (py_sorted_rev f xs) = mset xs"
  by (simp add: py_sorted_rev_def)

lemma py_sorted_rev_set [simp]: "set (py_sorted_rev f xs) = set xs"
  by (simp add: py_sorted_rev_def)

lemma py_sorted_rev_length [simp]: "length (py_sorted_rev f xs) = length xs"
  by (simp add: py_sorted_rev_def)

lemma py_sorted_rev_desc: "sorted_wrt (\<lambda>x y. f y \<le> f x) (py_sorted_rev f xs)"
proof -
  have "sorted (map f (sort_key f (rev xs)))" by simp
  then have "sorted_wrt (\<lambda>x y. f x \<le> f y) (sort_key f (rev xs))"
    by (simp add: sorted_wrt_map)
  then show ?thesis
    by (simp add: py_sorted_rev_def sorted_wrt_rev)
qed

lemma py_sorted_rev_stable:
  "filter (\<lambda>x. f x = k) (py_sorted_rev f xs) = filter (\<lambda>x. f x = k) xs"
proof -
  have "filter (\<lambda>x. f x = k) (sort_key f (rev xs)) = filter (\<lambda>x. f x = k) (rev xs)"
    by (rule sort_key_stable)
  then show ?thesis
    by (simp add: py_sorted_rev_def flip: rev_filter)
qed

text \<open>
  \<open>max(xs, key=f)\<close> returns the first element with the largest key; \<open>None\<close> stands for the
  ValueError of an empty sequence. \<open>min(xs, key=f)\<close> likewise with the smallest key.
\<close>

fun py_max_by :: "('a \<Rightarrow> 'b::linorder) \<Rightarrow> 'a list \<Rightarrow> 'a option" where
  "py_max_by f [] = None"
| "py_max_by f (x # xs) =
     (case py_max_by f xs of None \<Rightarrow> Some x | Some y \<Rightarrow> if f x < f y then Some y else Some x)"

fun py_min_by :: "('a \<Rightarrow> 'b::linorder) \<Rightarrow> 'a list \<Rightarrow> 'a option" where
  "py_min_by f [] = None"
| "py_min_by f (x # xs) =
     (case py_min_by f xs of None \<Rightarrow> Some x | Some y \<Rightarrow> if f y < f x then Some y else Some x)"

lemma py_max_by_None [simp]: "py_max_by f xs = None \<longleftrightarrow> xs = []"
  by (cases xs) (auto split: option.splits)

lemma py_min_by_None [simp]: "py_min_by f xs = None \<longleftrightarrow> xs = []"
  by (cases xs) (auto split: option.splits)

lemma py_max_by_SomeD:
  "py_max_by f xs = Some y \<Longrightarrow> y \<in> set xs \<and> (\<forall>x \<in> set xs. f x \<le> f y)"
  by (induction xs arbitrary: y) (fastforce split: option.splits if_splits)+

lemma py_min_by_SomeD:
  "py_min_by f xs = Some y \<Longrightarrow> y \<in> set xs \<and> (\<forall>x \<in> set xs. f y \<le> f x)"
  by (induction xs arbitrary: y) (fastforce split: option.splits if_splits)+

text \<open>The winner of \<open>max\<close> comes before every other element with the same key.\<close>

lemma py_max_by_first:
  "py_max_by f xs = Some y \<Longrightarrow> \<exists>us vs. xs = us @ y # vs \<and> (\<forall>u \<in> set us. f u < f y)"
proof (induction xs arbitrary: y)
  case (Cons x xs)
  show ?case
  proof (cases "py_max_by f xs")
    case None
    with Cons.prems show ?thesis by (intro exI [of _ "[]"]) auto
  next
    case (Some z)
    show ?thesis
    proof (cases "f x < f z")
      case True
      with Cons.prems Some have "z = y" by simp
      with Cons.IH [OF Some] True obtain us vs
        where "xs = us @ y # vs" "\<forall>u \<in> set us. f u < f y" by auto
      with True \<open>z = y\<close> have "x # xs = (x # us) @ y # vs" "\<forall>u \<in> set (x # us). f u < f y"
        by auto
      then show ?thesis by blast
    next
      case False
      with Cons.prems Some have "x # xs = [] @ y # xs" "\<forall>u \<in> set []. f u < f y" by auto
      then show ?thesis by blast
    qed
  qed
qed simp

section \<open>Bytes\<close>

text \<open>\<open>str.encode()\<close>: UTF-8, for code points below 256 one or two bytes each.\<close>

definition utf8_char :: "char \<Rightarrow> char list" where
  "utf8_char c =
     (let n = of_char c :: nat
      in if n < 128 then [c] else [char_of (192 + n div 64), char_of (128 + n mod 64)])"

definition py_encode :: "string \<Rightarrow> string" where
  "py_encode s = concat (map utf8_char s)"

lemma py_encode_ascii: "\<forall>c \<in> set s. of_char c < (128 :: nat) \<Longrightarrow> py_encode s = s"
  by (induction s) (auto simp: py_encode_def utf8_char_def)

text \<open>A hash function: from the bytes hashed to the hexadecimal digest.\<close>

type_synonym hash_fun = "string \<Rightarrow> string"

text \<open>The encoding is a prefix code, so it is injective.\<close>

lemma utf8_char_prefix:
  assumes "utf8_char c @ s = utf8_char d @ t"
  shows "c = d \<and> s = t"
proof -
  define n m where "n = (of_char c :: nat)" and "m = (of_char d :: nat)"
  have nm: "c = char_of n" "d = char_of m" "n < 256" "m < 256" by (simp_all add: n_def m_def)
  have inj: "char_of a = (char_of b :: char) \<Longrightarrow> a < 256 \<Longrightarrow> b < 256 \<Longrightarrow> a = b" for a b :: nat
    by (metis mod_less of_char_of)
  consider "n < 128" "m < 128" | "n < 128" "128 \<le> m" | "128 \<le> n" "m < 128" | "128 \<le> n" "128 \<le> m"
    by linarith
  then show ?thesis
  proof cases
    case 1
    then show ?thesis using assms by (simp add: utf8_char_def n_def m_def)
  next
    case 2
    then have "char_of n = (char_of (192 + m div 64) :: char)"
      using assms nm by (simp add: utf8_char_def)
    then show ?thesis using inj [of n "192 + m div 64"] 2 nm by simp
  next
    case 3
    then have "char_of m = (char_of (192 + n div 64) :: char)"
      using assms nm by (simp add: utf8_char_def)
    then show ?thesis using inj [of m "192 + n div 64"] 3 nm by simp
  next
    case 4
    then have "char_of (192 + n div 64) = (char_of (192 + m div 64) :: char)"
      "char_of (128 + n mod 64) = (char_of (128 + m mod 64) :: char)" "s = t"
      using assms nm by (simp_all add: utf8_char_def)
    then have "n div 64 = m div 64" "n mod 64 = m mod 64"
      using inj [of "192 + n div 64" "192 + m div 64"] inj [of "128 + n mod 64" "128 + m mod 64"] nm
      by simp_all
    then have "n = m" by (metis mult_div_mod_eq)
    with nm \<open>s = t\<close> show ?thesis by simp
  qed
qed

lemma utf8_char_nonempty [simp]: "utf8_char c \<noteq> []"
  by (simp add: utf8_char_def Let_def)

lemma py_encode_inj: "py_encode s = py_encode t \<Longrightarrow> s = t"
proof (induction s arbitrary: t)
  case Nil
  then show ?case by (cases t) (simp_all add: py_encode_def)
next
  case (Cons c s)
  then obtain d u where t: "t = d # u" by (cases t) (simp_all add: py_encode_def)
  from Cons.prems have "utf8_char c @ py_encode s = utf8_char d @ py_encode u"
    by (simp add: t py_encode_def)
  from utf8_char_prefix [OF this] Cons.IH [of u] show ?case by (simp add: t)
qed

end
