(* ===== verification/PyFloat.thy ===== *)
theory PyFloat
  imports Complex_Main Prelude
begin

text \<open>
  Python floats. A \<open>pyfloat\<close> is a finite binary64 value: a rational with a significand of at
  most 53 bits. Every arithmetic operation is the exact rational operation followed by one
  rounding to nearest, ties to even (\<open>fl\<close>), as IEEE 754 prescribes for \<open>+\<close>, \<open>-\<close>, \<open>*\<close> and
  \<open>/\<close>, so the model computes the same bits as the program. Not modelled: the limits of the
  exponent range (overflow to infinity above 1.8e308 and gradual underflow below 2.2e-308), NaN
  and the sign of zero; the program's quantities (scores, rates, clock readings, rewards) stay far
  from them.
\<close>

section \<open>Rounding\<close>

text \<open>Round to an integer, ties to the even neighbour.\<close>

definition rhe :: "rat \<Rightarrow> int" where
  "rhe x = (let f = \<lfloor>x\<rfloor>; d = x - of_int f
            in if d < 1 / 2 then f else if 1 / 2 < d then f + 1 else if even f then f else f + 1)"

text \<open>The number of bits of a positive integer.\<close>

fun nbits :: "int \<Rightarrow> nat" where
  "nbits p = (if p \<le> 0 then 0 else Suc (nbits (p div 2)))"

declare nbits.simps [simp del]

text \<open>The binary exponent of a positive rational: \<open>2 powi ilog2 x \<le> x < 2 powi (ilog2 x + 1)\<close>.\<close>

definition ilog2 :: "rat \<Rightarrow> int" where
  "ilog2 x = (let (p, q) = quotient_of x; k = int (nbits p) - int (nbits q)
              in if 2 powi k \<le> x then k else k - 1)"

definition fl :: "rat \<Rightarrow> rat" where
  "fl x = (if x = 0 then 0
           else let e = ilog2 \<bar>x\<bar> - 52 in of_int (rhe (x / 2 powi e)) * 2 powi e)"

lemma rhe_of_int [simp]: "rhe (of_int n) = n"
  by (simp add: rhe_def)

lemma rhe_bounds: "\<lfloor>x\<rfloor> \<le> rhe x" "rhe x \<le> \<lfloor>x\<rfloor> + 1"
  by (simp_all add: rhe_def Let_def)

lemma rhe_near: "\<bar>of_int (rhe x) - x\<bar> \<le> 1 / 2"
  using floor_correct [of x] by (auto simp: rhe_def Let_def)

lemma rhe_mono: "x \<le> y \<Longrightarrow> rhe x \<le> rhe y"
proof -
  assume xy: "x \<le> y"
  then have f: "\<lfloor>x\<rfloor> \<le> \<lfloor>y\<rfloor>" by (rule floor_mono)
  show ?thesis
  proof (cases "\<lfloor>x\<rfloor> = \<lfloor>y\<rfloor>")
    case True
    with xy show ?thesis by (auto simp: rhe_def Let_def)
  next
    case False
    with f have "\<lfloor>x\<rfloor> + 1 \<le> \<lfloor>y\<rfloor>" by simp
    then show ?thesis using rhe_bounds [of x] rhe_bounds [of y] by linarith
  qed
qed

lemma floor_minus_nonint: "x \<noteq> of_int \<lfloor>x\<rfloor> \<Longrightarrow> \<lfloor>- x\<rfloor> = - \<lfloor>x\<rfloor> - 1" for x :: rat
  using floor_correct [of x] by (intro floor_unique) (auto simp: less_le)

lemma rhe_minus: "rhe (- x) = - rhe x"
proof (cases "x = of_int \<lfloor>x\<rfloor>")
  case True
  then obtain n where "x = of_int n" by blast
  then show ?thesis by (metis of_int_minus rhe_of_int)
next
  case False
  note c = floor_minus_nonint [OF False]
  have d: "- x - of_int (- \<lfloor>x\<rfloor> - 1) = 1 - (x - of_int \<lfloor>x\<rfloor>)" by simp
  consider "x - of_int \<lfloor>x\<rfloor> < 1 / 2" | "x - of_int \<lfloor>x\<rfloor> = 1 / 2" | "1 / 2 < x - of_int \<lfloor>x\<rfloor>"
    by linarith
  then show ?thesis
    by cases (simp_all only: rhe_def Let_def c d, simp_all)
qed

lemma nbits_bounds: "0 < p \<Longrightarrow> 0 < nbits p \<and> 2 ^ (nbits p - 1) \<le> p \<and> p < 2 ^ nbits p"
proof (induction p rule: nbits.induct)
  case (1 p)
  have n: "nbits p = Suc (nbits (p div 2))" using "1.prems" by (simp add: nbits.simps [of p])
  show ?case
  proof (cases "p = 1")
    case True
    then show ?thesis by (simp add: n) (simp add: nbits.simps)
  next
    case False
    with "1.prems" have h: "0 < p div 2" by (simp add: pos_imp_zdiv_pos_iff)
    with "1.IH" "1.prems" have IH: "0 < nbits (p div 2)" "2 ^ (nbits (p div 2) - 1) \<le> p div 2"
      "p div 2 < 2 ^ nbits (p div 2)" by auto
    obtain l where l: "nbits (p div 2) = Suc l" using IH(1) gr0_implies_Suc by blast
    have "2 ^ l \<le> p div 2" "p div 2 < 2 * 2 ^ l" using IH(2,3) unfolding l by simp_all
    then have "2 * 2 ^ l \<le> p" "p < 4 * 2 ^ l" by presburger+
    then show ?thesis unfolding n l by simp
  qed
qed

lemma nbits_powi:
  assumes "0 < p"
  shows "2 powi (int (nbits p) - 1) \<le> (of_int p :: rat)" and "(of_int p :: rat) < 2 powi int (nbits p)"
proof -
  obtain l where l: "nbits p = Suc l"
    using nbits_bounds [OF assms] gr0_implies_Suc by blast
  have "(of_int (2 ^ l) :: rat) \<le> of_int p" and "(of_int p :: rat) < of_int (2 ^ Suc l)"
    using nbits_bounds [OF assms] unfolding l by (simp_all only: of_int_le_iff of_int_less_iff) simp
  then show "2 powi (int (nbits p) - 1) \<le> (of_int p :: rat)" and "(of_int p :: rat) < 2 powi int (nbits p)"
    by (simp_all add: l power_int_add)
qed

lemma ilog2_bounds:
  assumes "0 < x"
  shows "2 powi ilog2 x \<le> x" and "x < 2 powi (ilog2 x + 1)"
proof -
  obtain p q where pq: "quotient_of x = (p, q)" by (cases "quotient_of x")
  then have x: "x = of_int p / of_int q" and q: "0 < q"
    by (simp_all add: quotient_of_div quotient_of_denom_pos)
  with assms have p: "0 < p" by (simp add: zero_less_divide_iff)
  define bp bq where bpq: "bp = int (nbits p)" "bq = int (nbits q)"
  note P = nbits_powi [OF p, folded bpq] and Q = nbits_powi [OF q, folded bpq]
  define k where "k = bp - bq"
  have "2 powi (k - 1) * of_int q \<le> (2 powi (k - 1) * 2 powi bq :: rat)"
    using Q(2) by (intro mult_left_mono) auto
  also have "\<dots> = 2 powi (bp - 1)"
    by (simp add: k_def flip: power_int_add)
  also have "\<dots> \<le> of_int p" by (rule P(1))
  finally have lo: "2 powi (k - 1) \<le> x"
    using q by (simp add: x pos_le_divide_eq)
  have "(of_int p :: rat) < 2 powi bp" by (rule P(2))
  also have "\<dots> = 2 powi (k + 1) * 2 powi (bq - 1)"
    by (simp add: k_def flip: power_int_add)
  also have "\<dots> \<le> 2 powi (k + 1) * of_int q"
    using Q(1) by (intro mult_left_mono) auto
  finally have hi: "x < 2 powi (k + 1)"
    using q by (simp add: x pos_divide_less_eq)
  have i: "ilog2 x = (if 2 powi k \<le> x then k else k - 1)"
    by (simp add: ilog2_def pq k_def bpq)
  from lo hi show "2 powi ilog2 x \<le> x" and "x < 2 powi (ilog2 x + 1)"
    by (auto simp: i)
qed

lemma powi_le_iff [simp]: "(2 powi a \<le> (2 powi b :: rat)) \<longleftrightarrow> a \<le> b"
proof
  assume "2 powi a \<le> (2 powi b :: rat)"
  then show "a \<le> b"
    using power_int_strict_increasing [of b a "2 :: rat"] by (meson not_le one_less_numeral_iff
        semiring_norm(76))
next
  assume "a \<le> b"
  then show "2 powi a \<le> (2 powi b :: rat)"
    by (intro power_int_increasing) auto
qed

lemma powi_less_iff [simp]: "(2 powi a < (2 powi b :: rat)) \<longleftrightarrow> a < b"
  by (simp add: less_le_not_le)

lemma ilog2_unique:
  assumes "2 powi k \<le> x" and "x < 2 powi (k + 1)"
  shows "ilog2 x = k"
proof -
  have "0 < x" using assms(1) by (rule less_le_trans [rotated]) simp
  note b = ilog2_bounds [OF this]
  have "(2 :: rat) powi ilog2 x < 2 powi (k + 1)" using b(1) assms(2) by (rule le_less_trans)
  moreover have "(2 :: rat) powi k < 2 powi (ilog2 x + 1)" using assms(1) b(2) by (rule le_less_trans)
  ultimately show ?thesis by simp
qed

lemma ilog2_mono: "0 < x \<Longrightarrow> x \<le> y \<Longrightarrow> ilog2 x \<le> ilog2 y"
proof -
  assume x: "0 < x" and xy: "x \<le> y"
  have "2 powi ilog2 x \<le> x" by (rule ilog2_bounds [OF x])
  also have "x \<le> y" by (rule xy)
  also have "y < 2 powi (ilog2 y + 1)" using x xy by (intro ilog2_bounds) simp
  finally show ?thesis by simp
qed

lemma fl_zero [simp]: "fl 0 = 0"
  by (simp add: fl_def)

lemma fl_minus: "fl (- x) = - fl x"
  by (simp add: fl_def Let_def rhe_minus)

lemma fl_pos_eq:
  "0 < x \<Longrightarrow> fl x = of_int (rhe (x / 2 powi (ilog2 x - 52))) * 2 powi (ilog2 x - 52)"
  by (simp add: fl_def Let_def)

text \<open>The rounded significand of a positive rational has exactly 53 bits, or is \<open>2 ^ 53\<close>.\<close>

lemma fl_significand:
  assumes "0 < x"
  shows "2 ^ 52 \<le> rhe (x / 2 powi (ilog2 x - 52))" and "rhe (x / 2 powi (ilog2 x - 52)) \<le> 2 ^ 53"
proof -
  let ?s = "2 powi (ilog2 x - 52) :: rat"
  have s: "0 < ?s" by simp
  have "2 powi ilog2 x = 2 ^ 52 * ?s" by (simp add: power_int_diff)
  then have lo: "of_int (2 ^ 52) \<le> x / ?s"
    using ilog2_bounds(1) [OF assms] s by (simp add: pos_le_divide_eq)
  have "2 powi (ilog2 x + 1) = 2 ^ 53 * ?s" by (simp add: power_int_diff power_int_add)
  then have hi: "x / ?s \<le> of_int (2 ^ 53)"
    using ilog2_bounds(2) [OF assms] s by (simp add: pos_divide_le_eq)
  show "2 ^ 52 \<le> rhe (x / ?s)" using rhe_mono [OF lo] by (simp only: rhe_of_int)
  show "rhe (x / ?s) \<le> 2 ^ 53" using rhe_mono [OF hi] by (simp only: rhe_of_int)
qed

lemma fl_binade:
  assumes "0 < x"
  shows "2 powi ilog2 x \<le> fl x" and "fl x \<le> 2 powi (ilog2 x + 1)"
proof -
  let ?m = "rhe (x / 2 powi (ilog2 x - 52))" and ?s = "2 powi (ilog2 x - 52) :: rat"
  have m: "(of_int (2 ^ 52) :: rat) \<le> of_int ?m" "(of_int ?m :: rat) \<le> of_int (2 ^ 53)"
    using fl_significand [OF assms] by (simp_all only: of_int_le_iff)
  have "2 powi ilog2 x = of_int (2 ^ 52) * ?s" by (simp add: power_int_diff)
  also have "\<dots> \<le> of_int ?m * ?s" using m(1) by (intro mult_right_mono) auto
  finally show "2 powi ilog2 x \<le> fl x" by (simp add: fl_pos_eq [OF assms])
  have "of_int ?m * ?s \<le> of_int (2 ^ 53) * ?s" using m(2) by (intro mult_right_mono) auto
  also have "\<dots> = 2 powi (ilog2 x + 1)" by (simp add: power_int_diff power_int_add)
  finally show "fl x \<le> 2 powi (ilog2 x + 1)" by (simp add: fl_pos_eq [OF assms])
qed

lemma fl_pos: "0 < x \<Longrightarrow> 0 < fl x"
  by (rule less_le_trans [OF zero_less_power_int fl_binade(1)]) simp_all

lemma fl_mono_nonneg:
  assumes "0 \<le> x" and "x \<le> y"
  shows "fl x \<le> fl y"
proof (cases "x = 0")
  case True
  then show ?thesis using assms fl_pos [of y] by (cases "y = 0") auto
next
  case False
  with assms have x: "0 < x" and y: "0 < y" by auto
  show ?thesis
  proof (cases "ilog2 x = ilog2 y")
    case True
    have "x / 2 powi (ilog2 x - 52) \<le> y / 2 powi (ilog2 x - 52)"
      using assms(2) by (intro divide_right_mono) auto
    then have "(of_int (rhe (x / 2 powi (ilog2 x - 52))) :: rat)
        \<le> of_int (rhe (y / 2 powi (ilog2 x - 52)))"
      by (simp only: of_int_le_iff rhe_mono)
    then show ?thesis
      by (simp add: fl_pos_eq x y True mult_right_mono)
  next
    case False
    with ilog2_mono [OF x assms(2)] have "ilog2 x + 1 \<le> ilog2 y" by simp
    then have "(2 :: rat) powi (ilog2 x + 1) \<le> 2 powi ilog2 y" by simp
    with fl_binade(2) [OF x] fl_binade(1) [OF y] show ?thesis by linarith
  qed
qed

lemma fl_mono: "x \<le> y \<Longrightarrow> fl x \<le> fl y"
proof -
  assume xy: "x \<le> y"
  consider "0 \<le> x" | "y \<le> 0" | "x < 0" "0 < y" by linarith
  then show ?thesis
  proof cases
    case 1
    with xy show ?thesis by (intro fl_mono_nonneg)
  next
    case 2
    with xy have "fl (- y) \<le> fl (- x)" by (intro fl_mono_nonneg) auto
    then show ?thesis by (simp add: fl_minus)
  next
    case 3
    then show ?thesis using fl_pos [of y] fl_pos [of "- x"] by (simp add: fl_minus)
  qed
qed

text \<open>Values with at most 53 significant bits are floats: rounding keeps them.\<close>

lemma fl_exact_pos:
  assumes "0 < m" and "m < 2 ^ 53"
  shows "fl (of_int m * 2 powi e) = of_int m * 2 powi e"
proof -
  define x :: rat where "x = of_int m * 2 powi e"
  have x: "0 < x" using assms(1) by (simp add: x_def)
  have m: "(of_int m :: rat) < of_int (2 ^ 53)" using assms(2) by (simp only: of_int_less_iff)
  have "2 powi ilog2 x \<le> x" by (rule ilog2_bounds [OF x])
  also have "x < of_int (2 ^ 53) * 2 powi e"
    using m by (simp add: x_def)
  also have "\<dots> = 2 powi (53 + e)" by (simp add: power_int_add)
  finally have k: "ilog2 x - 52 \<le> e" by simp
  define j where "j = nat (e - (ilog2 x - 52))"
  have "x / 2 powi (ilog2 x - 52) = of_int m * 2 powi (e - (ilog2 x - 52))"
    by (simp add: x_def power_int_diff)
  also have "\<dots> = of_int (m * 2 ^ j)"
    using k by (simp add: j_def power_int_def)
  finally have d: "x / 2 powi (ilog2 x - 52) = of_int (m * 2 ^ j)" .
  have "x = x / 2 powi (ilog2 x - 52) * 2 powi (ilog2 x - 52)" by simp
  then have "x = of_int (m * 2 ^ j) * 2 powi (ilog2 x - 52)" unfolding d .
  moreover have "fl x = of_int (m * 2 ^ j) * 2 powi (ilog2 x - 52)"
    unfolding fl_pos_eq [OF x] d rhe_of_int ..
  ultimately have "fl x = x" by simp
  then show ?thesis by (simp add: x_def)
qed

lemma fl_exact:
  assumes "\<bar>m\<bar> \<le> 2 ^ 53"
  shows "fl (of_int m * 2 powi e) = of_int m * 2 powi e"
proof -
  have pos: "fl (of_int n * 2 powi e) = of_int n * 2 powi e" if "0 < n" "n \<le> 2 ^ 53" for n
  proof (cases "n = 2 ^ 53")
    case True
    have "fl (of_int 1 * 2 powi (53 + e)) = of_int 1 * 2 powi (53 + e)"
      by (rule fl_exact_pos) auto
    then show ?thesis by (simp add: True power_int_add)
  next
    case False
    with that show ?thesis by (intro fl_exact_pos) auto
  qed
  consider "m = 0" | "0 < m" | "m < 0" by linarith
  then show ?thesis
  proof cases
    case 3
    have "fl (of_int (- m) * 2 powi e) = of_int (- m) * 2 powi e"
      using 3 assms by (intro pos) auto
    then show ?thesis using fl_minus [of "of_int m * 2 powi e"] by simp
  qed (use pos assms in auto)
qed

lemma fl_of_int [simp]: "\<bar>m\<bar> \<le> 2 ^ 53 \<Longrightarrow> fl (of_int m) = of_int m"
  using fl_exact [of m 0] by simp

lemma fl_idem [simp]: "fl (fl x) = fl x"
proof -
  have pos: "fl (fl x) = fl x" if "0 < x" for x
    unfolding fl_pos_eq [OF that] using fl_significand [OF that] by (intro fl_exact) auto
  consider "x = 0" | "0 < x" | "x < 0" by linarith
  then show ?thesis
  proof cases
    case 3
    then have "fl (fl (- x)) = fl (- x)" by (intro pos) auto
    then show ?thesis by (simp add: fl_minus)
  qed (use pos in auto)
qed

lemma fl_one [simp]: "fl 1 = 1"
  using fl_of_int [of 1] by simp

text \<open>The relative rounding error is at most \<open>2 ^ -53\<close>.\<close>

lemma fl_rel:
  assumes "0 \<le> x"
  shows "fl x \<le> x * (1 + 1 / 2 ^ 53)"
proof (cases "x = 0")
  case False
  with assms have x: "0 < x" by simp
  let ?s = "2 powi (ilog2 x - 52) :: rat"
  have s: "0 < ?s" by simp
  have "2 powi ilog2 x = 2 ^ 52 * ?s" by (simp add: power_int_diff)
  then have "2 ^ 52 * ?s \<le> x" using ilog2_bounds(1) [OF x] by simp
  then have half: "?s / 2 \<le> x / 2 ^ 53" by simp
  have "of_int (rhe (x / ?s)) \<le> x / ?s + 1 / 2" using rhe_near [of "x / ?s"] by linarith
  then have "of_int (rhe (x / ?s)) * ?s \<le> (x / ?s + 1 / 2) * ?s" using s by (intro mult_right_mono) auto
  also have "\<dots> = x + ?s / 2" by (simp add: field_simps)
  also have "\<dots> \<le> x + x / 2 ^ 53" using half by simp
  finally show ?thesis by (simp add: fl_pos_eq [OF x] algebra_simps)
qed simp

text \<open>A rational close enough to a positive float rounds to it.\<close>

lemma rhe_eqI:
  assumes "\<bar>x - of_int n\<bar> < 1 / 2"
  shows "rhe x = n"
proof -
  have "\<bar>of_int (rhe x) - of_int n\<bar> < (1 :: rat)"
    using rhe_near [of x] assms by linarith
  then have "\<bar>rhe x - n\<bar> < 1" by (metis of_int_abs of_int_diff of_int_less_1_iff)
  then show ?thesis by simp
qed

lemma fl_near_scaled:
  assumes "ilog2 y = k" and "0 < y" and "\<bar>y - of_int n * 2 powi (k - 52)\<bar> < 2 powi (k - 52) / 2"
  shows "fl y = of_int n * 2 powi (k - 52)"
proof -
  let ?u = "2 powi (k - 52) :: rat"
  have "y / ?u - of_int n = (y - of_int n * ?u) / ?u" by (simp add: diff_divide_distrib)
  then have "\<bar>y / ?u - of_int n\<bar> = \<bar>y - of_int n * ?u\<bar> / ?u" by (simp add: abs_divide)
  also have "\<dots> < 1 / 2"
    using divide_strict_right_mono [OF assms(3), of ?u] by simp
  finally have "rhe (y / ?u) = n" by (rule rhe_eqI)
  then show ?thesis using assms(1,2) by (simp add: fl_pos_eq)
qed

lemma fl_near:
  assumes x: "0 < x" "fl x = x" and near: "\<bar>y - x\<bar> < x / 2 ^ 54"
  shows "fl y = x"
proof -
  define e where "e = ilog2 x"
  define M where "M = rhe (x / 2 powi (e - 52))"
  let ?u = "2 powi (e - 52) :: rat"
  have u: "0 < ?u" by simp
  have xM: "x = of_int M * ?u" using fl_pos_eq [OF x(1)] x(2) by (simp add: M_def e_def)
  have lo: "2 powi e \<le> x" and hi: "x < 2 powi (e + 1)"
    unfolding e_def by (rule ilog2_bounds [OF x(1)])+
  have p52: "2 powi e = 2 ^ 52 * ?u" and p53: "2 powi (e + 1) = 2 ^ 53 * ?u"
    by (simp_all add: power_int_diff power_int_add)
  have err: "x / 2 ^ 54 < ?u / 2" using hi unfolding p53 by simp
  have y: "0 < y"
  proof -
    have "x / 2 ^ 54 < x" using x(1) by simp
    then show ?thesis using near by linarith
  qed
  show ?thesis
  proof (cases "2 powi e \<le> y")
    case True
    have "of_int M < (of_int (2 ^ 53) :: rat)" using hi u unfolding p53 xM by simp
    then have "M \<le> 2 ^ 53 - 1" by (simp only: of_int_less_iff)
    then have "of_int M \<le> (of_int (2 ^ 53 - 1) :: rat)" by (simp only: of_int_le_iff)
    then have "x \<le> (2 ^ 53 - 1) * ?u" unfolding xM using u by (intro mult_right_mono) auto
    moreover have "y < x + ?u / 2" using near err by linarith
    ultimately have "y < (2 ^ 53 - 1) * ?u + ?u / 2" by linarith
    also have "\<dots> < (2 ^ 53 - 1) * ?u + ?u" using u by linarith
    also have "\<dots> = 2 powi (e + 1)" unfolding p53 by (simp add: algebra_simps)
    finally have "y < 2 powi (e + 1)" .
    with True have "ilog2 y = e" by (rule ilog2_unique)
    moreover have "\<bar>y - of_int M * ?u\<bar> < ?u / 2" using near err unfolding xM by linarith
    ultimately show ?thesis using fl_near_scaled [of y e M] y xM by simp
  next
    case False
    have "2 ^ 52 \<le> M" using fl_significand(1) [OF x(1)] by (simp add: M_def e_def)
    moreover have "\<not> 2 ^ 52 + 1 \<le> M"
    proof
      assume "2 ^ 52 + 1 \<le> M"
      then have "(of_int (2 ^ 52 + 1) :: rat) \<le> of_int M" by (simp only: of_int_le_iff)
      then have "(2 ^ 52 + 1) * ?u \<le> x" unfolding xM using u by (intro mult_right_mono) auto
      with near err False show False unfolding p52 by (simp add: algebra_simps)
    qed
    ultimately have "M = 2 ^ 52" by simp
    then have x2: "x = 2 powi e" unfolding p52 using xM by simp
    have h: "x / 2 ^ 54 = 2 powi (e - 1 - 52) / 2" unfolding x2 by (simp add: power_int_diff)
    have "2 powi (e - 1) \<le> y"
    proof -
      have "x - x / 2 ^ 54 < y" using near by linarith
      moreover have "2 powi (e - 1) = x / 2" unfolding x2 by (simp add: power_int_diff)
      ultimately show ?thesis using x(1) by simp
    qed
    with False have "ilog2 y = e - 1" by (intro ilog2_unique) auto
    moreover have x3: "x = of_int (2 ^ 53) * 2 powi (e - 1 - 52)"
      unfolding x2 by (simp add: power_int_diff)
    moreover have "\<bar>y - of_int (2 ^ 53) * 2 powi (e - 1 - 52)\<bar> < 2 powi (e - 1 - 52) / 2"
      using near unfolding h by (simp only: x3)
    ultimately show ?thesis using fl_near_scaled [of y "e - 1" "2 ^ 53"] y by simp
  qed
qed

text \<open>
  What the bounds below use of rounding is this contract: rounding is monotone, keeps the values
  it produces and keeps 0 and 1. The derived laws hold for every such rounding mode and are used
  through its interpretation on \<open>fl\<close>.
\<close>

locale rounding =
  fixes rnd :: "rat \<Rightarrow> rat"
  assumes mono: "x \<le> y \<Longrightarrow> rnd x \<le> rnd y"
    and idem: "rnd (rnd x) = rnd x"
    and zero: "rnd 0 = 0"
    and one: "rnd 1 = 1"
begin

lemma le_repr: "x \<le> c \<Longrightarrow> rnd c = c \<Longrightarrow> rnd x \<le> c"
  by (metis mono)

lemma ge_repr: "c \<le> x \<Longrightarrow> rnd c = c \<Longrightarrow> c \<le> rnd x"
  by (metis mono)

lemma nonneg: "0 \<le> x \<Longrightarrow> 0 \<le> rnd x"
  by (rule ge_repr [OF _ zero])

lemma le_one: "x \<le> 1 \<Longrightarrow> rnd x \<le> 1"
  by (rule le_repr [OF _ one])

lemma add_mono: "a \<le> b \<Longrightarrow> c \<le> d \<Longrightarrow> rnd (a + c) \<le> rnd (b + d)"
  by (intro mono) simp

lemma mult_mono: "0 \<le> a \<Longrightarrow> a \<le> b \<Longrightarrow> 0 \<le> c \<Longrightarrow> c \<le> d \<Longrightarrow> rnd (a * c) \<le> rnd (b * d)"
  by (intro mono mult_mono') auto

lemma sub_le: "0 \<le> y \<Longrightarrow> rnd x = x \<Longrightarrow> rnd (x - y) \<le> x"
  by (rule le_repr) auto

lemma add_ge: "0 \<le> y \<Longrightarrow> rnd x = x \<Longrightarrow> x \<le> rnd (x + y)"
  by (rule ge_repr) auto

lemma scale_le: "0 \<le> x \<Longrightarrow> rnd x = x \<Longrightarrow> 0 \<le> y \<Longrightarrow> y \<le> 1 \<Longrightarrow> rnd (x * y) \<le> x"
  by (rule le_repr) (simp_all add: mult_left_le)

lemma quot_le_one: "0 < y \<Longrightarrow> x \<le> y \<Longrightarrow> rnd (x / y) \<le> 1"
  by (rule le_one) simp

end

interpretation flr: rounding fl
  by unfold_locales (auto intro: fl_mono)

section \<open>The type of floats\<close>

typedef pyfloat = "range fl" morphisms rat_of Abs_pyfloat
  by auto

setup_lifting type_definition_pyfloat

text \<open>The float nearest to a rational: the value of a decimal literal, and of \<open>float(n)\<close>.\<close>

lift_definition F :: "rat \<Rightarrow> pyfloat" is fl
  by simp

instantiation pyfloat :: "{zero, one, plus, minus, times, uminus, equal, linorder}"
begin

lift_definition zero_pyfloat :: pyfloat is 0
  by (metis fl_zero rangeI)

lift_definition one_pyfloat :: pyfloat is 1
  by (metis fl_one rangeI)

lift_definition plus_pyfloat :: "pyfloat \<Rightarrow> pyfloat \<Rightarrow> pyfloat" is "\<lambda>x y. fl (x + y)"
  by simp

lift_definition minus_pyfloat :: "pyfloat \<Rightarrow> pyfloat \<Rightarrow> pyfloat" is "\<lambda>x y. fl (x - y)"
  by simp

lift_definition times_pyfloat :: "pyfloat \<Rightarrow> pyfloat \<Rightarrow> pyfloat" is "\<lambda>x y. fl (x * y)"
  by simp

lift_definition uminus_pyfloat :: "pyfloat \<Rightarrow> pyfloat" is "\<lambda>x. fl (- x)"
  by simp

lift_definition less_eq_pyfloat :: "pyfloat \<Rightarrow> pyfloat \<Rightarrow> bool" is "(\<le>)" .

lift_definition less_pyfloat :: "pyfloat \<Rightarrow> pyfloat \<Rightarrow> bool" is "(<)" .

definition equal_pyfloat :: "pyfloat \<Rightarrow> pyfloat \<Rightarrow> bool" where
  "equal_pyfloat x y = (rat_of x = rat_of y)"

instance
proof
  fix x y z :: pyfloat
  show "x < y \<longleftrightarrow> x \<le> y \<and> \<not> y \<le> x" by transfer auto
  show "x \<le> x" by transfer auto
  show "x \<le> y \<Longrightarrow> y \<le> z \<Longrightarrow> x \<le> z" by transfer auto
  show "x \<le> y \<Longrightarrow> y \<le> x \<Longrightarrow> x = y" by transfer auto
  show "x \<le> y \<or> y \<le> x" by transfer auto
  show "equal_class.equal x y \<longleftrightarrow> x = y"
    by (simp add: equal_pyfloat_def rat_of_inject)
qed

end

text \<open>\<open>x / y\<close> for a divisor other than zero (Python raises ZeroDivisionError for zero).\<close>

lift_definition fdiv :: "pyfloat \<Rightarrow> pyfloat \<Rightarrow> pyfloat" is "\<lambda>x y. fl (x / y)"
  by simp

text \<open>\<open>x ** n\<close> for a natural exponent, correctly rounded.\<close>

lift_definition fpow :: "pyfloat \<Rightarrow> nat \<Rightarrow> pyfloat" is "\<lambda>x n. fl (x ^ n)"
  by simp

text \<open>\<open>round(x, n)\<close>: the nearest decimal with \<open>n\<close> places, ties to even, back as a float.\<close>

lift_definition py_round :: "nat \<Rightarrow> pyfloat \<Rightarrow> pyfloat" is
  "\<lambda>n x. fl (of_int (rhe (x * 10 ^ n)) / 10 ^ n)"
  by simp

text \<open>\<open>int(x)\<close>: truncation towards zero.\<close>

lift_definition py_int :: "pyfloat \<Rightarrow> int" is
  "\<lambda>x. if 0 \<le> x then \<lfloor>x\<rfloor> else \<lceil>x\<rceil>" .

text \<open>\<open>sum\<close> over floats as CPython 3.11 computes it: left to right from 0.\<close>

definition py_sum :: "pyfloat list \<Rightarrow> pyfloat" where
  "py_sum xs = foldl (+) 0 xs"

section \<open>Laws\<close>

lemma rat_of_F: "rat_of (F x) = fl x"
  by transfer simp

lemma fl_rat_of [simp]: "fl (rat_of x) = rat_of x"
  by transfer auto

lemma F_rat_of [simp]: "F (rat_of x) = x"
  by transfer auto

lemma F_fl [simp]: "F (fl x) = F x"
  by transfer simp

lemma F_plus: "F x + F y = F (fl x + fl y)"
  by transfer simp

lemma F_minus: "F x - F y = F (fl x - fl y)"
  by transfer simp

lemma F_times: "F x * F y = F (fl x * fl y)"
  by transfer simp

lemma F_le: "F x \<le> F y \<longleftrightarrow> fl x \<le> fl y"
  by transfer simp

lemma F_less: "F x < F y \<longleftrightarrow> fl x < fl y"
  by transfer simp

lemma F_eq: "F x = F y \<longleftrightarrow> fl x = fl y"
  by transfer simp

lemma F_0 [simp]: "F 0 = 0"
  by transfer simp

lemma F_1 [simp]: "F 1 = 1"
  by transfer simp

lemma F_mono: "x \<le> y \<Longrightarrow> F x \<le> F y"
  by transfer (rule fl_mono)

lemma F_nonneg [simp]: "0 \<le> x \<Longrightarrow> 0 \<le> F x"
  using F_mono [of 0 x] by simp

lemma F_le_one [simp]: "x \<le> 1 \<Longrightarrow> F x \<le> 1"
  using F_mono [of x 1] by simp

lemma rat_of_le: "x \<le> y \<longleftrightarrow> rat_of x \<le> rat_of y"
  by transfer simp

lemma rat_of_less: "x < y \<longleftrightarrow> rat_of x < rat_of y"
  by transfer simp

lemma rat_of_zero [simp]: "rat_of 0 = 0"
  by transfer simp

lemma rat_of_one [simp]: "rat_of 1 = 1"
  by transfer simp

lemma rat_of_plus: "rat_of (x + y) = fl (rat_of x + rat_of y)"
  by transfer simp

lemma rat_of_minus: "rat_of (x - y) = fl (rat_of x - rat_of y)"
  by transfer simp

lemma rat_of_times: "rat_of (x * y) = fl (rat_of x * rat_of y)"
  by transfer simp

lemma rat_of_fdiv: "rat_of (fdiv x y) = fl (rat_of x / rat_of y)"
  by transfer simp

lemma rat_of_fpow: "rat_of (fpow x n) = fl (rat_of x ^ n)"
  by transfer simp

lemma float_zero_le_one [simp]: "(0 :: pyfloat) \<le> 1" "(0 :: pyfloat) < 1"
  by (simp_all add: rat_of_le rat_of_less)

lemma float_add_0 [simp]: "0 + x = x" "x + 0 = x" for x :: pyfloat
  by (simp_all add: rat_of_plus flip: rat_of_inject)

lemma float_mult_1 [simp]: "1 * x = x" "x * 1 = x" for x :: pyfloat
  by (simp_all add: rat_of_times flip: rat_of_inject)

lemma float_mult_0 [simp]: "0 * x = 0" "x * 0 = 0" for x :: pyfloat
  by (simp_all add: rat_of_times flip: rat_of_inject)

lemma float_diff_0 [simp]: "x - x = 0" "x - 0 = x" for x :: pyfloat
  by (simp_all add: rat_of_minus flip: rat_of_inject)

lemma float_add_commute: "x + y = y + x" for x y :: pyfloat
  by (simp add: rat_of_plus add.commute flip: rat_of_inject)

lemma float_add_mono: "a \<le> b \<Longrightarrow> c \<le> d \<Longrightarrow> a + c \<le> b + d" for a :: pyfloat
  by (simp add: rat_of_le rat_of_plus flr.add_mono)

lemma float_mult_mono:
  "0 \<le> a \<Longrightarrow> a \<le> b \<Longrightarrow> 0 \<le> c \<Longrightarrow> c \<le> d \<Longrightarrow> a * c \<le> b * d" for a :: pyfloat
  by (simp add: rat_of_le rat_of_times flr.mult_mono)

lemma float_diff_mono: "a \<le> b \<Longrightarrow> d \<le> c \<Longrightarrow> a - c \<le> b - d" for a :: pyfloat
  unfolding rat_of_le rat_of_minus by (rule flr.mono) simp

lemma float_add_nonneg: "0 \<le> x \<Longrightarrow> 0 \<le> y \<Longrightarrow> 0 \<le> x + y" for x :: pyfloat
  using float_add_mono [of 0 x 0 y] by simp

lemma float_mult_nonneg: "0 \<le> x \<Longrightarrow> 0 \<le> y \<Longrightarrow> 0 \<le> x * y" for x :: pyfloat
  by (simp add: rat_of_le rat_of_times flr.nonneg)

lemma float_scale_le: "0 \<le> x \<Longrightarrow> 0 \<le> y \<Longrightarrow> y \<le> 1 \<Longrightarrow> x * y \<le> x" for x :: pyfloat
  using float_mult_mono [of x x y 1] by simp

lemma float_diff_nonneg: "y \<le> x \<Longrightarrow> 0 \<le> x - y" for x :: pyfloat
  using float_diff_mono [of y x y y] by simp

lemma float_diff_le: "0 \<le> y \<Longrightarrow> x - y \<le> x" for x :: pyfloat
  using float_diff_mono [of x x 0 y] by simp

lemma fdiv_nonneg: "0 \<le> x \<Longrightarrow> 0 \<le> y \<Longrightarrow> 0 \<le> fdiv x y"
  by (simp add: rat_of_le rat_of_fdiv flr.nonneg)

lemma fdiv_le_one: "0 < y \<Longrightarrow> x \<le> y \<Longrightarrow> fdiv x y \<le> 1"
  by (simp add: rat_of_le rat_of_less rat_of_fdiv flr.quot_le_one)

lemma fpow_nonneg: "0 \<le> x \<Longrightarrow> 0 \<le> fpow x n"
  by (simp add: rat_of_le rat_of_fpow flr.nonneg)

lemma fpow_le_one: "0 \<le> x \<Longrightarrow> x \<le> 1 \<Longrightarrow> fpow x n \<le> 1"
  by (simp add: rat_of_le rat_of_fpow flr.le_one power_le_one)

lemma fpow_0 [simp]: "fpow x 0 = 1"
  by (simp add: rat_of_fpow flip: rat_of_inject)

lemma py_round_mono: "x \<le> y \<Longrightarrow> py_round n x \<le> py_round n y"
  by transfer (intro fl_mono divide_right_mono, simp_all add: rhe_mono mult_right_mono)

lemma py_round_int:
  "\<bar>m\<bar> \<le> 2 ^ 53 \<Longrightarrow> py_round n (F (of_int m)) = F (of_int m)"
proof (transfer, goal_cases)
  case (1 m n)
  have "rhe (of_int m * 10 ^ n) = m * 10 ^ n"
    by (metis of_int_mult of_int_numeral of_int_power rhe_of_int)
  with 1 show ?case by simp
qed

lemma py_round_0 [simp]: "py_round n 0 = 0"
  using py_round_int [of 0] by simp

lemma py_round_1 [simp]: "py_round n 1 = 1"
  using py_round_int [of 1] by simp

lemma py_int_nonneg: "0 \<le> x \<Longrightarrow> 0 \<le> py_int x"
  by transfer simp

lemma py_int_mono: "0 \<le> x \<Longrightarrow> x \<le> y \<Longrightarrow> py_int x \<le> py_int y"
  by transfer (auto intro: floor_mono)

lemma py_int_F: "\<bar>m\<bar> \<le> 2 ^ 53 \<Longrightarrow> py_int (F (of_int m)) = m"
  by transfer simp

text \<open>Sums of non-negative floats, and termwise comparison of two sums.\<close>

lemma foldl_plus_mono:
  fixes xs ys :: "pyfloat list"
  assumes "list_all2 (\<le>) xs ys" and "a \<le> b"
  shows "foldl (+) a xs \<le> foldl (+) b ys"
  using assms
proof (induction xs ys arbitrary: a b rule: list_all2_induct)
  case (Cons x xs y ys)
  show ?case
    using Cons.IH [of "a + x" "b + y"] Cons.hyps Cons.prems by (simp add: float_add_mono)
qed simp

lemma py_sum_mono: "list_all2 (\<le>) xs ys \<Longrightarrow> py_sum xs \<le> py_sum ys"
  by (simp add: py_sum_def foldl_plus_mono)

lemma py_sum_nonneg: "\<forall>x \<in> set xs. 0 \<le> x \<Longrightarrow> 0 \<le> py_sum xs"
proof -
  assume *: "\<forall>x \<in> set xs. 0 \<le> x"
  have "0 \<le> a \<Longrightarrow> 0 \<le> foldl (+) a xs" for a :: pyfloat
    using * by (induction xs arbitrary: a) (auto simp: float_add_nonneg)
  then show ?thesis by (simp add: py_sum_def)
qed

lemma foldl_plus_ge:
  fixes xs :: "pyfloat list"
  assumes "\<forall>x \<in> set xs. 0 \<le> x"
  shows "a \<le> foldl (+) a xs"
  using assms
proof (induction xs arbitrary: a)
  case (Cons x xs)
  have "a \<le> a + x" using float_add_mono [of a a 0 x] Cons.prems by simp
  also have "\<dots> \<le> foldl (+) (a + x) xs" using Cons by simp
  finally show ?case by simp
qed simp

lemma py_sum_ge_last:
  "\<forall>x \<in> set xs. 0 \<le> x \<Longrightarrow> 0 \<le> y \<Longrightarrow> y \<le> py_sum (xs @ [y])"
  using float_add_mono [of 0 "py_sum xs" y y] py_sum_nonneg [of xs] by (simp add: py_sum_def)

end
