(* ===== verification/PyNumber.thy ===== *)
theory PyNumber
  imports PyFloat
begin

text \<open>
  Numbers as text. \<open>show_int\<close> is \<open>str(n)\<close>, \<open>repr_float\<close> is \<open>repr(x)\<close> of a float: the
  shortest decimal that rounds to \<open>x\<close>, in positional notation when the decimal point falls
  within 16 digits and in scientific notation otherwise. \<open>scan_number\<close> reads a JSON number as the
  standard library's scanner does. The main results are that reading back what was written gives
  the same number, for integers and for every finite float.
\<close>

section \<open>Digit strings\<close>

definition is_digit :: "char \<Rightarrow> bool" where
  "is_digit c = (48 \<le> (of_char c :: int) \<and> (of_char c :: int) \<le> 57)"

definition digit_val :: "char \<Rightarrow> int" where
  "digit_val c = of_char c - 48"

definition dval :: "string \<Rightarrow> int" where
  "dval ds = foldl (\<lambda>a c. 10 * a + digit_val c) 0 ds"

lemma of_char_show_digit: "0 \<le> d \<Longrightarrow> d < 10 \<Longrightarrow> (of_char (show_digit d) :: int) = 48 + d"
  by (simp add: show_digit_def of_char_of)

lemma show_digit_digit [simp]: "0 \<le> d \<Longrightarrow> d < 10 \<Longrightarrow> is_digit (show_digit d)"
  by (simp add: is_digit_def of_char_show_digit)

lemma digit_val_show [simp]: "0 \<le> d \<Longrightarrow> d < 10 \<Longrightarrow> digit_val (show_digit d) = d"
  by (simp add: digit_val_def of_char_show_digit)

lemma digit_val_0 [simp]: "digit_val CHR ''0'' = 0"
  by (simp add: digit_val_def)

lemma is_digit_nonneg: "is_digit c \<Longrightarrow> 0 \<le> digit_val c"
  by (simp add: is_digit_def digit_val_def)

lemma dval_Nil [simp]: "dval [] = 0"
  by (simp add: dval_def)

lemma dval_snoc [simp]: "dval (ds @ [c]) = 10 * dval ds + digit_val c"
  by (simp add: dval_def)

lemma dval_append: "dval (ds @ es) = dval ds * 10 ^ length es + dval es"
proof (induction es rule: rev_induct)
  case (snoc c es)
  have "dval (ds @ es @ [c]) = dval ((ds @ es) @ [c])" by simp
  also have "\<dots> = 10 * dval (ds @ es) + digit_val c" by (rule dval_snoc)
  finally show ?case using snoc by (simp add: algebra_simps)
qed simp

lemma dval_zeros [simp]: "dval (replicate n CHR ''0'') = 0"
  by (induction n) (simp_all flip: replicate_append_same)

lemma dval_one_zero [simp]: "dval ''0'' = 0"
  using dval_zeros [of 1] by simp

lemma dval_zero_cons [simp]: "dval (CHR ''0'' # ds) = dval ds"
  using dval_append [of "''0''" ds] by simp

lemma dval_nonneg: "list_all is_digit ds \<Longrightarrow> 0 \<le> dval ds"
  by (induction ds rule: rev_induct) (auto simp: is_digit_nonneg)

lemma show_dec_props:
  "0 \<le> n \<Longrightarrow> dval (show_dec n) = n \<and> show_dec n \<noteq> [] \<and> list_all is_digit (show_dec n)
   \<and> (0 < n \<longrightarrow> hd (show_dec n) \<noteq> CHR ''0'')"
proof (induction n rule: show_dec.induct)
  case (1 n)
  show ?case
  proof (cases "n < 10")
    case True
    have "show_digit n \<noteq> CHR ''0''" if "0 < n"
      by (metis True digit_val_0 digit_val_show less_imp_le less_irrefl that)
    moreover have "dval [show_digit n] = n"
      using dval_snoc [of "[]" "show_digit n"] True "1.prems" by simp
    ultimately show ?thesis
      using True "1.prems" by (simp add: show_dec.simps [of n])
  next
    case False
    with "1.IH" "1.prems" show ?thesis
      by (simp add: show_dec.simps [of n] hd_append)
  qed
qed

lemma dval_show_dec [simp]: "0 \<le> n \<Longrightarrow> dval (show_dec n) = n"
  and show_dec_digits: "0 \<le> n \<Longrightarrow> list_all is_digit (show_dec n)"
  and show_dec_hd: "0 < n \<Longrightarrow> hd (show_dec n) \<noteq> CHR ''0''"
  using show_dec_props by auto

lemma show_dec_nonempty [simp]: "show_dec n \<noteq> []"
  by (simp add: show_dec.simps [of n])

lemma show_dec_0 [simp]: "show_dec 0 = ''0''"
  by code_simp

lemma show_dec_length:
  assumes "0 < n"
  shows "10 ^ (length (show_dec n) - 1) \<le> n" and "n < 10 ^ length (show_dec n)"
proof -
  have "0 < n \<Longrightarrow> 10 ^ (length (show_dec n) - 1) \<le> n \<and> n < 10 ^ length (show_dec n)"
  proof (induction n rule: show_dec.induct)
    case (1 n)
    show ?case
    proof (cases "n < 10")
      case True
      with "1.prems" show ?thesis by (simp add: show_dec.simps [of n])
    next
      case False
      then have "0 < n div 10" by simp
      with "1.IH" False have IH: "10 ^ (length (show_dec (n div 10)) - 1) \<le> n div 10"
        "n div 10 < 10 ^ length (show_dec (n div 10))" by auto
      obtain l where l: "length (show_dec (n div 10)) = Suc l"
        by (metis length_greater_0_conv gr0_implies_Suc show_dec_nonempty)
      have "10 * 10 ^ l \<le> n" "n < 10 * 10 ^ Suc l"
        using IH unfolding l by simp_all
      with False l show ?thesis by (simp add: show_dec.simps [of n])
    qed
  qed
  with assms show "10 ^ (length (show_dec n) - 1) \<le> n" and "n < 10 ^ length (show_dec n)" by auto
qed

definition show_int :: "int \<Rightarrow> string" where
  "show_int n = (if n < 0 then CHR ''-'' # show_dec (- n) else show_dec n)"

text \<open>\<open>f"{x:.nf}"\<close>: the exact value rounded to \<open>n\<close> places, ties to even.\<close>

definition fmt_fixed :: "nat \<Rightarrow> pyfloat \<Rightarrow> string" where
  "fmt_fixed n x =
     (let m = rhe (\<bar>rat_of x\<bar> * 10 ^ n);
          ds = show_dec m;
          padded = replicate (Suc n - length ds) CHR ''0'' @ ds;
          k = length padded - n
      in (if rat_of x < 0 then ''-'' else [])
         @ take k padded @ (if n = 0 then [] else CHR ''.'' # drop k padded))"

section \<open>The shortest decimal of a float\<close>

text \<open>The position of the decimal point: \<open>10 powi (decpt x - 1) \<le> x < 10 powi decpt x\<close>.\<close>

definition decpt :: "rat \<Rightarrow> int" where
  "decpt x = (if 1 \<le> x then int (length (show_dec \<lfloor>x\<rfloor>))
              else 1 - int (length (show_dec (\<lceil>1 / x\<rceil> - 1))))"

definition candidates :: "nat \<Rightarrow> rat \<Rightarrow> (int \<times> int) list" where
  "candidates n x = (let k = decpt x - int n; y = x / 10 powi k
                     in [(rhe y, k), (\<lfloor>y\<rfloor>, k), (\<lfloor>y\<rfloor> + 1, k)])"

text \<open>More and more digits until one candidate rounds back to \<open>x\<close>; seventeen digits always do.\<close>

fun shortest_from :: "nat \<Rightarrow> nat \<Rightarrow> rat \<Rightarrow> int \<times> int" where
  "shortest_from 0 n x = hd (candidates n x)"
| "shortest_from (Suc i) n x =
     (case find (\<lambda>(m, k). fl (of_int m * 10 powi k) = x) (candidates n x) of
        Some d \<Rightarrow> d
      | None \<Rightarrow> shortest_from i (Suc n) x)"

definition shortest :: "rat \<Rightarrow> int \<times> int" where
  "shortest x = shortest_from 16 1 x"

fun strip0 :: "int \<Rightarrow> int \<Rightarrow> int \<times> int" where
  "strip0 m k = (if 0 < m \<and> m mod 10 = 0 then strip0 (m div 10) (k + 1) else (m, k))"

declare strip0.simps [simp del]

text \<open>The decimal with digits \<open>ds\<close>, point position \<open>p\<close> and value \<open>dval ds * 10 powi k\<close>.\<close>

definition layout :: "string \<Rightarrow> int \<Rightarrow> string" where
  "layout ds k =
     (let p = int (length ds) + k
      in if - 4 < p \<and> p \<le> 16 then
           if p \<le> 0 then ''0.'' @ replicate (nat (- p)) CHR ''0'' @ ds
           else if k < 0 then take (nat p) ds @ ''.'' @ drop (nat p) ds
           else ds @ replicate (nat k) CHR ''0'' @ ''.0''
         else (if length ds = 1 then ds else take 1 ds @ ''.'' @ drop 1 ds)
              @ (if p - 1 < 0 then ''e-'' else ''e+'')
              @ (let es = show_dec \<bar>p - 1\<bar> in if length es = 1 then CHR ''0'' # es else es))"

definition repr_pos :: "rat \<Rightarrow> string" where
  "repr_pos x = (let (m, k) = shortest x; (m', k') = strip0 m k in layout (show_dec m') k')"

definition repr_float :: "pyfloat \<Rightarrow> string" where
  "repr_float x =
     (let r = rat_of x
      in if r = 0 then ''0.0'' else if r < 0 then CHR ''-'' # repr_pos (- r) else repr_pos r)"

lemma powi10_pos [simp]: "0 < (10 :: rat) powi k"
  by simp

lemma dec_len_bounds:
  assumes "0 < n"
  shows "10 powi (int (length (show_dec n)) - 1) \<le> (of_int n :: rat)"
    and "of_int (n + 1) \<le> (10 powi int (length (show_dec n)) :: rat)"
proof -
  obtain l where l: "length (show_dec n) = Suc l"
    by (metis length_greater_0_conv gr0_implies_Suc show_dec_nonempty)
  have "10 ^ l \<le> n" "n + 1 \<le> 10 ^ Suc l"
    using show_dec_length [OF assms] unfolding l by simp_all
  then have "(of_int (10 ^ l) :: rat) \<le> of_int n" "(of_int (n + 1) :: rat) \<le> of_int (10 ^ Suc l)"
    by (simp_all only: of_int_le_iff)
  then show "10 powi (int (length (show_dec n)) - 1) \<le> (of_int n :: rat)"
    and "of_int (n + 1) \<le> (10 powi int (length (show_dec n)) :: rat)"
    by (simp_all add: l power_int_add)
qed

lemma decpt_bounds:
  assumes "0 < x"
  shows "10 powi (decpt x - 1) \<le> x" and "x < 10 powi decpt x"
proof -
  have "10 powi (decpt x - 1) \<le> x \<and> x < 10 powi decpt x"
  proof (cases "1 \<le> x")
    case True
    then have n: "0 < \<lfloor>x\<rfloor>" by simp
    have "of_int \<lfloor>x\<rfloor> \<le> x" "x < of_int (\<lfloor>x\<rfloor> + 1)" using floor_correct [of x] by auto
    with dec_len_bounds [OF n] have "10 powi (int (length (show_dec \<lfloor>x\<rfloor>)) - 1) \<le> x"
      "x < 10 powi int (length (show_dec \<lfloor>x\<rfloor>))" by linarith+
    with True show ?thesis by (simp add: decpt_def)
  next
    case False
    define m where "m = \<lceil>1 / x\<rceil> - 1"
    define L where "L = int (length (show_dec m))"
    have "1 < 1 / x" using False assms by simp
    then have m: "0 < m" by (simp add: less_ceiling_iff m_def)
    have "of_int m < 1 / x" "1 / x \<le> of_int (m + 1)"
      using ceiling_correct [of "1 / x"] by (auto simp: m_def)
    with dec_len_bounds [OF m] have "10 powi (L - 1) < 1 / x" "1 / x \<le> 10 powi L"
      unfolding L_def by auto
    then have "x < 1 / 10 powi (L - 1)" "1 / 10 powi L \<le> x"
      using assms by (simp_all add: field_simps)
    moreover have "decpt x = 1 - L" using False by (simp add: decpt_def m_def L_def)
    moreover have "(10 :: rat) powi (- L) = 1 / 10 powi L" "(10 :: rat) powi (1 - L) = 1 / 10 powi (L - 1)"
      by (simp_all add: power_int_minus power_int_diff inverse_eq_divide)
    ultimately show ?thesis by simp
  qed
  then show "10 powi (decpt x - 1) \<le> x" and "x < 10 powi decpt x" by auto
qed

lemma scaled_bounds:
  assumes "0 < x" and "1 \<le> n"
  shows "1 \<le> x / 10 powi (decpt x - int n)"
proof -
  have "(10 :: rat) powi (decpt x - int n) \<le> 10 powi (decpt x - 1)"
    using assms(2) by (intro power_int_increasing) auto
  also have "\<dots> \<le> x" by (rule decpt_bounds [OF assms(1)])
  finally show ?thesis by simp
qed

lemma candidates_pos:
  assumes "0 < x" and "1 \<le> n" and "(m, k) \<in> set (candidates n x)"
  shows "0 < m"
proof -
  let ?y = "x / 10 powi (decpt x - int n)"
  have f: "1 \<le> \<lfloor>?y\<rfloor>" using scaled_bounds [OF assms(1,2)] by simp
  then have "1 \<le> rhe ?y" using rhe_bounds(1) [of ?y] by linarith
  moreover have "m = rhe ?y \<or> m = \<lfloor>?y\<rfloor> \<or> m = \<lfloor>?y\<rfloor> + 1"
    using assms(3) by (simp add: candidates_def Let_def) blast
  ultimately show ?thesis using f by linarith
qed

text \<open>Seventeen significant digits always identify a float.\<close>

lemma candidate_17:
  assumes x: "0 < x" "fl x = x"
  shows "case hd (candidates 17 x) of (m, k) \<Rightarrow> fl (of_int m * 10 powi k) = x"
proof -
  define k where "k = decpt x - 17"
  define m where "m = rhe (x / 10 powi k)"
  have "of_int m * 10 powi k - x = (of_int m - x / 10 powi k) * 10 powi k"
    by (simp add: algebra_simps)
  then have "\<bar>of_int m * 10 powi k - x\<bar> = \<bar>of_int m - x / 10 powi k\<bar> * 10 powi k"
    by (simp add: abs_mult)
  also have "\<dots> \<le> 1 / 2 * 10 powi k"
    using rhe_near [of "x / 10 powi k"] by (intro mult_right_mono) (auto simp: m_def)
  also have "\<dots> = 10 powi (decpt x - 1) / (2 * 10 ^ 16)"
    by (simp add: k_def power_int_diff)
  also have "\<dots> \<le> x / (2 * 10 ^ 16)"
    using decpt_bounds(1) [OF x(1)] by (intro divide_right_mono) auto
  also have "\<dots> < x / 2 ^ 54" using x(1) by (intro divide_strict_left_mono) auto
  finally have "fl (of_int m * 10 powi k) = x" by (rule fl_near [OF x])
  then show ?thesis by (simp add: candidates_def Let_def k_def m_def)
qed

lemma shortest_from_rounds:
  assumes x: "0 < x" "fl x = x"
  shows "i + n = 17 \<Longrightarrow> 1 \<le> n \<Longrightarrow> shortest_from i n x = (m, k) \<Longrightarrow>
         0 < m \<and> fl (of_int m * 10 powi k) = x"
proof (induction i arbitrary: n)
  case 0
  then have n: "n = 17" and d: "hd (candidates 17 x) = (m, k)" by auto
  have "candidates 17 x \<noteq> []" by (simp add: candidates_def Let_def)
  with d have "(m, k) \<in> set (candidates 17 x)" by (metis list.set_sel(1))
  then have "0 < m" by (rule candidates_pos [OF x(1), rotated]) simp
  then show ?case using candidate_17 [OF x] d by simp
next
  case (Suc i)
  let ?P = "\<lambda>(m, k). fl (of_int m * 10 powi k) = x"
  show ?case
  proof (cases "find ?P (candidates n x)")
    case None
    then show ?thesis using Suc.IH [of "Suc n"] Suc.prems by simp
  next
    case (Some d)
    with Suc.prems have "find ?P (candidates n x) = Some (m, k)" by simp
    then obtain j where j: "j < length (candidates n x)" "candidates n x ! j = (m, k)" "?P (m, k)"
      by (auto simp: find_Some_iff)
    then have "(m, k) \<in> set (candidates n x)" by (metis nth_mem)
    then have "0 < m" by (rule candidates_pos [OF x(1) Suc.prems(2)])
    with j(3) show ?thesis by simp
  qed
qed

lemma shortest_rounds:
  assumes "0 < x" and "fl x = x" and "shortest x = (m, k)"
  shows "0 < m" and "fl (of_int m * 10 powi k) = x"
  using shortest_from_rounds [OF assms(1,2), of 16 1 m k] assms(3) by (simp_all add: shortest_def)

lemma strip0_value:
  "strip0 m k = (m', k') \<Longrightarrow> (of_int m :: rat) * 10 powi k = of_int m' * 10 powi k' \<and> (0 < m \<longrightarrow> 0 < m')"
proof (induction m k rule: strip0.induct)
  case (1 m k)
  show ?case
  proof (cases "0 < m \<and> m mod 10 = 0")
    case True
    then obtain j where j: "m = 10 * j" by auto
    have "strip0 (m div 10) (k + 1) = (m', k')"
      using "1.prems" True by (subst (asm) strip0.simps) simp
    with "1.IH" True have IH: "(of_int (m div 10) :: rat) * 10 powi (k + 1) = of_int m' * 10 powi k'"
      "0 < m div 10 \<longrightarrow> 0 < m'" by auto
    have "(of_int m :: rat) * 10 powi k = of_int (m div 10) * 10 powi (k + 1)"
      by (simp add: j power_int_add)
    with IH True j show ?thesis by auto
  next
    case False
    have "strip0 m k = (m, k)" using False by (subst strip0.simps) (simp only: if_False)
    with "1.prems" show ?thesis by auto
  qed
qed

section \<open>Reading a number\<close>

datatype pynum = NInt int | NFloat pyfloat

fun int_part :: "string \<Rightarrow> (string \<times> string) option" where
  "int_part [] = None"
| "int_part (c # cs) =
     (if c = CHR ''0'' then Some ([c], cs)
      else if is_digit c then Some (takeWhile is_digit (c # cs), dropWhile is_digit (c # cs))
      else None)"

fun frac_part :: "string \<Rightarrow> string \<times> string" where
  "frac_part [] = ([], [])"
| "frac_part (c # cs) =
     (if c = CHR ''.'' \<and> takeWhile is_digit cs \<noteq> [] then (takeWhile is_digit cs, dropWhile is_digit cs)
      else ([], c # cs))"

fun exp_sign :: "string \<Rightarrow> bool \<times> string" where
  "exp_sign [] = (False, [])"
| "exp_sign (c # cs) =
     (if c = CHR ''-'' then (True, cs) else if c = CHR ''+'' then (False, cs) else (False, c # cs))"

fun exp_part :: "string \<Rightarrow> int option \<times> string" where
  "exp_part [] = (None, [])"
| "exp_part (c # cs) =
     (let (neg, t) = exp_sign cs; ds = takeWhile is_digit t
      in if (c = CHR ''e'' \<or> c = CHR ''E'') \<and> ds \<noteq> []
         then (Some (if neg then - dval ds else dval ds), dropWhile is_digit t)
         else (None, c # cs))"

definition scan_unsigned :: "bool \<Rightarrow> string \<Rightarrow> (pynum \<times> string) option" where
  "scan_unsigned neg s =
     (case int_part s of
        None \<Rightarrow> None
      | Some (ip, s2) \<Rightarrow>
          let (fp, s3) = frac_part s2; (ex, s4) = exp_part s3
          in if fp = [] \<and> ex = None
             then Some (NInt (if neg then - dval ip else dval ip), s4)
             else let v = of_int (dval (ip @ fp))
                          * 10 powi ((case ex of None \<Rightarrow> 0 | Some e \<Rightarrow> e) - int (length fp))
                  in Some (NFloat (F (if neg then - v else v)), s4))"

definition scan_number :: "string \<Rightarrow> (pynum \<times> string) option" where
  "scan_number s =
     (case s of [] \<Rightarrow> None
      | c # cs \<Rightarrow> if c = CHR ''-'' then scan_unsigned True cs else scan_unsigned False s)"

text \<open>What may follow a number so that the scanner stops there.\<close>

definition num_stop :: "string \<Rightarrow> bool" where
  "num_stop s =
     (case s of [] \<Rightarrow> True
      | c # _ \<Rightarrow> \<not> is_digit c \<and> c \<noteq> CHR ''.'' \<and> c \<noteq> CHR ''e'' \<and> c \<noteq> CHR ''E'')"

section \<open>Reading back what was written\<close>

lemma digits_span:
  assumes "list_all is_digit ds" and "rest = [] \<or> \<not> is_digit (hd rest)"
  shows "takeWhile is_digit (ds @ rest) = ds" and "dropWhile is_digit (ds @ rest) = rest"
proof -
  have "takeWhile is_digit rest = []" "dropWhile is_digit rest = rest"
    using assms(2) by (cases rest; simp)+
  with assms(1) show "takeWhile is_digit (ds @ rest) = ds" and "dropWhile is_digit (ds @ rest) = rest"
    by (simp_all add: list_all_iff takeWhile_append dropWhile_append)
qed

lemma int_part_zero [simp]: "int_part (CHR ''0'' # s) = Some (''0'', s)"
  by simp

lemma int_part_digits:
  assumes "list_all is_digit ds" and "ds \<noteq> []" and "hd ds \<noteq> CHR ''0''"
    and "rest = [] \<or> \<not> is_digit (hd rest)"
  shows "int_part (ds @ rest) = Some (ds, rest)"
proof (cases ds)
  case (Cons c cs)
  with assms(1,3) have "is_digit c" "c \<noteq> CHR ''0''" by auto
  then show ?thesis
    using digits_span [OF assms(1,4)] by (simp add: Cons)
qed (use assms in simp)

lemma frac_part_digits:
  assumes "list_all is_digit ds" and "ds \<noteq> []" and "rest = [] \<or> \<not> is_digit (hd rest)"
  shows "frac_part (CHR ''.'' # ds @ rest) = (ds, rest)"
  using digits_span [OF assms(1,3)] assms(2) by simp

lemma frac_part_none: "rest = [] \<or> hd rest \<noteq> CHR ''.'' \<Longrightarrow> frac_part rest = ([], rest)"
  by (cases rest) auto

lemma exp_part_none:
  "rest = [] \<or> (hd rest \<noteq> CHR ''e'' \<and> hd rest \<noteq> CHR ''E'') \<Longrightarrow> exp_part rest = (None, rest)"
  by (cases rest) (auto simp: Let_def split: prod.splits)

lemma exp_part_digits:
  assumes "list_all is_digit ds" and "ds \<noteq> []" and "rest = [] \<or> \<not> is_digit (hd rest)"
  shows "exp_part (CHR ''e'' # CHR ''-'' # ds @ rest) = (Some (- dval ds), rest)"
    and "exp_part (CHR ''e'' # CHR ''+'' # ds @ rest) = (Some (dval ds), rest)"
  using digits_span [OF assms(1,3)] assms(2) by simp_all

declare int_part.simps [simp del] frac_part.simps [simp del] exp_part.simps [simp del]

lemma num_stop_props:
  assumes "num_stop rest"
  shows "rest = [] \<or> \<not> is_digit (hd rest)" and "rest = [] \<or> hd rest \<noteq> CHR ''.''"
    and "rest = [] \<or> (hd rest \<noteq> CHR ''e'' \<and> hd rest \<noteq> CHR ''E'')"
  using assms by (auto simp: num_stop_def split: list.splits)

lemma not_digit [simp]:
  "\<not> is_digit CHR ''.''" "\<not> is_digit CHR ''e''" "\<not> is_digit CHR ''-''" "\<not> is_digit CHR ''+''"
  by (simp_all add: is_digit_def)

lemma show_dec_hd_zero: "0 \<le> n \<Longrightarrow> hd (show_dec n) = CHR ''0'' \<Longrightarrow> n = 0"
  using show_dec_hd [of n] by force

lemma scan_unsigned_dec:
  assumes "0 \<le> n" and "num_stop rest"
  shows "scan_unsigned neg (show_dec n @ rest) = Some (NInt (if neg then - n else n), rest)"
proof -
  note s = num_stop_props [OF assms(2)]
  have "int_part (show_dec n @ rest) = Some (show_dec n, rest)"
  proof (cases "n = 0")
    case False
    with assms s show ?thesis
      by (intro int_part_digits) (auto simp: show_dec_digits dest: show_dec_hd_zero)
  qed simp
  then show ?thesis
    using assms by (simp add: scan_unsigned_def frac_part_none [OF s(2)] exp_part_none [OF s(3)])
qed

lemma show_dec_hd_digit: "0 \<le> n \<Longrightarrow> \<exists>c cs. show_dec n = c # cs \<and> is_digit c"
  using show_dec_digits [of n] by (cases "show_dec n") auto

theorem scan_show_int: "num_stop rest \<Longrightarrow> scan_number (show_int n @ rest) = Some (NInt n, rest)"
proof (cases "n < 0")
  case True
  then show "num_stop rest \<Longrightarrow> ?thesis" by (simp add: show_int_def scan_number_def scan_unsigned_dec)
next
  case False
  then obtain c cs where c: "show_dec n = c # cs" "is_digit c"
    using show_dec_hd_digit [of n] by auto
  then have "c \<noteq> CHR ''-''" by auto
  with False c show "num_stop rest \<Longrightarrow> ?thesis"
    using scan_unsigned_dec [of n rest False] by (simp add: show_int_def scan_number_def)
qed

text \<open>The four layouts of \<open>repr\<close>, each read back to the decimal it shows.\<close>

lemma scan_unsigned_parts:
  assumes "int_part s = Some (ip, s2)" and "frac_part s2 = (fp, s3)" and "exp_part s3 = (ex, rest)"
    and "fp \<noteq> [] \<or> ex \<noteq> None"
    and v: "of_int (dval (ip @ fp)) * 10 powi ((case ex of None \<Rightarrow> 0 | Some e \<Rightarrow> e) - int (length fp)) = v"
  shows "scan_unsigned neg s = Some (NFloat (F (if neg then - v else v)), rest)"
  using assms by (auto simp: scan_unsigned_def)

lemma all_digits_zeros [simp]: "list_all is_digit (replicate n CHR ''0'')"
  by (simp add: list_all_iff is_digit_def)

lemma list_all_take_drop:
  "list_all P ds \<Longrightarrow> list_all P (take n ds)" "list_all P ds \<Longrightarrow> list_all P (drop n ds)"
  by (auto simp: list_all_iff dest: in_set_takeD in_set_dropD)

lemma scan_fixed:
  assumes "int_part s = Some (ip, CHR ''.'' # fp @ rest)" and "list_all is_digit fp" and "fp \<noteq> []"
    and "num_stop rest" and "of_int (dval (ip @ fp)) * 10 powi (- int (length fp)) = v"
  shows "scan_unsigned neg s = Some (NFloat (F (if neg then - v else v)), rest)"
proof -
  note s = num_stop_props [OF assms(4)]
  show ?thesis
    by (rule scan_unsigned_parts [OF assms(1) frac_part_digits [OF assms(2,3) s(1)]
          exp_part_none [OF s(3)]])
      (use assms in auto)
qed

lemma scan_exp:
  assumes "int_part s = Some (ip, s2)" and "frac_part s2 = (fp, t @ es @ rest)"
    and "t = (if e < 0 then ''e-'' else ''e+'')"
    and "list_all is_digit es" and "es \<noteq> []" and "dval es = \<bar>e\<bar>" and "num_stop rest"
    and "of_int (dval (ip @ fp)) * 10 powi (e - int (length fp)) = v"
  shows "scan_unsigned neg s = Some (NFloat (F (if neg then - v else v)), rest)"
proof -
  have "exp_part (t @ es @ rest) = (Some e, rest)"
    using exp_part_digits [OF assms(4,5), of rest] num_stop_props(1) [OF assms(7)] assms(3,6) by auto
  from scan_unsigned_parts [OF assms(1,2) this] assms(8) show ?thesis by auto
qed

lemma scan_layout:
  assumes ds: "list_all is_digit ds" "ds \<noteq> []" "hd ds \<noteq> CHR ''0''" and stop: "num_stop rest"
    and v: "v = of_int (dval ds) * 10 powi k"
  shows "scan_unsigned neg (layout ds k @ rest) = Some (NFloat (F (if neg then - v else v)), rest)"
proof -
  define p where "p = int (length ds) + k"
  have len: "0 < length ds" using ds(2) by simp
  show ?thesis
  proof (cases "- 4 < p \<and> p \<le> 16")
    case fixed: True
    consider "p \<le> 0" | "0 < p" "k < 0" | "0 < p" "0 \<le> k" by linarith
    then show ?thesis
    proof cases
      case 1
      let ?fp = "replicate (nat (- p)) CHR ''0'' @ ds"
      have lay: "layout ds k = ''0.'' @ ?fp"
        unfolding layout_def Let_def p_def [symmetric] using 1 fixed by simp
      have "- int (length ?fp) = k" using 1 by (simp add: p_def)
      then have "of_int (dval (''0'' @ ?fp)) * 10 powi (- int (length ?fp)) = v"
        by (simp add: v dval_append)
      then show ?thesis
        using ds stop by (intro scan_fixed [where ip = "''0''" and fp = ?fp]) (auto simp: lay)
    next
      case 2
      let ?ip = "take (nat p) ds" and ?fp = "drop (nat p) ds"
      have lay: "layout ds k = ?ip @ ''.'' @ ?fp"
        unfolding layout_def Let_def p_def [symmetric] using 2 fixed by simp
      have lt: "nat p < length ds" "0 < nat p" using 2 by (auto simp: p_def)
      have "int_part (?ip @ CHR ''.'' # ?fp @ rest) = Some (?ip, CHR ''.'' # ?fp @ rest)"
        using ds lt by (intro int_part_digits) (auto simp: list_all_take_drop)
      moreover have "- int (length ?fp) = k" using 2 by (simp add: p_def)
      then have "of_int (dval (?ip @ ?fp)) * 10 powi (- int (length ?fp)) = v"
        by (simp add: v)
      ultimately show ?thesis
        using ds stop lt
        by (intro scan_fixed [where ip = ?ip and fp = ?fp]) (auto simp: lay list_all_take_drop)
    next
      case 3
      let ?ip = "ds @ replicate (nat k) CHR ''0''"
      have lay: "layout ds k = ?ip @ ''.0''"
        unfolding layout_def Let_def p_def [symmetric] using 3 fixed by simp
      have "int_part (?ip @ CHR ''.'' # ''0'' @ rest) = Some (?ip, CHR ''.'' # ''0'' @ rest)"
        using ds by (intro int_part_digits) auto
      moreover have "of_int (dval (?ip @ ''0'')) * 10 powi (- int (length ''0'')) = v"
        using 3 by (simp add: v dval_append power_int_def)
      ultimately show ?thesis
        using stop
        by (intro scan_fixed [where ip = ?ip and fp = "''0''"]) (auto simp: lay is_digit_def)
    qed
  next
    case sci: False
    define es where "es = (let es = show_dec \<bar>p - 1\<bar> in if length es = 1 then CHR ''0'' # es else es)"
    have es: "list_all is_digit es" "es \<noteq> []" "dval es = \<bar>p - 1\<bar>"
      using dval_append [of "''0''" "show_dec \<bar>p - 1\<bar>"]
      by (auto simp: es_def Let_def show_dec_digits is_digit_def dval_one_zero)
    define t where "t = (if p - 1 < 0 then ''e-'' else ''e+'')"
    have t: "t \<noteq> []" "hd t = CHR ''e''" by (auto simp: t_def)
    have l: "layout ds k = (if length ds = 1 then ds else take 1 ds @ ''.'' @ drop 1 ds) @ t @ es"
      unfolding layout_def Let_def p_def [symmetric] es_def t_def using sci by auto
    show ?thesis
    proof (cases "length ds = 1")
      case True
      have "int_part (ds @ t @ es @ rest) = Some (ds, t @ es @ rest)"
        using ds t by (intro int_part_digits) auto
      then show ?thesis
        using True es stop t
        by (intro scan_exp [where ip = ds and fp = "[]" and e = "p - 1" and es = es and t = t])
          (auto simp: l t_def v p_def intro!: frac_part_none)
    next
      case False
      with len have l2: "1 < length ds" by linarith
      let ?ip = "take 1 ds" and ?fp = "drop 1 ds"
      have "int_part (?ip @ CHR ''.'' # ?fp @ t @ es @ rest) = Some (?ip, CHR ''.'' # ?fp @ t @ es @ rest)"
        using ds l2 by (intro int_part_digits) (auto simp: list_all_take_drop)
      moreover have "frac_part (CHR ''.'' # ?fp @ t @ es @ rest) = (?fp, t @ es @ rest)"
        using ds l2 t by (intro frac_part_digits) (auto simp: list_all_take_drop)
      moreover have "p - 1 - int (length ?fp) = k" using l2 by (simp add: p_def)
      ultimately show ?thesis
        using False es stop t
        by (intro scan_exp [where ip = ?ip and fp = ?fp and e = "p - 1" and es = es and t = t])
          (auto simp: l t_def v)
    qed
  qed
qed

lemma layout_hd_digit: "ds \<noteq> [] \<Longrightarrow> list_all is_digit ds \<Longrightarrow> \<exists>c cs. layout ds k = c # cs \<and> is_digit c"
  by (cases ds) (auto simp: layout_def Let_def is_digit_def take_Cons')

theorem scan_repr_float:
  assumes stop: "num_stop rest"
  shows "scan_number (repr_float x @ rest) = Some (NFloat x, rest)"
proof -
  have pos: "scan_unsigned neg (repr_pos r @ rest) = Some (NFloat (F (if neg then - r else r)), rest)
      \<and> (\<exists>c cs. repr_pos r = c # cs \<and> is_digit c)"
    if r: "0 < r" "fl r = r" for r neg
  proof -
    obtain m k where mk: "shortest r = (m, k)" by fastforce
    obtain m' k' where mk': "strip0 m k = (m', k')" by fastforce
    note s = shortest_rounds [OF r mk] and s' = strip0_value [OF mk']
    then have m': "0 < m'" and v: "fl (of_int m' * 10 powi k') = r" by auto
    have rep: "repr_pos r = layout (show_dec m') k'"
      by (simp add: repr_pos_def mk mk')
    have d: "list_all is_digit (show_dec m')" "show_dec m' \<noteq> []" "hd (show_dec m') \<noteq> CHR ''0''"
      using m' show_dec_hd [OF m'] by (simp_all add: show_dec_digits)
    have "F (of_int m' * 10 powi k') = F r" "F (- (of_int m' * 10 powi k')) = F (- r)"
      using v r(2) by (simp_all add: F_eq fl_minus)
    then show ?thesis
      using scan_layout [OF d stop refl, of neg k'] layout_hd_digit [OF d(2,1), of k'] m'
      by (simp add: rep)
  qed
  define r where "r = rat_of x"
  have r: "fl r = r" "F r = x" by (simp_all add: r_def)
  consider "r = 0" | "r < 0" | "0 < r" by linarith
  then show ?thesis
  proof cases
    case 1
    have "scan_unsigned False (''0.0'' @ rest) = Some (NFloat (F (if False then - 0 else 0)), rest)"
      using stop
      by (intro scan_fixed [where ip = "''0''" and fp = "''0''"])
        (auto simp: is_digit_def dval_def digit_val_def)
    with 1 r(2) show ?thesis by (simp add: repr_float_def r_def [symmetric] scan_number_def)
  next
    case 2
    with r(1) have "0 < - r" "fl (- r) = - r" by (simp_all add: fl_minus)
    from pos [OF this, of True] 2 r(2) show ?thesis
      by (simp add: repr_float_def r_def [symmetric] scan_number_def)
  next
    case 3
    from pos [OF this r(1), of False] 3 r(2) show ?thesis
      by (auto simp: repr_float_def r_def [symmetric] scan_number_def)
  qed
qed

end
