(* ===== verification/PyJson.thy ===== *)
theory PyJson
  imports PyNumber "HOL-Library.Char_ord" "HOL-Library.List_Lexorder"
begin

text \<open>
  JSON text as the standard library's \<open>json\<close> module writes and reads it.

  \<open>dumps isep ksep\<close> is \<open>json.dumps(v, separators=(isep, ksep))\<close> (the default separators are
  \<open>", "\<close> and \<open>": "\<close>) with \<open>ensure_ascii\<close>; \<open>sort_keys\<close> is \<open>dumps\<close> after \<open>canon\<close>. \<open>loads\<close> is
  \<open>json.loads\<close>: \<open>None\<close> is its JSONDecodeError. An object is the list of its members in
  insertion order; \<open>build\<close> makes the dictionary, where a repeated key keeps its first position
  and takes its last value. The values of the model hold code points below 256 and finite numbers:
  a text that \<open>json.loads\<close> reads but whose value holds more than that, by an escape or by one of
  the literals NaN and Infinity, is \<open>foreign\<close>. \<open>loads\<close> gives \<open>None\<close> for it, and an operation whose
  outcome depends on the value raises \<open>Unmodelled\<close> (\<open>decode_error\<close>), an outcome of the model and
  not of the code. The limits of the interpreter are not modelled: its recursion limit, the 4300 digits
  it converts to an integer, and the exponents beyond which a float is infinite or zero.

  The reader recurses on fuel; twice the length of the text is enough (\<open>pv_fuel\<close>), so a
  \<open>None\<close> of \<open>loads\<close> is a syntax error and never a lack of fuel. Main results: reading what
  \<open>dumps\<close> wrote gives the value back (\<open>loads_dumps\<close>), so \<open>dumps\<close> is injective.
\<close>

datatype json =
    JNull
  | JBool bool
  | JInt int
  | JFloat pyfloat
  | JStr string
  | JList "json list"
  | JObj "(string \<times> json) list"

section \<open>Writing\<close>

definition hex_digit :: "int \<Rightarrow> char" where
  "hex_digit d = (if d < 10 then char_of (48 + d) else char_of (87 + d))"

definition esc_char :: "char \<Rightarrow> string" where
  "esc_char c =
     (let n = of_char c :: int
      in if n = 34 then [CHR 0x5C, CHR 0x22]
         else if n = 92 then [CHR 0x5C, CHR 0x5C]
         else if n = 10 then [CHR 0x5C, CHR ''n'']
         else if n = 13 then [CHR 0x5C, CHR ''r'']
         else if n = 9 then [CHR 0x5C, CHR ''t'']
         else if n = 12 then [CHR 0x5C, CHR ''f'']
         else if n = 8 then [CHR 0x5C, CHR ''b'']
         else if 32 \<le> n \<and> n \<le> 126 then [c]
         else [CHR 0x5C, CHR ''u'', CHR ''0'', CHR ''0'', hex_digit (n div 16), hex_digit (n mod 16)])"

definition quote :: "string \<Rightarrow> string" where
  "quote s = CHR 0x22 # concat (map esc_char s) @ [CHR 0x22]"

fun dumps :: "string \<Rightarrow> string \<Rightarrow> json \<Rightarrow> string"
  and dumps_items :: "string \<Rightarrow> string \<Rightarrow> json list \<Rightarrow> string"
  and dumps_members :: "string \<Rightarrow> string \<Rightarrow> (string \<times> json) list \<Rightarrow> string" where
  "dumps i k JNull = ''null''"
| "dumps i k (JBool b) = (if b then ''true'' else ''false'')"
| "dumps i k (JInt n) = show_int n"
| "dumps i k (JFloat x) = repr_float x"
| "dumps i k (JStr s) = quote s"
| "dumps i k (JList vs) = CHR ''['' # dumps_items i k vs @ '']''"
| "dumps i k (JObj ms) = CHR ''{'' # dumps_members i k ms @ ''}''"
| "dumps_items i k [] = []"
| "dumps_items i k (v # vs) = dumps i k v @ (if vs = [] then [] else i @ dumps_items i k vs)"
| "dumps_members i k [] = []"
| "dumps_members i k ((key, v) # ms) =
     quote key @ k @ dumps i k v @ (if ms = [] then [] else i @ dumps_members i k ms)"

text \<open>\<open>sort_keys=True\<close>: the members of every object in the order of their keys.\<close>

fun canon :: "json \<Rightarrow> json" and canon_items :: "json list \<Rightarrow> json list"
  and canon_members :: "(string \<times> json) list \<Rightarrow> (string \<times> json) list" where
  "canon (JList vs) = JList (canon_items vs)"
| "canon (JObj ms) = JObj (sort_key fst (canon_members ms))"
| "canon j = j"
| "canon_items [] = []"
| "canon_items (v # vs) = canon v # canon_items vs"
| "canon_members [] = []"
| "canon_members ((key, v) # ms) = (key, canon v) # canon_members ms"

section \<open>Reading\<close>

definition is_ws :: "char \<Rightarrow> bool" where
  "is_ws c = (c = CHR '' '' \<or> c = CHR 0x09 \<or> c = CHR 0x0A \<or> c = CHR 0x0D)"

definition skip_ws :: "string \<Rightarrow> string" where
  "skip_ws s = dropWhile is_ws s"

definition hex_val :: "char \<Rightarrow> int option" where
  "hex_val c =
     (let n = of_char c :: int
      in if 48 \<le> n \<and> n \<le> 57 then Some (n - 48)
         else if 97 \<le> n \<and> n \<le> 102 then Some (n - 87)
         else if 65 \<le> n \<and> n \<le> 70 then Some (n - 55)
         else None)"

definition hex4 :: "char \<Rightarrow> char \<Rightarrow> char \<Rightarrow> char \<Rightarrow> int option" where
  "hex4 a b c d =
     (case (hex_val a, hex_val b, hex_val c, hex_val d) of
        (Some w, Some x, Some y, Some z) \<Rightarrow> Some (4096 * w + 256 * x + 16 * y + z)
      | _ \<Rightarrow> None)"

definition unesc :: "char \<Rightarrow> char option" where
  "unesc e =
     (if e = CHR 0x22 \<or> e = CHR 0x5C \<or> e = CHR ''/'' then Some e
      else if e = CHR ''n'' then Some CHR 0x0A else if e = CHR ''r'' then Some CHR 0x0D
      else if e = CHR ''t'' then Some CHR 0x09 else if e = CHR ''f'' then Some CHR 0x0C
      else if e = CHR ''b'' then Some CHR 0x08 else None)"

abbreviation push_char :: "char \<Rightarrow> (string \<times> string) option \<Rightarrow> (string \<times> string) option" where
  "push_char c \<equiv> map_option (\<lambda>(s, r). (c # s, r))"

fun read_str :: "string \<Rightarrow> (string \<times> string) option" where
  "read_str [] = None"
| "read_str (c # cs) =
     (if c = CHR 0x22 then Some ([], cs)
      else if c = CHR 0x5C then
        (case cs of [] \<Rightarrow> None
         | e # es \<Rightarrow>
             if e = CHR ''u'' then
               (case es of h1 # h2 # h3 # h4 # r \<Rightarrow>
                  (case hex4 h1 h2 h3 h4 of
                     None \<Rightarrow> None
                   | Some n \<Rightarrow> if n < 256 then push_char (char_of n) (read_str r) else None)
                | _ \<Rightarrow> None)
             else (case unesc e of None \<Rightarrow> None | Some d \<Rightarrow> push_char d (read_str es)))
      else if (of_char c :: int) < 32 then None
      else push_char c (read_str cs))"

fun pv :: "nat \<Rightarrow> string \<Rightarrow> (json \<times> string) option"
  and pe :: "nat \<Rightarrow> string \<Rightarrow> (json list \<times> string) option"
  and pm :: "nat \<Rightarrow> string \<Rightarrow> ((string \<times> json) list \<times> string) option" where
  "pv 0 s = None"
| "pv (Suc n) s =
     (case s of [] \<Rightarrow> None
      | c # t \<Rightarrow>
          if c = CHR 0x22 then map_option (\<lambda>(x, r). (JStr x, r)) (read_str t)
          else if c = CHR ''{'' then
            (case skip_ws t of [] \<Rightarrow> None
             | d # u \<Rightarrow> if d = CHR ''}'' then Some (JObj [], u)
                       else map_option (\<lambda>(ms, r). (JObj ms, r)) (pm n (d # u)))
          else if c = CHR ''['' then
            (case skip_ws t of [] \<Rightarrow> None
             | d # u \<Rightarrow> if d = CHR '']'' then Some (JList [], u)
                       else map_option (\<lambda>(vs, r). (JList vs, r)) (pe n (d # u)))
          else if starts_with ''null'' s then Some (JNull, drop 4 s)
          else if starts_with ''true'' s then Some (JBool True, drop 4 s)
          else if starts_with ''false'' s then Some (JBool False, drop 5 s)
          else (case scan_number s of
                  None \<Rightarrow> None
                | Some (NInt m, r) \<Rightarrow> Some (JInt m, r)
                | Some (NFloat x, r) \<Rightarrow> Some (JFloat x, r)))"
| "pe 0 s = None"
| "pe (Suc n) s =
     (case pv n s of None \<Rightarrow> None
      | Some (v, r) \<Rightarrow>
          (case skip_ws r of [] \<Rightarrow> None
           | d # u \<Rightarrow> if d = CHR '']'' then Some ([v], u)
                     else if d = CHR '','' then map_option (\<lambda>(vs, r'). (v # vs, r')) (pe n (skip_ws u))
                     else None))"
| "pm 0 s = None"
| "pm (Suc n) s =
     (case s of [] \<Rightarrow> None
      | c # t \<Rightarrow>
          if c \<noteq> CHR 0x22 then None
          else (case read_str t of None \<Rightarrow> None
            | Some (key, r) \<Rightarrow>
                (case skip_ws r of [] \<Rightarrow> None
                 | d # u \<Rightarrow>
                     if d \<noteq> CHR '':'' then None
                     else (case pv n (skip_ws u) of None \<Rightarrow> None
                       | Some (v, r2) \<Rightarrow>
                           (case skip_ws r2 of [] \<Rightarrow> None
                            | d2 # u2 \<Rightarrow>
                                if d2 = CHR ''}'' then Some ([(key, v)], u2)
                                else if d2 = CHR '',''
                                  then map_option (\<lambda>(ms, r'). ((key, v) # ms, r')) (pm n (skip_ws u2))
                                else None)))))"

fun build :: "json \<Rightarrow> json" and build_items :: "json list \<Rightarrow> json list"
  and build_members :: "(string \<times> json) list \<Rightarrow> (string \<times> json) list \<Rightarrow> (string \<times> json) list" where
  "build (JList vs) = JList (build_items vs)"
| "build (JObj ms) = JObj (build_members ms [])"
| "build j = j"
| "build_items [] = []"
| "build_items (v # vs) = build v # build_items vs"
| "build_members [] d = d"
| "build_members ((key, v) # ms) d = build_members ms (dict_set key (build v) d)"

definition raw_loads :: "string \<Rightarrow> json option" where
  "raw_loads s =
     (case pv (2 * length s + 1) (skip_ws s) of
        Some (j, r) \<Rightarrow> if skip_ws r = [] then Some j else None
      | None \<Rightarrow> None)"

definition loads :: "string \<Rightarrow> json option" where
  "loads s = map_option build (raw_loads s)"

section \<open>Foreign texts\<close>

text \<open>
  \<open>soften\<close> puts a question mark for every escape above 255 and \<open>null\<close> for the literals, inside and
  outside of strings; it leaves every other text as it is. A text is foreign if only this makes it
  readable.
\<close>

fun soften :: "bool \<Rightarrow> string \<Rightarrow> string" where
  "soften quoted [] = []"
| "soften quoted (c # cs) =
     (if quoted then
        (if c = CHR 0x22 then c # soften False cs
         else if c = CHR 0x5C then
           (case cs of [] \<Rightarrow> [c]
            | e # es \<Rightarrow>
                if e = CHR ''u'' \<and> 4 \<le> length es
                   \<and> (case hex4 (es ! 0) (es ! 1) (es ! 2) (es ! 3) of None \<Rightarrow> False | Some n \<Rightarrow> 256 \<le> n)
                then CHR ''?'' # soften True (drop 4 es)
                else c # e # soften True es)
         else c # soften True cs)
      else if c = CHR 0x22 then c # soften True cs
      else if starts_with ''NaN'' (c # cs) then ''null'' @ soften False (drop 2 cs)
      else if starts_with ''Infinity'' (c # cs) then ''null'' @ soften False (drop 7 cs)
      else if starts_with ''-Infinity'' (c # cs) then ''null'' @ soften False (drop 8 cs)
      else c # soften False cs)"

definition foreign :: "string \<Rightarrow> bool" where
  "foreign s \<longleftrightarrow> loads s = None \<and> loads (soften False s) \<noteq> None"

definition decode_error :: "string \<Rightarrow> exn" where
  "decode_error s = (if foreign s then Unmodelled else ValueError)"

lemma not_foreign: "loads s = Some j \<Longrightarrow> \<not> foreign s"
  by (simp add: foreign_def)

lemma foreign_examples:
  "foreign ''NaN''" "foreign ''[1, -Infinity]''" "foreign (CHR 0x22 # CHR 0x5C # ''u2014'' @ [CHR 0x22])"
  "\<not> foreign ''nope''" "\<not> foreign ''{Infinity}''" "\<not> foreign (CHR 0x22 # CHR 0x5C # ''u214'' @ [CHR 0x22])"
  by code_simp+

section \<open>Strings round-trip\<close>

lemma of_char_int_bounds: "0 \<le> (of_char c :: int)" "(of_char c :: int) < 256"
proof -
  have "(of_char c :: nat) < 256" by simp
  moreover have "(of_char c :: int) = int (of_char c)" by (simp only: of_nat_of_char)
  ultimately show "0 \<le> (of_char c :: int)" "(of_char c :: int) < 256" by linarith+
qed

lemma char_of_int_inverse [simp]: "char_of (of_char c :: int) = c"
  by simp

lemma of_char_eqD: "(of_char c :: int) = n \<Longrightarrow> c = char_of n"
  by auto

lemma hex_val_digit: "0 \<le> d \<Longrightarrow> d < 16 \<Longrightarrow> hex_val (hex_digit d) = Some d"
  by (simp add: hex_val_def hex_digit_def of_char_of Let_def)

lemma char_of_codes:
  "char_of (34 :: int) = CHR 0x22" "char_of (92 :: int) = CHR 0x5C" "char_of (10 :: int) = CHR 0x0A"
  "char_of (13 :: int) = CHR 0x0D" "char_of (9 :: int) = CHR 0x09" "char_of (12 :: int) = CHR 0x0C"
  "char_of (8 :: int) = CHR 0x08"
  by code_simp+

lemma read_str_esc:
  "read_str (esc_char c @ r) = push_char c (read_str r)"
proof -
  define n where "n = (of_char c :: int)"
  have n: "0 \<le> n" "n < 256" using of_char_int_bounds [of c] by (simp_all add: n_def)
  have c: "c = char_of n" by (simp add: n_def)
  consider "n = 34" | "n = 92" | "n = 10" | "n = 13" | "n = 9" | "n = 12" | "n = 8"
    | (plain) "n \<notin> {34, 92, 10, 13, 9, 12, 8}" "32 \<le> n \<and> n \<le> 126"
    | (hex) "n \<notin> {34, 92, 10, 13, 9, 12, 8}" "\<not> (32 \<le> n \<and> n \<le> 126)" by blast
  then show ?thesis
  proof cases
    case plain
    have "c \<noteq> CHR 0x22" "c \<noteq> CHR 0x5C" using plain(1) by (auto simp: n_def)
    with plain show ?thesis by (auto simp: esc_char_def n_def Let_def)
  next
    case hex
    have h: "hex4 CHR ''0'' CHR ''0'' (hex_digit (n div 16)) (hex_digit (n mod 16)) = Some n"
      using n by (simp add: hex4_def hex_val_digit) (simp add: hex_val_def)
    have "esc_char c = [CHR 0x5C, CHR ''u'', CHR ''0'', CHR ''0'', hex_digit (n div 16), hex_digit (n mod 16)]"
      using hex by (auto simp: esc_char_def n_def Let_def)
    then show ?thesis using h n c by simp
  qed (simp_all add: esc_char_def Let_def n_def [symmetric], simp_all add: c unesc_def char_of_codes)
qed

lemma read_str_quote: "read_str (concat (map esc_char s) @ CHR 0x22 # rest) = Some (s, rest)"
  by (induction s) (simp_all add: read_str_esc del: read_str.simps(2), simp)

section \<open>Fuel\<close>

lemma skip_ws_length: "length (skip_ws s) \<le> length s"
  by (simp add: skip_ws_def length_dropWhile_le)

lemma skip_ws_ConsD: "skip_ws s = c # t \<Longrightarrow> length t < length s"
  using skip_ws_length [of s] by simp

lemma read_str_length: "read_str s = Some (x, r) \<Longrightarrow> length r < length s"
proof (induction s arbitrary: x r rule: read_str.induct)
  case (2 c cs)
  then show ?case
    by (fastforce split: if_splits list.splits option.splits)
qed simp

lemma drop_length_less: "0 < n \<Longrightarrow> s \<noteq> [] \<Longrightarrow> length (drop n s) < length s"
  by (cases s) auto

lemma int_part_length: "int_part s = Some (ip, r) \<Longrightarrow> length r < length s"
proof (cases s)
  case (Cons c cs)
  then show "int_part s = Some (ip, r) \<Longrightarrow> ?thesis"
    using length_dropWhile_le [of is_digit cs]
    by (auto simp: int_part.simps split: if_splits)
qed (simp add: int_part.simps)

lemma frac_part_length: "frac_part s = (fp, r) \<Longrightarrow> length r \<le> length s"
  using length_dropWhile_le [of is_digit "tl s"]
  by (cases s) (auto simp: frac_part.simps split: if_splits)

lemma exp_part_length: "exp_part s = (ex, r) \<Longrightarrow> length r \<le> length s"
proof (cases s)
  case (Cons c cs)
  have "length (snd (exp_sign cs)) \<le> length cs" by (cases cs) auto
  then show "exp_part s = (ex, r) \<Longrightarrow> ?thesis"
    using Cons length_dropWhile_le [of is_digit "snd (exp_sign cs)"]
    by (auto simp: exp_part.simps Let_def split: prod.splits if_splits)
qed (simp add: exp_part.simps)

lemma scan_unsigned_length: "scan_unsigned neg s = Some (v, r) \<Longrightarrow> length r < length s"
  by (auto simp: scan_unsigned_def Let_def split: option.splits prod.splits if_splits
      dest!: int_part_length frac_part_length exp_part_length)

lemma scan_number_length: "scan_number s = Some (v, r) \<Longrightarrow> length r < length s"
  by (auto simp: scan_number_def split: list.splits if_splits dest: scan_unsigned_length)

lemma parse_length:
  "pv n s = Some (j, r) \<Longrightarrow> length r < length s"
  "pe n s = Some (js, r) \<Longrightarrow> length r < length s"
  "pm n s = Some (ms, r) \<Longrightarrow> length r < length s"
proof (induction n s and n s and n s arbitrary: j r and js r and ms r rule: pv_pe_pm.induct)
  case (2 n s)
  show ?case
  proof (cases s)
    case Nil
    with "2.prems" show ?thesis by simp
  next
    case (Cons c t)
    consider (str) "c = CHR 0x22" | (obj) "c = CHR ''{''" | (lst) "c = CHR ''[''"
      | (other) "c \<noteq> CHR 0x22" "c \<noteq> CHR ''{''" "c \<noteq> CHR ''[''" by blast
    then show ?thesis
    proof cases
      case str
      with "2.prems" Cons show ?thesis by (auto dest: read_str_length)
    next
      case obj
      obtain d u where du: "skip_ws t = d # u"
        using "2.prems" Cons obj by (auto split: list.splits)
      have len: "length (d # u) \<le> length t" using skip_ws_length [of t] du by simp
      show ?thesis
      proof (cases "d = CHR ''}''")
        case True
        with "2.prems" Cons obj du len show ?thesis by simp
      next
        case False
        with "2.prems" Cons obj du obtain ms where "pm n (d # u) = Some (ms, r)" by auto
        with "2.IH"(1) [OF Cons _ obj du False] obj have "length r < length (d # u)" by simp
        with len Cons show ?thesis by simp
      qed
    next
      case lst
      obtain d u where du: "skip_ws t = d # u"
        using "2.prems" Cons lst by (auto split: list.splits)
      have len: "length (d # u) \<le> length t" using skip_ws_length [of t] du by simp
      show ?thesis
      proof (cases "d = CHR '']''")
        case True
        with "2.prems" Cons lst du len show ?thesis by simp
      next
        case False
        with "2.prems" Cons lst du obtain vs where "pe n (d # u) = Some (vs, r)" by auto
        with "2.IH"(2) [OF Cons _ _ lst du False] lst have "length r < length (d # u)" by simp
        with len Cons show ?thesis by simp
      qed
    next
      case other
      have "s \<noteq> []" using Cons by simp
      then have "length (drop 4 s) < length s" "length (drop 5 s) < length s"
        by (simp_all add: drop_length_less)
      with "2.prems" Cons other show ?thesis
        by (auto simp del: drop_Suc_Cons split: if_splits option.splits pynum.splits
            dest!: scan_number_length)
    qed
  qed
next
  case (4 n s)
  from "4.prems" obtain v r0 where v: "pv n s = Some (v, r0)" by (auto split: option.splits)
  with "4.IH"(1) have l0: "length r0 < length s" by simp
  from "4.prems" v obtain d u where du: "skip_ws r0 = d # u" by (auto split: list.splits)
  with l0 skip_ws_ConsD have l1: "length u < length s" by fastforce
  show ?case
  proof (cases "d = CHR '']''")
    case True
    with "4.prems" v du l1 show ?thesis by simp
  next
    case False
    with "4.prems" v du obtain vs where c: "d = CHR '',''" "pe n (skip_ws u) = Some (vs, r)"
      by (auto split: if_splits)
    with "4.IH"(2) [OF v refl du False] have "length r < length (skip_ws u)" by simp
    with skip_ws_length [of u] l1 show ?thesis by linarith
  qed
next
  case (6 n s)
  from "6.prems" obtain t where s: "s = CHR 0x22 # t" by (auto split: list.splits if_splits)
  with "6.prems" obtain key r0 where k: "read_str t = Some (key, r0)" by (auto split: option.splits)
  with read_str_length s have l0: "length r0 < length s" by fastforce
  from "6.prems" s k obtain u where u: "skip_ws r0 = CHR '':'' # u" by (auto split: list.splits if_splits)
  with l0 skip_ws_ConsD have l1: "length u < length s" by fastforce
  from "6.prems" s k u obtain v r2 where v: "pv n (skip_ws u) = Some (v, r2)" by (auto split: option.splits)
  with "6.IH"(1) s k u have "length r2 < length (skip_ws u)" by simp
  with skip_ws_length [of u] l1 have l2: "length r2 < length s" by linarith
  from "6.prems" s k u v obtain d2 u2 where d2: "skip_ws r2 = d2 # u2" by (auto split: list.splits)
  with l2 skip_ws_ConsD have l3: "length u2 < length s" by fastforce
  show ?case
  proof (cases "d2 = CHR ''}''")
    case True
    with "6.prems" s k u v d2 l3 show ?thesis by simp
  next
    case False
    with "6.prems" s k u v d2 obtain ms2 where c: "d2 = CHR '',''" "pm n (skip_ws u2) = Some (ms2, r)"
      by (auto split: if_splits)
    with "6.IH"(2) s k u v d2 have "length r < length (skip_ws u2)" by simp
    with skip_ws_length [of u2] l3 show ?thesis by linarith
  qed
qed simp_all

lemma parse_fuel_step:
  assumes IH: "\<And>s' n m. length s' < length s \<Longrightarrow> 2 * length s' + 2 \<le> n \<Longrightarrow> 2 * length s' + 2 \<le> m \<Longrightarrow>
      pe n s' = pe m s' \<and> pm n s' = pm m s'"
    and n: "2 * length s + 1 \<le> n" and m: "2 * length s + 1 \<le> m"
  shows "pv n s = pv m s"
proof -
  obtain n' m' where nm: "n = Suc n'" "m = Suc m'" using n m by (cases n; cases m) auto
  show ?thesis
  proof (cases s)
    case Nil then show ?thesis by (simp add: nm)
  next
    case (Cons c t)
    show ?thesis
    proof (cases "skip_ws t")
      case Nil then show ?thesis by (simp add: nm Cons)
    next
      case sk: (Cons d u)
      have "length (d # u) < length s" using skip_ws_length [of t] sk Cons by simp
      moreover have "2 * length (d # u) + 2 \<le> n'" "2 * length (d # u) + 2 \<le> m'"
        using calculation n m nm by simp_all
      ultimately have "pe n' (d # u) = pe m' (d # u)" "pm n' (d # u) = pm m' (d # u)"
        using IH by blast+
      then show ?thesis by (simp add: nm Cons sk del: pe.simps pm.simps)
    qed
  qed
qed

lemma parse_fuel:
  "2 * length s + 1 \<le> n \<Longrightarrow> 2 * length s + 1 \<le> m \<Longrightarrow> pv n s = pv m s"
  "2 * length s + 2 \<le> n \<Longrightarrow> 2 * length s + 2 \<le> m \<Longrightarrow> pe n s = pe m s \<and> pm n s = pm m s"
proof (induction "length s" arbitrary: s n m rule: less_induct)
  case less
  {
    case 1
    then show ?case using parse_fuel_step less(2) by blast
  next
    case 2
    obtain n' m' where nm: "n = Suc n'" "m = Suc m'" using 2 by (cases n; cases m) auto
    have n': "2 * length s + 1 \<le> n'" "2 * length s + 1 \<le> m'" using 2 nm by auto
    have sub: "pv n' s' = pv m' s'" "pe n' s' = pe m' s'" "pm n' s' = pm m' s'"
      if "length s' < length s" for s'
      using that n' less(1) [of s'] less(2) [of s'] by simp_all
    have pvs: "pv n' s = pv m' s" using parse_fuel_step [of s n' m'] less(2) n' by blast
    have "pe n s = pe m s"
    proof (cases "pv m' s")
      case None then show ?thesis by (simp add: nm pvs)
    next
      case (Some vr)
      obtain v r where vr: "vr = (v, r)" by (cases vr)
      have r: "length r < length s" using parse_length(1) Some vr by blast
      show ?thesis
      proof (cases "skip_ws r")
        case Nil then show ?thesis by (simp add: nm pvs Some vr)
      next
        case (Cons d u)
        have "length (skip_ws u) < length s"
          using skip_ws_length [of u] skip_ws_ConsD [OF Cons] r by linarith
        then show ?thesis by (simp add: nm pvs Some vr Cons sub(2))
      qed
    qed
    moreover have "pm n s = pm m s"
    proof (cases s)
      case Nil then show ?thesis by (simp add: nm)
    next
      case s: (Cons c t)
      show ?thesis
      proof (cases "read_str t")
        case None then show ?thesis by (simp add: nm s)
      next
        case (Some kr)
        obtain k r where kr: "kr = (k, r)" by (cases kr)
        have r: "length r < length s" using read_str_length Some kr s by fastforce
        show ?thesis
        proof (cases "skip_ws r")
          case Nil then show ?thesis by (simp add: nm s Some kr)
        next
          case c: (Cons d u)
          have u: "length (skip_ws u) < length s"
            using skip_ws_length [of u] skip_ws_ConsD [OF c] r by linarith
          note e = nm s Some kr c sub(1) [OF u]
          show ?thesis
          proof (cases "pv m' (skip_ws u)")
            case None then show ?thesis by (simp add: nm s Some kr c sub(1) [OF u, unfolded s])
          next
            case v: (Some vr)
            obtain v r2 where vr: "vr = (v, r2)" by (cases vr)
            have r2: "length r2 < length s" using parse_length(1) v vr u by fastforce
            show ?thesis
            proof (cases "skip_ws r2")
              case Nil then show ?thesis by (simp add: nm s Some kr c sub(1) [OF u, unfolded s] v vr)
            next
              case c2: (Cons d2 u2)
              have "length (skip_ws u2) < length s"
                using skip_ws_length [of u2] skip_ws_ConsD [OF c2] r2 by linarith
              then show ?thesis
                by (simp add: nm s Some kr c sub(1) [OF u, unfolded s] v vr c2 sub(3))
            qed
          qed
        qed
      qed
    qed
    ultimately show ?case ..
  }
qed

lemma pv_fuel: "2 * length s + 1 \<le> n \<Longrightarrow> pv n s = pv (2 * length s + 1) s"
  by (rule parse_fuel(1)) auto

section \<open>Values round-trip\<close>

definition num_head :: "char \<Rightarrow> bool" where
  "num_head c = (c = CHR ''-'' \<or> is_digit c)"

lemma scan_number_head: "scan_number s = Some p \<Longrightarrow> \<exists>c t. s = c # t \<and> num_head c"
  by (auto simp: scan_number_def scan_unsigned_def num_head_def is_digit_def split: list.splits if_splits option.splits
      elim!: int_part.elims)

lemma num_head_not [simp]:
  "num_head c \<Longrightarrow> \<not> is_ws c"
  "\<not> num_head CHR ''\"''" "\<not> num_head CHR ''{''" "\<not> num_head CHR ''[''" "\<not> num_head CHR '']''"
  "\<not> num_head CHR ''}''" "\<not> num_head CHR ''n''" "\<not> num_head CHR ''t''" "\<not> num_head CHR ''f''"
  by (auto simp: num_head_def is_ws_def is_digit_def)

lemma pv_number:
  assumes "scan_number (s @ rest) = Some (v, rest)" and "s \<noteq> []"
  shows "pv (Suc n) (s @ rest) = Some (case v of NInt m \<Rightarrow> JInt m | NFloat x \<Rightarrow> JFloat x, rest)"
proof -
  obtain c t where ct: "s @ rest = c # t" "num_head c" using scan_number_head [OF assms(1)] by blast
  have ne: "c \<noteq> CHR 0x22" "c \<noteq> CHR ''{''" "c \<noteq> CHR ''[''" "c \<noteq> CHR ''n''" "c \<noteq> CHR ''t''" "c \<noteq> CHR ''f''"
    using ct(2) by (auto simp: num_head_def is_digit_def)
  then have "\<not> starts_with ''null'' (c # t)" "\<not> starts_with ''true'' (c # t)" "\<not> starts_with ''false'' (c # t)"
    by (auto simp: starts_with_iff)
  then show ?thesis using assms(1) ne ct(1) by (auto split: pynum.splits)
qed

lemma num_stop_plain [simp]:
  "num_stop []" "num_stop (CHR '','' # r)" "num_stop (CHR '']'' # r)" "num_stop (CHR ''}'' # r)"
  by (simp_all add: num_stop_def is_digit_def)

lemma dumps_head: "\<exists>c t. dumps i k j = c # t \<and> \<not> is_ws c \<and> c \<noteq> CHR '']'' \<and> c \<noteq> CHR ''}''"
proof -
  have num: "\<exists>c t. s = c # t \<and> \<not> is_ws c \<and> c \<noteq> CHR '']'' \<and> c \<noteq> CHR ''}''"
    if "scan_number s = Some p" for s p
    using scan_number_head [OF that] by (auto simp: num_head_def is_ws_def is_digit_def)
  show ?thesis
    by (cases j)
      (use num scan_show_int [of "[]"] scan_repr_float [of "[]"]
        in \<open>auto simp: quote_def is_ws_def\<close>)
qed

lemma skip_ws_head: "\<not> is_ws c \<Longrightarrow> skip_ws (c # t) = c # t"
  by (simp add: skip_ws_def)

lemma skip_ws_dumps: "\<forall>c \<in> set ws. is_ws c \<Longrightarrow> skip_ws (ws @ dumps i k j @ r) = dumps i k j @ r"
  using dumps_head [of i k j] by (auto simp: skip_ws_def dropWhile_append)

lemma skip_ws_quote: "\<forall>c \<in> set ws. is_ws c \<Longrightarrow> skip_ws (ws @ quote s @ r) = quote s @ r"
  by (simp add: skip_ws_def dropWhile_append quote_def is_ws_def)

fun fsz :: "json \<Rightarrow> nat" and fsz_items :: "json list \<Rightarrow> nat"
  and fsz_members :: "(string \<times> json) list \<Rightarrow> nat" where
  "fsz (JList vs) = Suc (fsz_items vs)"
| "fsz (JObj ms) = Suc (fsz_members ms)"
| "fsz j = 1"
| "fsz_items [] = 0"
| "fsz_items (v # vs) = Suc (fsz v + fsz_items vs)"
| "fsz_members [] = 0"
| "fsz_members ((k, v) # ms) = Suc (fsz v + fsz_members ms)"

lemma pv_scalar:
  assumes "Suc 0 \<le> n" and "num_stop r"
  shows "pv n (show_int m @ r) = Some (JInt m, r)" and "pv n (repr_float x @ r) = Some (JFloat x, r)"
proof -
  have "show_int m \<noteq> []" using scan_number_head [OF scan_show_int [of "[]" m]] by auto
  then show "pv n (show_int m @ r) = Some (JInt m, r)"
    using assms pv_number [OF scan_show_int [of r m]] by (cases n) auto
  have "repr_float x \<noteq> []" using scan_number_head [OF scan_repr_float [of "[]" x]] by auto
  then show "pv n (repr_float x @ r) = Some (JFloat x, r)"
    using assms pv_number [OF scan_repr_float [of r x]] by (cases n) auto
qed

lemma parse_dumps:
  assumes iw: "\<forall>c \<in> set iw. is_ws c" and kw: "\<forall>c \<in> set kw. is_ws c"
    and i: "i = CHR '','' # iw" and k: "k = CHR '':'' # kw"
  shows "fsz j \<le> n \<Longrightarrow> num_stop r \<Longrightarrow> pv n (dumps i k j @ r) = Some (j, r)"
    and "fsz_items vs \<le> n \<Longrightarrow> vs \<noteq> [] \<Longrightarrow> pe n (dumps_items i k vs @ CHR '']'' # r) = Some (vs, r)"
    and "fsz_members ms \<le> n \<Longrightarrow> ms \<noteq> [] \<Longrightarrow> pm n (dumps_members i k ms @ CHR ''}'' # r) = Some (ms, r)"
proof (induction j and vs and ms arbitrary: n r and n r and n r rule: fsz_fsz_items_fsz_members.induct)
  case (1 vs)
  then obtain n' where n: "n = Suc n'" "fsz_items vs \<le> n'" by (cases n) auto
  show ?case
  proof (cases vs)
    case Nil then show ?thesis by (simp add: n skip_ws_head is_ws_def)
  next
    case (Cons v vs')
    obtain c t where ct: "dumps i k v = c # t" "\<not> is_ws c" "c \<noteq> CHR '']''"
      using dumps_head [of i k v] by blast
    have sk: "skip_ws (dumps_items i k vs @ CHR '']'' # r) = dumps_items i k vs @ CHR '']'' # r"
      using Cons ct by (simp add: skip_ws_head)
    have hd: "dumps_items i k vs @ CHR '']'' # r = c # (t @ (if vs' = [] then [] else i @ dumps_items i k vs') @ CHR '']'' # r)"
      using Cons ct by simp
    have p: "pe n' (dumps_items i k vs @ CHR '']'' # r) = Some (vs, r)"
      using 1 n Cons by simp
    show ?thesis using sk hd p ct(3) by (simp add: n)
  qed
next
  case (2 ms)
  then obtain n' where n: "n = Suc n'" "fsz_members ms \<le> n'" by (cases n) auto
  show ?case
  proof (cases ms)
    case Nil then show ?thesis by (simp add: n skip_ws_head is_ws_def)
  next
    case (Cons m ms')
    obtain key v where m: "m = (key, v)" by (cases m)
    have hd: "\<exists>t. dumps_members i k ms @ CHR ''}'' # r = CHR 0x22 # t"
      using Cons m by (simp add: quote_def)
    then have sk: "skip_ws (dumps_members i k ms @ CHR ''}'' # r) = dumps_members i k ms @ CHR ''}'' # r"
      by (auto simp: skip_ws_head is_ws_def)
    have p: "pm n' (dumps_members i k ms @ CHR ''}'' # r) = Some (ms, r)"
      using 2 n Cons by simp
    show ?thesis using sk hd p by (auto simp: n)
  qed
next
  case "3_1"
  then show ?case by (cases n) (auto simp: starts_with_def)
next
  case "3_2"
  then show ?case by (cases n) (auto simp: starts_with_def)
next
  case "3_3"
  then show ?case using pv_scalar by simp
next
  case "3_4"
  then show ?case using pv_scalar by simp
next
  case "3_5"
  then show ?case by (cases n) (auto simp: quote_def read_str_quote)
next
  case (5 v vs)
  then obtain n' where n: "n = Suc n'" "fsz v \<le> n'" "fsz_items vs \<le> n'" by (cases n) auto
  show ?case
  proof (cases "vs = []")
    case True
    with 5(1) [OF n(2), of "CHR '']'' # r"] show ?thesis by (simp add: n skip_ws_head is_ws_def)
  next
    case False
    obtain w ws where w: "vs = w # ws" using False by (cases vs) auto
    have "pv n' (dumps i k v @ i @ dumps_items i k vs @ CHR '']'' # r) = Some (v, i @ dumps_items i k vs @ CHR '']'' # r)"
      by (rule 5(1) [OF n(2)]) (simp add: i)
    moreover have "skip_ws (i @ dumps_items i k vs @ CHR '']'' # r) = i @ dumps_items i k vs @ CHR '']'' # r"
      by (simp add: i skip_ws_head is_ws_def)
    moreover have "skip_ws (iw @ dumps_items i k vs @ CHR '']'' # r) = dumps_items i k vs @ CHR '']'' # r"
      using skip_ws_dumps [OF iw] by (simp add: w)
    moreover have "pe n' (dumps_items i k vs @ CHR '']'' # r) = Some (vs, r)"
      using 5(2) [OF n(3) False] by simp
    ultimately show ?thesis using False by (simp add: n i)
  qed
next
  case (7 key v ms)
  then obtain n' where n: "n = Suc n'" "fsz v \<le> n'" "fsz_members ms \<le> n'" by (cases n) auto
  define tl where "tl = (if ms = [] then CHR ''}'' # r else i @ dumps_members i k ms @ CHR ''}'' # r)"
  have t: "dumps_members i k ((key, v) # ms) @ CHR ''}'' # r
      = CHR 0x22 # concat (map esc_char key) @ CHR 0x22 # k @ dumps i k v @ tl"
    by (simp add: tl_def quote_def)
  have v: "pv n' (dumps i k v @ tl) = Some (v, tl)"
    by (rule 7(1) [OF n(2)]) (simp add: i tl_def)
  have sk: "skip_ws (k @ dumps i k v @ tl) = k @ dumps i k v @ tl" "skip_ws (kw @ dumps i k v @ tl) = dumps i k v @ tl"
    "skip_ws tl = tl"
    using skip_ws_dumps [OF kw] by (auto simp: k skip_ws_head is_ws_def tl_def i)
  show ?case
  proof (cases "ms = []")
    case True
    then show ?thesis unfolding t using v sk
      by (simp add: n read_str_quote k tl_def)
  next
    case False
    obtain k2 v2 ms' where w: "ms = (k2, v2) # ms'" using False by (cases ms) auto
    have "skip_ws (iw @ dumps_members i k ms @ CHR ''}'' # r) = dumps_members i k ms @ CHR ''}'' # r"
      using skip_ws_quote [OF iw] by (simp add: w)
    moreover have "pm n' (dumps_members i k ms @ CHR ''}'' # r) = Some (ms, r)"
      using 7(2) [OF n(3) False] by simp
    ultimately show ?thesis unfolding t using v sk False
      by (simp add: n read_str_quote k tl_def) (simp add: i)
  qed
qed simp_all

definition wf_sep :: "string \<Rightarrow> string \<Rightarrow> bool" where
  "wf_sep i k = (i \<noteq> [] \<and> hd i = CHR '','' \<and> list_all is_ws (tl i)
     \<and> k \<noteq> [] \<and> hd k = CHR '':'' \<and> list_all is_ws (tl k))"

theorem raw_loads_dumps:
  assumes "wf_sep i k"
  shows "raw_loads (dumps i k j) = Some j"
proof -
  obtain iw kw where ik: "i = CHR '','' # iw" "k = CHR '':'' # kw"
      "\<forall>c \<in> set iw. is_ws c" "\<forall>c \<in> set kw. is_ws c"
    using assms by (cases i; cases k) (auto simp: wf_sep_def list_all_iff)
  let ?s = "dumps i k j" and ?n = "2 * length (dumps i k j) + 1 + fsz j"
  have p: "pv ?n ?s = Some (j, [])"
    using parse_dumps(1) [OF ik(3,4,1,2), of j ?n "[]"] by simp
  have "pv ?n ?s = pv (2 * length ?s + 1) ?s" by (rule pv_fuel) simp
  with p have e: "pv (2 * length ?s + 1) ?s = Some (j, [])" by (simp only:)
  have sk: "skip_ws ?s = ?s" using skip_ws_dumps [of "[]" i k j "[]"] by simp
  show ?thesis unfolding raw_loads_def sk e by (simp add: skip_ws_def)
qed

lemma dumps_inj: "wf_sep i k \<Longrightarrow> dumps i k j = dumps i k j' \<longleftrightarrow> j = j'"
  by (metis option.inject raw_loads_dumps)

fun wf_json :: "json \<Rightarrow> bool" and wf_items :: "json list \<Rightarrow> bool"
  and wf_members :: "(string \<times> json) list \<Rightarrow> bool" where
  "wf_json (JList vs) = wf_items vs"
| "wf_json (JObj ms) = (wf_dict ms \<and> wf_members ms)"
| "wf_json j = True"
| "wf_items [] = True"
| "wf_items (v # vs) = (wf_json v \<and> wf_items vs)"
| "wf_members [] = True"
| "wf_members ((key, v) # ms) = (wf_json v \<and> wf_members ms)"

lemma build_wf:
  "wf_json j \<Longrightarrow> build j = j"
  "wf_items vs \<Longrightarrow> build_items vs = vs"
  "wf_members ms \<Longrightarrow> wf_dict (d @ ms) \<Longrightarrow> build_members ms d = d @ ms"
proof (induction j and vs and ms arbitrary: and and d rule: wf_json_wf_items_wf_members.induct)
  case (7 key v ms)
  then have "\<not> dict_mem key d" by (auto simp: dict_mem_iff wf_dict_def)
  with 7 show ?case by (simp add: dict_set_new)
qed auto

theorem loads_dumps: "wf_sep i k \<Longrightarrow> wf_json j \<Longrightarrow> loads (dumps i k j) = Some j"
  by (simp add: loads_def raw_loads_dumps build_wf)

section \<open>Values as Python sees them\<close>

text \<open>
  Loaded values are dynamically typed. \<open>json_num\<close> reads a number (a bool counts as 0 or 1) as
  the exact rational that Python's mixed comparisons use; \<open>truthy\<close> is \<open>bool(v)\<close>; \<open>py_str\<close> is
  \<open>str(v)\<close>, \<open>py_repr\<close> is \<open>repr(v)\<close>.
\<close>

fun json_num :: "json \<Rightarrow> rat option" where
  "json_num (JInt n) = Some (of_int n)"
| "json_num (JFloat x) = Some (rat_of x)"
| "json_num (JBool b) = Some (if b then 1 else 0)"
| "json_num _ = None"

fun truthy :: "json \<Rightarrow> bool" where
  "truthy JNull = False"
| "truthy (JBool b) = b"
| "truthy (JInt n) = (n \<noteq> 0)"
| "truthy (JFloat x) = (x \<noteq> 0)"
| "truthy (JStr s) = (s \<noteq> [])"
| "truthy (JList vs) = (vs \<noteq> [])"
| "truthy (JObj ms) = (ms \<noteq> [])"

definition repr_str :: "string \<Rightarrow> string" where
  "repr_str s =
     (let q = (if CHR 0x27 \<in> set s \<and> CHR 0x22 \<notin> set s then CHR 0x22 else CHR 0x27);
          esc = (\<lambda>c. let n = of_char c :: int
             in if c = q \<or> n = 92 then [CHR 0x5C, c]
                else if n = 10 then [CHR 0x5C, CHR ''n'']
                else if n = 13 then [CHR 0x5C, CHR ''r'']
                else if n = 9 then [CHR 0x5C, CHR ''t'']
                else if n < 32 \<or> (127 \<le> n \<and> n \<le> 160) \<or> n = 173
                then [CHR 0x5C, CHR ''x'', hex_digit (n div 16), hex_digit (n mod 16)]
                else [c])
      in q # concat (map esc s) @ [q])"

fun py_repr :: "json \<Rightarrow> string" and py_repr_items :: "json list \<Rightarrow> string"
  and py_repr_members :: "(string \<times> json) list \<Rightarrow> string" where
  "py_repr JNull = ''None''"
| "py_repr (JBool b) = (if b then ''True'' else ''False'')"
| "py_repr (JInt n) = show_int n"
| "py_repr (JFloat x) = repr_float x"
| "py_repr (JStr s) = repr_str s"
| "py_repr (JList vs) = ''['' @ py_repr_items vs @ '']''"
| "py_repr (JObj ms) = ''{'' @ py_repr_members ms @ ''}''"
| "py_repr_items [] = []"
| "py_repr_items (v # vs) = py_repr v @ (if vs = [] then [] else '', '' @ py_repr_items vs)"
| "py_repr_members [] = []"
| "py_repr_members ((k, v) # ms) =
     repr_str k @ '': '' @ py_repr v @ (if ms = [] then [] else '', '' @ py_repr_members ms)"

fun py_str :: "json \<Rightarrow> string" where
  "py_str (JStr s) = s"
| "py_str j = py_repr j"

text \<open>\<open>str.strip()\<close>, for code points below 256.\<close>

definition is_space :: "char \<Rightarrow> bool" where
  "is_space c =
     (let n = of_char c :: int in (9 \<le> n \<and> n \<le> 13) \<or> (28 \<le> n \<and> n \<le> 32) \<or> n = 133 \<or> n = 160)"

definition py_strip :: "string \<Rightarrow> string" where
  "py_strip s = rev (dropWhile is_space (rev (dropWhile is_space s)))"

lemma py_strip_id:
  assumes "s \<noteq> []" "\<not> is_space (hd s)" "\<not> is_space (last s)"
  shows "py_strip s = s"
proof -
  have "dropWhile is_space s = s" using assms by (cases s) auto
  moreover have "dropWhile is_space (rev s) = rev s" using assms by (cases s rule: rev_cases) auto
  ultimately show ?thesis by (simp add: py_strip_def)
qed

text \<open>What \<open>dumps\<close> writes is printable ASCII when the separators are, so it holds no line break.\<close>

definition plain_char :: "char \<Rightarrow> bool" where
  "plain_char c = (let n = of_char c :: int in 32 \<le> n \<and> n \<le> 126)"

lemma hex_digit_plain: "0 \<le> d \<Longrightarrow> d < 16 \<Longrightarrow> plain_char (hex_digit d)"
  by (simp add: plain_char_def hex_digit_def of_char_of Let_def)

lemma esc_char_plain: "list_all plain_char (esc_char c)"
proof -
  have "0 \<le> (of_char c :: int)" "(of_char c :: int) < 256" by (rule of_char_int_bounds)+
  then have "plain_char (hex_digit (of_char c div 16))" "plain_char (hex_digit (of_char c mod 16))"
    by (auto intro!: hex_digit_plain)
  then show ?thesis
    unfolding esc_char_def Let_def by (simp add: plain_char_def Let_def)
qed

lemma quote_plain: "list_all plain_char (quote s)"
  using esc_char_plain by (force simp: quote_def list_all_iff plain_char_def Let_def)

lemma digits_plain: "list_all is_digit ds \<Longrightarrow> list_all plain_char ds"
  by (auto simp: list_all_iff is_digit_def plain_char_def Let_def)

lemma show_int_plain: "list_all plain_char (show_int n)"
  by (auto simp: show_int_def show_dec_digits plain_char_def intro!: digits_plain)

lemma layout_plain: "list_all is_digit ds \<Longrightarrow> list_all plain_char (layout ds k)"
proof -
  assume d: "list_all is_digit ds"
  have z: "plain_char CHR ''0''" "plain_char CHR ''.''" "plain_char CHR ''e''" "plain_char CHR ''-''" "plain_char CHR ''+''"
    by (simp_all add: plain_char_def)
  have "list_all plain_char (take n ds)" "list_all plain_char (drop n ds)" for n
    using list_all_take_drop [OF d] digits_plain by blast+
  moreover have "list_all plain_char (replicate n CHR ''0'')" for n using z by (induction n) auto
  moreover have "0 \<le> m \<Longrightarrow> list_all plain_char (show_dec m)" for m
    by (simp add: digits_plain show_dec_digits)
  ultimately show ?thesis using z d by (simp add: layout_def Let_def digits_plain)
qed

lemma repr_float_plain: "list_all plain_char (repr_float x)"
proof -
  have "list_all plain_char (repr_pos r)" if r: "0 < r" "fl r = r" for r
  proof -
    obtain m k where mk: "shortest r = (m, k)" by fastforce
    obtain m' k' where mk': "strip0 m k = (m', k')" by fastforce
    have "0 < m'" using shortest_rounds [OF r mk] strip0_value [OF mk'] by auto
    then show ?thesis by (simp add: repr_pos_def mk mk' layout_plain show_dec_digits)
  qed
  moreover have "fl (rat_of x) = rat_of x" "fl (- rat_of x) = - rat_of x" by (simp_all add: fl_minus)
  ultimately show ?thesis
    by (cases "rat_of x" "0 :: rat" rule: linorder_cases) (simp_all add: repr_float_def plain_char_def)
qed

lemma dumps_plain:
  assumes "list_all plain_char i" and "list_all plain_char k"
  shows "list_all plain_char (dumps i k j)"
    and "list_all plain_char (dumps_items i k js)"
    and "list_all plain_char (dumps_members i k ms)"
  using assms
  by (induction i k j and i k js and i k ms rule: dumps_dumps_items_dumps_members.induct)
    (auto simp: show_int_plain repr_float_plain quote_plain, auto simp: plain_char_def)

lemma plain_not: "\<not> plain_char CHR 0x0A" "\<not> plain_char CHR 0x0D"
  by (simp_all add: plain_char_def)

lemma encode_plain: "list_all plain_char s \<Longrightarrow> py_encode s = s"
proof (rule py_encode_ascii)
  assume "list_all plain_char s"
  moreover have "of_char c < (128 :: nat)" if "plain_char c" for c
  proof -
    have "int (of_char c) = of_char c" by (simp only: of_nat_of_char)
    then show ?thesis using that by (simp add: plain_char_def Let_def)
  qed
  ultimately show "\<forall>c \<in> set s. of_char c < (128 :: nat)" by (auto simp: list_all_iff)
qed

section \<open>Indented writing\<close>

text \<open>\<open>json.dumps(v, indent=w)\<close>; \<open>n\<close> is the current indentation. Empty containers stay on one line.\<close>

definition newline_indent :: "nat \<Rightarrow> string" where
  "newline_indent n = CHR 0x0A # replicate n CHR '' ''"

fun dumps_indent :: "nat \<Rightarrow> nat \<Rightarrow> json \<Rightarrow> string"
  and dumps_indent_items :: "nat \<Rightarrow> nat \<Rightarrow> json list \<Rightarrow> string"
  and dumps_indent_members :: "nat \<Rightarrow> nat \<Rightarrow> (string \<times> json) list \<Rightarrow> string" where
  "dumps_indent w n (JList vs) =
     (if vs = [] then ''[]''
      else ''['' @ newline_indent (n + w) @ dumps_indent_items w (n + w) vs @ newline_indent n @ '']'')"
| "dumps_indent w n (JObj ms) =
     (if ms = [] then ''{}''
      else ''{'' @ newline_indent (n + w) @ dumps_indent_members w (n + w) ms @ newline_indent n @ ''}'')"
| "dumps_indent w n j = dumps '', '' '': '' j"
| "dumps_indent_items w n [] = []"
| "dumps_indent_items w n (v # vs) =
     dumps_indent w n v @ (if vs = [] then [] else '','' @ newline_indent n @ dumps_indent_items w n vs)"
| "dumps_indent_members w n [] = []"
| "dumps_indent_members w n ((key, v) # ms) =
     quote key @ '': '' @ dumps_indent w n v
     @ (if ms = [] then [] else '','' @ newline_indent n @ dumps_indent_members w n ms)"

end
