(* ===== verification/Utils.thy ===== *)
theory Utils
  imports Prelude
begin

text \<open>
  Input validation: \<open>src/core/security/utils.py\<close>.

  \<open>os.path.realpath\<close> and \<open>os.path.exists\<close> read the file system; they are the parameters \<open>real\<close>
  and \<open>ex\<close> of \<open>validate_path\<close>. What the code relies on is that a resolved path is canonical
  (\<open>canonical\<close>: absolute, its components neither empty nor \<open>.\<close> nor \<open>..\<close>) and that resolving it
  again changes nothing: the locale \<open>path_resolver\<close>, interpreted on \<open>lex_realpath\<close>, the resolution
  of a file system without symbolic links. The regular expressions are anchored with \<open>$\<close>, which in
  Python also matches before a final newline; the model keeps that.
\<close>

section \<open>Paths\<close>

definition path_join :: "string \<Rightarrow> string \<Rightarrow> string" where
  "path_join a b =
     (if starts_with ''/'' b then b
      else if a = [] \<or> last a = CHR ''/'' then a @ b
      else a @ ''/'' @ b)"

text \<open>\<open>os.path.dirname\<close>: up to the last slash, without trailing slashes unless it is all slashes.\<close>

definition py_dirname :: "string \<Rightarrow> string" where
  "py_dirname p =
     (let head = rev (dropWhile (\<lambda>c. c \<noteq> CHR ''/'') (rev p))
      in if list_all (\<lambda>c. c = CHR ''/'') head then head
         else rev (dropWhile (\<lambda>c. c = CHR ''/'') (rev head)))"

definition has_dotdot :: "string \<Rightarrow> bool" where
  "has_dotdot p = (''..'' \<in> set (split_on CHR ''/'' p))"

definition validate_path ::
    "(string \<Rightarrow> string) \<Rightarrow> (string \<Rightarrow> bool) \<Rightarrow> string \<Rightarrow> string \<Rightarrow> bool \<Rightarrow> string outcome" where
  "validate_path real ex base_dir target_path allow_create =
     (if base_dir = [] \<or> target_path = [] then Raise ValueError
      else if has_dotdot target_path then Raise ValueError
      else let real_base = real base_dir;
               real_target = real (path_join base_dir target_path)
           in if \<not> starts_with (real_base @ ''/'') real_target \<and> real_target \<noteq> real_base
              then Raise ValueError
              else if \<not> allow_create \<and> \<not> ex real_target then Raise ValueError
              else Ret real_target)"

subsection \<open>Canonical paths\<close>

definition proper_comp :: "string \<Rightarrow> bool" where
  "proper_comp w = (w \<noteq> [] \<and> w \<noteq> ''.'' \<and> w \<noteq> ''..'' \<and> CHR ''/'' \<notin> set w)"

definition render :: "string list \<Rightarrow> string" where
  "render ws = (if ws = [] then ''/'' else concat (map (\<lambda>w. CHR ''/'' # w) ws))"

definition canonical :: "string \<Rightarrow> bool" where
  "canonical p = (\<exists>ws. list_all proper_comp ws \<and> p = render ws)"

text \<open>Resolution without symbolic links: \<open>.\<close> and empty components vanish, \<open>..\<close> drops one.\<close>

fun norm_step :: "string list \<Rightarrow> string list \<Rightarrow> string list" where
  "norm_step acc [] = acc"
| "norm_step acc (w # ws) =
     (if w = [] \<or> w = ''.'' then norm_step acc ws
      else if w = ''..'' then norm_step (butlast acc) ws
      else norm_step (acc @ [w]) ws)"

definition norm_comps :: "string \<Rightarrow> string list" where
  "norm_comps p = norm_step [] (split_on CHR ''/'' p)"

definition lex_realpath :: "string \<Rightarrow> string \<Rightarrow> string" where
  "lex_realpath cwd p = render (norm_comps (path_join cwd p))"

lemma proper_no_slash: "proper_comp w \<Longrightarrow> CHR ''/'' \<notin> set w"
  by (simp add: proper_comp_def)

lemma norm_step_append: "norm_step acc (us @ vs) = norm_step (norm_step acc us) vs"
  by (induction us arbitrary: acc) auto

lemma norm_step_proper:
  "list_all proper_comp acc \<Longrightarrow> \<forall>w \<in> set ws. CHR ''/'' \<notin> set w \<Longrightarrow> list_all proper_comp (norm_step acc ws)"
proof (induction ws arbitrary: acc)
  case (Cons w ws)
  have "list_all proper_comp (butlast acc)"
    using Cons.prems(1) by (auto simp: list_all_iff dest: in_set_butlastD)
  with Cons show ?case by (auto simp: proper_comp_def [of w])
qed simp

lemma norm_step_id: "list_all proper_comp ws \<Longrightarrow> norm_step acc ws = acc @ ws"
  by (induction ws arbitrary: acc) (auto simp: proper_comp_def)

lemma norm_comps_proper: "list_all proper_comp (norm_comps p)"
  unfolding norm_comps_def using split_on_no_sep by (intro norm_step_proper) fastforce+

lemma split_render:
  "list_all proper_comp ws \<Longrightarrow> ws \<noteq> [] \<Longrightarrow> split_on CHR ''/'' (render ws) = [] # ws"
proof -
  assume "list_all proper_comp ws"
  then have "split_on CHR ''/'' (concat (map (\<lambda>w. CHR ''/'' # w) ws) ) = [] # ws"
  proof (induction ws)
    case (Cons w ws)
    then have w: "CHR ''/'' \<notin> set w" by (simp add: proper_comp_def)
    show ?case
    proof (cases ws)
      case Nil
      with w show ?thesis by (simp add: split_on_plain)
    next
      case (Cons v vs)
      have "split_on CHR ''/'' (w @ CHR ''/'' # v @ concat (map (\<lambda>w. CHR ''/'' # w) vs))
          = [w] @ split_on CHR ''/'' (v @ concat (map (\<lambda>w. CHR ''/'' # w) vs))"
        using w by (simp only: split_on_append_sep) (simp add: split_on_plain)
      with Cons.IH Cons.prems Cons show ?thesis by (auto split: list.splits)
    qed
  qed simp
  moreover assume "ws \<noteq> []"
  ultimately show ?thesis by (simp add: render_def)
qed

lemma norm_comps_render: "list_all proper_comp ws \<Longrightarrow> norm_comps (render ws) = ws"
  by (cases "ws = []")
    (simp_all add: norm_comps_def split_render norm_step_id, simp add: render_def)

lemma render_slash: "\<exists>t. render ws = CHR ''/'' # t"
  by (cases ws) (auto simp: render_def)

lemma path_join_render [simp]: "path_join a (render ws) = render ws"
  using render_slash [of ws] by (auto simp: path_join_def starts_with_def)

lemma canonical_lex: "canonical (lex_realpath cwd p)"
  unfolding canonical_def lex_realpath_def using norm_comps_proper by blast

lemma canonical_no_dotdot:
  assumes "canonical p" shows "\<not> has_dotdot p"
proof -
  obtain ws where ws: "list_all proper_comp ws" "p = render ws" using assms by (auto simp: canonical_def)
  show ?thesis
  proof (cases "ws = []")
    case True
    then show ?thesis by (simp add: ws has_dotdot_def render_def)
  next
    case False
    then show ?thesis
      using ws by (auto simp: has_dotdot_def split_render list_all_iff proper_comp_def)
  qed
qed

lemma canonical_nonempty: "canonical p \<Longrightarrow> p \<noteq> []"
  by (metis canonical_def list.discI render_slash)

lemma canonical_join: "canonical p \<Longrightarrow> path_join a p = p"
  by (auto simp: canonical_def)

text \<open>A canonical path below another one extends its list of components.\<close>

lemma render_prefix_comps:
  assumes "list_all proper_comp us" and "list_all proper_comp vs"
    and "starts_with (render us @ ''/'') (render vs)"
  shows "\<exists>ds. vs = us @ ds"
  using assms
proof (induction us arbitrary: vs)
  case (Cons u us)
  let ?C = "\<lambda>ws. concat (map (\<lambda>w. CHR ''/'' # w) ws)"
  obtain t where t: "render vs = ?C (u # us) @ CHR ''/'' # t"
    using Cons.prems(3) by (auto simp: starts_with_iff render_def)
  then obtain v vs' where v: "vs = v # vs'"
    using Cons.prems(1) by (cases vs) (auto simp: render_def proper_comp_def)
  have eq: "v @ ?C vs' = u @ ?C us @ CHR ''/'' # t" using t v by (simp add: render_def)
  have nu: "CHR ''/'' \<notin> set u" "CHR ''/'' \<notin> set v" using Cons.prems v by (auto simp: proper_comp_def)
  have "takeWhile (\<lambda>c. c \<noteq> CHR ''/'') (v @ ?C vs') = v"
    using nu by (cases vs') (auto simp: takeWhile_append)
  moreover have "takeWhile (\<lambda>c. c \<noteq> CHR ''/'') (u @ ?C us @ CHR ''/'' # t) = u"
    using nu by (cases us) (auto simp: takeWhile_append)
  ultimately have uv: "u = v" using eq by simp
  then have rest: "?C vs' = ?C us @ CHR ''/'' # t" using eq by simp
  show ?case
  proof (cases us)
    case Nil
    then show ?thesis using v uv by simp
  next
    case (Cons a as)
    have "vs' \<noteq> []" using rest by auto
    then have "starts_with (render us @ ''/'') (render vs')"
      using rest Cons by (auto simp: render_def starts_with_iff)
    with Cons.IH [of vs'] Cons.prems v obtain ds where "vs' = us @ ds" by auto
    then show ?thesis using v uv by simp
  qed
qed simp

subsection \<open>The interface of path resolution\<close>

locale path_resolver =
  fixes real :: "string \<Rightarrow> string"
  assumes real_canonical: "canonical (real p)"
    and real_idem: "real (real p) = real p"
begin

lemma contained:
  assumes "validate_path real ex base t allow = Ret r"
  shows "\<exists>us ds. list_all proper_comp (us @ ds) \<and> real base = render us \<and> r = render (us @ ds)"
proof -
  have r: "r = real (path_join base t)" "starts_with (real base @ ''/'') r \<or> r = real base"
    using assms by (auto simp: validate_path_def Let_def split: if_splits)
  obtain us where us: "list_all proper_comp us" "real base = render us"
    using real_canonical by (auto simp: canonical_def)
  obtain vs where vs: "list_all proper_comp vs" "r = render vs"
    using real_canonical r(1) by (auto simp: canonical_def)
  from r(2) show ?thesis
  proof
    assume "starts_with (real base @ ''/'') r"
    with render_prefix_comps [OF us(1) vs(1)] us vs obtain ds where "vs = us @ ds" by auto
    with us vs show ?thesis by blast
  next
    assume "r = real base"
    with us have "list_all proper_comp (us @ []) \<and> real base = render us \<and> r = render (us @ [])" by simp
    then show ?thesis by blast
  qed
qed

text \<open>An accepted path is a fixed point: validating it again, as an absolute path, returns it.\<close>

lemma revalidate:
  assumes "validate_path real ex base t allow = Ret r"
  shows "validate_path real ex base r allow = Ret r"
proof -
  have r: "r = real (path_join base t)" using assms by (auto simp: validate_path_def Let_def split: if_splits)
  then have "canonical r" "real r = r" by (simp_all add: real_canonical real_idem)
  with assms r show ?thesis
    using canonical_no_dotdot [of r] canonical_nonempty [of r] canonical_join [of r base]
    by (auto simp: validate_path_def Let_def split: if_splits)
qed

end

interpretation lex: path_resolver "lex_realpath cwd" for cwd
proof
  show "canonical (lex_realpath cwd p)" for p by (rule canonical_lex)
  show "lex_realpath cwd (lex_realpath cwd p) = lex_realpath cwd p" for p
    by (simp add: lex_realpath_def norm_comps_render norm_comps_proper)
qed

subsection \<open>Completeness without symbolic links\<close>

lemma norm_step_no_dotdot: "''..'' \<notin> set ws \<Longrightarrow> \<exists>ds. norm_step acc ws = acc @ ds"
proof (induction ws arbitrary: acc)
  case (Cons w ws)
  show ?case
  proof (cases "w = [] \<or> w = ''.''")
    case True
    with Cons show ?thesis by auto
  next
    case False
    obtain ds where "norm_step (acc @ [w]) ws = (acc @ [w]) @ ds" using Cons by fastforce
    with False Cons.prems show ?thesis by auto
  qed
qed simp

lemma render_below:
  "us \<noteq> [] \<Longrightarrow> ds \<noteq> [] \<Longrightarrow> starts_with (render us @ ''/'') (render (us @ ds))"
  by (cases ds) (auto simp: render_def starts_with_iff)

lemma norm_comps_join:
  assumes "\<not> starts_with ''/'' t"
  shows "norm_comps (path_join b t) = norm_step (norm_comps b) (split_on CHR ''/'' t)"
proof (cases "b = []")
  case True
  then show ?thesis using assms by (simp add: path_join_def norm_comps_def)
next
  case False
  show ?thesis
  proof (cases "last b = CHR ''/''")
    case True
    define a where "a = butlast b"
    have b: "b = a @ [CHR ''/'']" using False True by (metis a_def append_butlast_last_id)
    have "split_on CHR ''/'' b = split_on CHR ''/'' a @ [[]]"
      using split_on_append_sep [of _ a "[]"] b by simp
    moreover have "path_join b t = a @ CHR ''/'' # t" using assms b by (simp add: path_join_def)
    ultimately show ?thesis
      by (simp add: norm_comps_def split_on_append_sep norm_step_append)
  next
    case nl: False
    have "path_join b t = b @ CHR ''/'' # t" using assms False nl by (simp add: path_join_def)
    then show ?thesis by (simp add: norm_comps_def split_on_append_sep norm_step_append)
  qed
qed

lemma validate_relative:
  assumes abs: "starts_with ''/'' base" and nr: "norm_comps base \<noteq> []"
    and t: "t \<noteq> []" "\<not> starts_with ''/'' t" "\<not> has_dotdot t"
  shows "validate_path (lex_realpath cwd) ex base t True =
    Ret (render (norm_step (norm_comps base) (split_on CHR ''/'' t)))"
proof -
  have b: "base \<noteq> []" using abs by (auto simp: starts_with_def)
  have ab: "path_join cwd base = base" using abs by (simp add: path_join_def)
  have "starts_with ''/'' (path_join base t)"
    using abs t(2) b by (auto simp: path_join_def starts_with_iff)
  then have aj: "path_join cwd (path_join base t) = path_join base t" by (simp add: path_join_def)
  obtain ds where ds: "norm_step (norm_comps base) (split_on CHR ''/'' t) = norm_comps base @ ds"
    using norm_step_no_dotdot t(3) by (fastforce simp: has_dotdot_def)
  have "starts_with (render (norm_comps base) @ ''/'') (render (norm_comps base @ ds))
      \<or> render (norm_comps base @ ds) = render (norm_comps base)"
    using render_below [OF nr, of ds] by (cases "ds = []") auto
  then show ?thesis
    using b t(1,3) by (auto simp: validate_path_def Let_def lex_realpath_def ab aj norm_comps_join [OF t(2)] ds)
qed

section \<open>Identifiers and environment variables\<close>

definition is_alnum :: "char \<Rightarrow> bool" where
  "is_alnum c =
     (let n = of_char c :: nat in (48 \<le> n \<and> n \<le> 57) \<or> (65 \<le> n \<and> n \<le> 90) \<or> (97 \<le> n \<and> n \<le> 122))"

definition ident_char :: "char \<Rightarrow> bool" where
  "ident_char c = (is_alnum c \<or> c = CHR ''_'' \<or> c = CHR ''-'')"

text \<open>\<open>re.match("^...$", s)\<close>: \<open>$\<close> matches at the end and before a newline that ends the string.\<close>

definition dollar_match :: "(string \<Rightarrow> bool) \<Rightarrow> string \<Rightarrow> bool" where
  "dollar_match P s = (P s \<or> (s \<noteq> [] \<and> last s = CHR 0x0A \<and> P (butlast s)))"

definition validate_identifier :: "string \<Rightarrow> string outcome" where
  "validate_identifier s =
     (if s = [] then Raise ValueError
      else if \<not> dollar_match (\<lambda>w. w \<noteq> [] \<and> list_all ident_char w) s then Raise ValueError
      else if 256 < length s then Raise ValueError
      else Ret s)"

definition env_head :: "char \<Rightarrow> bool" where
  "env_head c = (let n = of_char c :: nat in 65 \<le> n \<and> n \<le> 90)"

definition env_char :: "char \<Rightarrow> bool" where
  "env_char c = (env_head c \<or> (let n = of_char c :: nat in 48 \<le> n \<and> n \<le> 57) \<or> c = CHR ''_'')"

definition dangerous_env :: "string list" where
  "dangerous_env =
     [''LD_PRELOAD'', ''LD_LIBRARY_PATH'', ''PATH'', ''PYTHONPATH'',
      ''PYTHONSTARTUP'', ''PYTHONHOME'', ''PYTHONINSPECT'',
      ''IFS'', ''SHELL'', ''BASH_ENV'', ''ENV'',
      ''DYLD_INSERT_LIBRARIES'', ''DYLD_LIBRARY_PATH'']"

definition sanitize_env_var_name :: "string \<Rightarrow> string outcome" where
  "sanitize_env_var_name name =
     (if \<not> dollar_match (\<lambda>w. w \<noteq> [] \<and> env_head (hd w) \<and> list_all env_char (tl w)) name
      then Raise ValueError
      else if name \<in> set dangerous_env then Raise ValueError
      else Ret name)"

definition sanitize_env_var_value :: "string \<Rightarrow> string outcome" where
  "sanitize_env_var_value v =
     (if CHR 0x0A \<in> set v \<or> CHR 0x00 \<in> set v then Raise ValueError else Ret v)"

text \<open>An environment entry \<open>NAME=value\<close> that passed both checks splits back at its first \<open>=\<close>.\<close>

lemma env_name_no_eq:
  "sanitize_env_var_name n = Ret r \<Longrightarrow> r = n \<and> CHR ''='' \<notin> set n \<and> CHR 0x00 \<notin> set n \<and> n \<notin> set dangerous_env"
proof -
  assume a: "sanitize_env_var_name n = Ret r"
  have c: "\<not> env_char CHR ''=''" "\<not> env_head CHR ''=''" "\<not> env_char CHR 0x00" "\<not> env_head CHR 0x00"
    by (simp_all add: env_char_def env_head_def)
  have w: "CHR ''='' \<notin> set w \<and> CHR 0x00 \<notin> set w"
    if "w \<noteq> []" "env_head (hd w)" "list_all env_char (tl w)" for w
    using that c by (cases w) (auto simp: list_all_iff)
  have d: "dollar_match (\<lambda>w. w \<noteq> [] \<and> env_head (hd w) \<and> list_all env_char (tl w)) n"
      "r = n" "n \<notin> set dangerous_env"
    using a by (auto simp: sanitize_env_var_name_def split: if_splits)
  from d(1) have "CHR ''='' \<notin> set n \<and> CHR 0x00 \<notin> set n"
    unfolding dollar_match_def
  proof
    assume "n \<noteq> [] \<and> env_head (hd n) \<and> list_all env_char (tl n)"
    then show ?thesis using w by blast
  next
    assume b: "n \<noteq> [] \<and> last n = CHR 0x0A \<and>
      (butlast n \<noteq> [] \<and> env_head (hd (butlast n)) \<and> list_all env_char (tl (butlast n)))"
    then have "CHR ''='' \<notin> set (butlast n) \<and> CHR 0x00 \<notin> set (butlast n)" using w by blast
    moreover have "set n = insert (last n) (set (butlast n))"
      using b by (metis append_butlast_last_id list.simps(15) rotate1.simps(2) set_rotate1)
    ultimately show ?thesis using b by auto
  qed
  with d show ?thesis by simp
qed

lemma norm_step_filter:
  "''..'' \<notin> set ws \<Longrightarrow> norm_step acc ws = acc @ filter (\<lambda>w. w \<noteq> [] \<and> w \<noteq> ''.'') ws"
  by (induction ws arbitrary: acc) auto

lemma dollar_match_charset:
  "dollar_match (\<lambda>w. w \<noteq> [] \<and> list_all P w) s \<longleftrightarrow>
     (\<exists>w. w \<noteq> [] \<and> list_all P w \<and> (s = w \<or> s = w @ [CHR 0x0A]))"
  unfolding dollar_match_def by (auto, metis append_butlast_last_id)

section \<open>Properties\<close>

text \<open>
  C26: a path that \<open>validate_path\<close> accepts lies inside the base directory in terms of path
  components, not only as a string prefix (so \<open>/data-evil\<close> is not below \<open>/data\<close>): whatever
  resolver returns canonical paths, the result is the resolved base extended by proper
  components, and it stays accepted when validated again.
\<close>

theorem validate_path_contained:
  assumes "\<And>p. canonical (real p)" and "\<And>p. real (real p) = real p"
    and "validate_path real ex base t allow = Ret r"
  shows "(\<exists>us ds. list_all proper_comp (us @ ds) \<and> real base = render us \<and> r = render (us @ ds))
    \<and> validate_path real ex base r allow = Ret r"
  using path_resolver.contained [OF path_resolver.intro [OF assms(1,2)] assms(3)]
    path_resolver.revalidate [OF path_resolver.intro [OF assms(1,2)] assms(3)]
  by simp

theorem validate_path_contained_witness:
  "validate_path (lex_realpath ''/'') (\<lambda>_. False) ''/data'' ''a/./b'' True = Ret ''/data/a/b''
   \<and> validate_path (lex_realpath ''/'') (\<lambda>_. False) ''/data'' ''/data/a/b'' True = Ret ''/data/a/b''
   \<and> validate_path (lex_realpath ''/'') (\<lambda>_. False) ''/data'' ''/data-evil'' True = Raise ValueError"
proof -
  have "validate_path (lex_realpath ''/'') (\<lambda>_. False) ''/data'' ''a/./b'' True = Ret ''/data/a/b''"
    by code_simp
  moreover from this have "validate_path (lex_realpath ''/'') (\<lambda>_. False) ''/data'' ''/data/a/b'' True = Ret ''/data/a/b''"
    by (rule validate_path_contained [OF lex.real_canonical lex.real_idem, THEN conjunct2])
  moreover have "validate_path (lex_realpath ''/'') (\<lambda>_. False) ''/data'' ''/data-evil'' True = Raise ValueError"
    by code_simp
  ultimately show ?thesis by simp
qed

text \<open>
  When no symbolic link is involved, every relative path without \<open>..\<close> is accepted for
  creation below an absolute base other than the root, and its components are appended to those
  of the base; below the root directory the test \<open>startswith(base + "/")\<close> compares with \<open>//\<close>, so
  everything but the root itself is refused.
\<close>

theorem validate_path_relative:
  assumes "starts_with ''/'' base" and "t \<noteq> []" "\<not> starts_with ''/'' t" "\<not> has_dotdot t"
  shows "validate_path (lex_realpath cwd) ex base t True =
    (let us = norm_comps base; ds = filter (\<lambda>w. w \<noteq> [] \<and> w \<noteq> ''.'') (split_on CHR ''/'' t)
     in if us = [] \<and> ds \<noteq> [] then Raise ValueError else Ret (render (us @ ds)))"
proof -
  have ns: "norm_step (norm_comps base) (split_on CHR ''/'' t)
      = norm_comps base @ filter (\<lambda>w. w \<noteq> [] \<and> w \<noteq> ''.'') (split_on CHR ''/'' t)"
    using assms(4) by (simp add: norm_step_filter has_dotdot_def)
  show ?thesis
  proof (cases "norm_comps base = []")
    case False
    then show ?thesis using validate_relative [OF assms(1) False assms(2-4)] by (simp add: ns Let_def)
  next
    case root: True
    define ds where "ds = filter (\<lambda>w. w \<noteq> [] \<and> w \<noteq> ''.'') (split_on CHR ''/'' t)"
    have b: "base \<noteq> []" "path_join cwd base = base"
      using assms(1) by (auto simp: starts_with_def path_join_def)
    have "starts_with ''/'' (path_join base t)"
      using assms(1,3) b by (auto simp: path_join_def starts_with_iff)
    then have pj: "path_join cwd (path_join base t) = path_join base t" by (simp add: path_join_def)
    have "norm_comps (path_join base t) = ds"
      by (simp add: norm_comps_join [OF assms(3)] ns [unfolded root] root ds_def)
    with pj have rt: "lex_realpath cwd (path_join base t) = render ds" by (simp add: lex_realpath_def)
    have rb: "lex_realpath cwd base = ''/''" by (simp add: lex_realpath_def b root render_def)
    have below: "\<not> starts_with ''//'' (render ds)"
    proof (cases ds)
      case (Cons d ds')
      then have "d \<in> set ds" by simp
      then have "d \<noteq> []" "CHR ''/'' \<notin> set d"
        using split_on_no_sep [of d "CHR ''/''" t] by (auto simp: ds_def)
      with Cons show ?thesis by (cases d) (auto simp: render_def starts_with_def)
    qed (simp add: render_def starts_with_def)
    have eq: "render ds = ''/'' \<longleftrightarrow> ds = []"
    proof (cases ds)
      case (Cons d ds')
      then have "d \<in> set ds" by simp
      then have "d \<noteq> []" by (auto simp: ds_def)
      with Cons show ?thesis by (cases d) (auto simp: render_def)
    qed (simp add: render_def)
    have "validate_path (lex_realpath cwd) ex base t True
        = (if render ds = ''/'' then Ret (render ds) else Raise ValueError)"
      using assms(2,4) b(1) below by (simp add: validate_path_def Let_def rt rb)
    then show ?thesis by (simp add: root ds_def [symmetric] eq Let_def)
  qed
qed

theorem validate_path_relative_witness:
  "validate_path (lex_realpath ''/w'') (\<lambda>_. False) ''/data'' ''x//y.log'' True = Ret ''/data/x/y.log''
   \<and> validate_path (lex_realpath ''/w'') (\<lambda>_. False) ''/'' ''etc'' True = Raise ValueError"
proof -
  have a: "starts_with ''/'' ''/data''" "''x//y.log'' \<noteq> []" "\<not> starts_with ''/'' ''x//y.log''"
    "\<not> has_dotdot ''x//y.log''" by code_simp+
  have b: "starts_with ''/'' ''/''" "''etc'' \<noteq> []" "\<not> starts_with ''/'' ''etc''"
    "\<not> has_dotdot ''etc''" by code_simp+
  show ?thesis
    unfolding validate_path_relative [OF a] validate_path_relative [OF b] by code_simp
qed

text \<open>
  \<open>validate_identifier\<close> accepts exactly the strings of at most 256 characters that are a
  non-empty word over letters, digits, \<open>_\<close> and \<open>-\<close>, possibly followed by one newline, which
  the anchor \<open>$\<close> lets through.
\<close>

theorem validate_identifier_spec:
  "validate_identifier s =
     (if length s \<le> 256 \<and> (\<exists>w. w \<noteq> [] \<and> list_all ident_char w \<and> s \<in> {w, w @ [CHR 0x0A]})
      then Ret s else Raise ValueError)"
  by (auto simp: validate_identifier_def dollar_match_charset)

text \<open>
  An environment entry \<open>NAME=value\<close> whose parts pass \<open>sanitize_env_var_name\<close> and
  \<open>sanitize_env_var_value\<close> is unambiguous: two accepted entries with the same text have the same
  name and value; and no accepted name is one of the blocked loader variables.
\<close>

theorem env_entry_unambiguous:
  assumes "sanitize_env_var_name n = Ret n'" "sanitize_env_var_value v = Ret v'"
    and "sanitize_env_var_name m = Ret m'" "sanitize_env_var_value w = Ret w'"
    and "n' @ ''='' @ v' = m' @ ''='' @ w'"
  shows "n' = m' \<and> v' = w' \<and> n' \<notin> set dangerous_env \<and> CHR 0x00 \<notin> set (n' @ v')"
proof -
  note n = env_name_no_eq [OF assms(1)] and m = env_name_no_eq [OF assms(3)]
  have v: "v' = v" "CHR 0x00 \<notin> set v" using assms(2) by (auto simp: sanitize_env_var_value_def split: if_splits)
  have "takeWhile (\<lambda>c. c \<noteq> CHR ''='') (n @ ''='' @ v') = n" "takeWhile (\<lambda>c. c \<noteq> CHR ''='') (m @ ''='' @ w') = m"
    using n m by (auto simp: takeWhile_append)
  with assms(5) n m v show ?thesis by auto
qed

theorem env_entry_unambiguous_witness:
  "sanitize_env_var_name ''API_KEY'' = Ret ''API_KEY'' \<and> sanitize_env_var_value ''a=b'' = Ret ''a=b''
   \<and> ''API_KEY'' \<notin> set dangerous_env"
proof -
  have a: "sanitize_env_var_name ''API_KEY'' = Ret ''API_KEY''" "sanitize_env_var_value ''a=b'' = Ret ''a=b''"
    by code_simp+
  with env_entry_unambiguous [OF a a refl] show ?thesis by simp
qed

text \<open>The loader variable \<open>LD_PRELOAD\<close> is blocked, but not when a newline follows it.\<close>

lemma sanitize_env_newline:
  "sanitize_env_var_name ''LD_PRELOAD'' = Raise ValueError"
  "sanitize_env_var_name (''LD_PRELOAD'' @ [CHR 0x0A]) = Ret (''LD_PRELOAD'' @ [CHR 0x0A])"
  by code_simp+

end
