(* ===== verification/Config.thy ===== *)
theory Config
  imports PyFloat
begin

text \<open>
  The configuration records of \<open>core/config.py\<close>. The default constants are the values taken when
  the environment sets none of the \<open>VIBESHIELD_*\<close> and \<open>CLAWMOLT_*\<close> variables; every theorem
  is about an arbitrary configuration unless it says otherwise.
\<close>

record escrow_config =
  settlement_timeout :: int
  consensus_agents :: int
  dispute_threshold :: pyfloat
  reputation_decay_factor :: pyfloat
  verified_multiplier :: pyfloat
  min_reputation :: pyfloat

definition default_escrow_config :: escrow_config where
  "default_escrow_config =
     \<lparr>settlement_timeout = 3600, consensus_agents = 3, dispute_threshold = F (7 / 10),
      reputation_decay_factor = F (95 / 100), verified_multiplier = F (105 / 100),
      min_reputation = F (3 / 10)\<rparr>"

record sandbox_config =
  sandbox_image :: string
  network_mode :: string
  memory_limit :: string
  cpu_quota :: int
  cpu_period :: int
  tmpfs_size :: string
  timeout_seconds :: int
  cap_drop_all :: bool
  no_new_privileges :: bool

definition default_sandbox_config :: sandbox_config where
  "default_sandbox_config =
     \<lparr>sandbox_image = ''vibeshield/base:latest'', network_mode = ''none'', memory_limit = ''512m'',
      cpu_quota = 50000, cpu_period = 100000, tmpfs_size = ''100M'', timeout_seconds = 300,
      cap_drop_all = True, no_new_privileges = True\<rparr>"

record orchestrator_config =
  api_base :: string
  heartbeat_interval :: int
  heartbeat_timeout :: int
  offline_threshold :: int
  max_workers :: int

definition default_orchestrator_config :: orchestrator_config where
  "default_orchestrator_config =
     \<lparr>api_base = ''https://api.clawmolt.ai'', heartbeat_interval = 600, heartbeat_timeout = 30,
      offline_threshold = 1800, max_workers = 50\<rparr>"

record vibeshield_config =
  cfg_mode :: string
  log_level :: string
  data_dir :: string
  cfg_sandbox :: sandbox_config
  cfg_orchestrator :: orchestrator_config
  cfg_escrow :: escrow_config

definition default_vibeshield_config :: vibeshield_config where
  "default_vibeshield_config =
     \<lparr>cfg_mode = ''production'', log_level = ''INFO'', data_dir = ''/var/lib/vibeshield'',
      cfg_sandbox = default_sandbox_config, cfg_orchestrator = default_orchestrator_config,
      cfg_escrow = default_escrow_config\<rparr>"

definition is_production :: "vibeshield_config \<Rightarrow> bool" where
  "is_production c = (cfg_mode c = ''production'')"

end
