(* ===== verification/Escrow.thy ===== *)
theory Escrow
  imports Config PyJson
begin

text \<open>
  Layer 3, \<open>core/layer3_escrow.py\<close>: bounties, reputations and the escrow engine.

  The engine's state is its configuration and two dictionaries. An operation takes the engine and
  returns the engine it leaves behind with its outcome. \<open>uuid4\<close> is an argument (the fresh
  identifier), a clock reading is an argument (\<open>clk i\<close> is the \<open>i\<close>-th reading of
  \<open>time.time()\<close> in the call), and \<open>sha256\<close> stands for \<open>hashlib.sha256(...).hexdigest()\<close> on
  bytes.
\<close>

section \<open>Data\<close>

datatype bounty_state =
    OPEN | CLAIMED | IN_PROGRESS | SUBMITTED | UNDER_REVIEW | APPROVED | DISPUTED | SETTLED
  | CANCELLED

datatype dispute_resolution = CLIENT_FAVOR | AGENT_FAVOR | SPLIT

record bounty =
  bounty_id :: string
  client_id :: string
  title :: string
  description :: string
  reward :: pyfloat
  requirements :: json
  b_state :: bounty_state
  claimed_by :: "string option"
  submitted_at :: "pyfloat option"
  settled_at :: "pyfloat option"
  created_at :: pyfloat
  output_snapshot :: "string option"

record task_entry =
  te_score :: pyfloat
  te_verified :: bool
  te_disputed :: bool
  te_timestamp :: pyfloat

text \<open>
  The key of a reputation is \<open>bounty.claimed_by\<close>, which is None for a bounty nobody claimed.
\<close>

record reputation =
  rep_agent_id :: "string option"
  score :: pyfloat
  total_tasks :: nat
  completed_tasks :: nat
  disputed_count :: nat
  verified :: bool
  history :: "task_entry list"
  last_updated :: pyfloat

record consensus_vote =
  voter :: string
  decision :: dispute_resolution
  reasoning :: string
  confidence :: pyfloat

record engine =
  eng_config :: escrow_config
  bounties :: "(string, bounty) dict"
  reputations :: "(string option, reputation) dict"

definition new_engine :: "escrow_config \<Rightarrow> engine" where
  "new_engine cfg = \<lparr>eng_config = cfg, bounties = [], reputations = []\<rparr>"

definition new_reputation :: "string option \<Rightarrow> pyfloat \<Rightarrow> reputation" where
  "new_reputation agent now =
     \<lparr>rep_agent_id = agent, score = F (1 / 2), total_tasks = 0, completed_tasks = 0,
      disputed_count = 0, verified = False, history = [], last_updated = now\<rparr>"

section \<open>Reputation\<close>

definition calculate_rs :: "reputation \<Rightarrow> pyfloat \<Rightarrow> pyfloat" where
  "calculate_rs r decay_factor =
     (if history r = [] then score r
      else let n = length (history r);
               weights = map (\<lambda>i. fpow decay_factor (n - 1 - i)) [0..<n];
               scores = map te_score (history r);
               total_weight = py_sum weights
           in if total_weight = 0 then score r
              else py_round 4 (fdiv (py_sum (map2 (*) weights scores)) total_weight))"

definition rep_update :: "reputation \<Rightarrow> pyfloat \<Rightarrow> bool \<Rightarrow> bool \<Rightarrow> pyfloat \<Rightarrow> pyfloat \<Rightarrow> reputation" where
  "rep_update r task_score was_verified was_disputed now1 now2 =
     (let r1 = r\<lparr>history := history r @ [\<lparr>te_score = task_score, te_verified = was_verified,
                   te_disputed = was_disputed, te_timestamp = now1\<rparr>],
                 total_tasks := total_tasks r + 1\<rparr>;
          r2 = (if was_disputed then r1\<lparr>disputed_count := disputed_count r1 + 1\<rparr>
                else if F (8 / 10) \<le> task_score
                     then r1\<lparr>completed_tasks := completed_tasks r1 + 1\<rparr>
                else r1)
      in r2\<lparr>last_updated := now2\<rparr>)"

definition get_or_create_reputation ::
  "engine \<Rightarrow> string option \<Rightarrow> pyfloat \<Rightarrow> engine \<times> reputation" where
  "get_or_create_reputation e agent now =
     (case dict_get (reputations e) agent of
        Some r \<Rightarrow> (e, r)
      | None \<Rightarrow> let r = new_reputation agent now
                in (e\<lparr>reputations := dict_set agent r (reputations e)\<rparr>, r))"

definition put_reputation :: "engine \<Rightarrow> string option \<Rightarrow> reputation \<Rightarrow> engine" where
  "put_reputation e agent r = e\<lparr>reputations := dict_set agent r (reputations e)\<rparr>"

definition put_bounty :: "engine \<Rightarrow> string \<Rightarrow> bounty \<Rightarrow> engine" where
  "put_bounty e bid b = e\<lparr>bounties := dict_set bid b (bounties e)\<rparr>"

text \<open>\<open>get_or_create_reputation(agent)\<close> followed by \<open>update\<close> on the object it returns.\<close>

definition rate_agent ::
  "engine \<Rightarrow> string option \<Rightarrow> pyfloat \<Rightarrow> bool \<Rightarrow> bool \<Rightarrow> (nat \<Rightarrow> pyfloat) \<Rightarrow> engine" where
  "rate_agent e agent task_score was_verified was_disputed clk =
     (let (e1, r) = get_or_create_reputation e agent (clk 1)
      in put_reputation e1 agent (rep_update r task_score was_verified was_disputed (clk 2) (clk 3)))"

section \<open>Operations of the engine\<close>

definition create_bounty ::
  "engine \<Rightarrow> string \<Rightarrow> string \<Rightarrow> string \<Rightarrow> string \<Rightarrow> pyfloat \<Rightarrow> json option \<Rightarrow> pyfloat
   \<Rightarrow> engine \<times> bounty" where
  "create_bounty e uuid client ttl desc rew reqs now =
     (let b = \<lparr>bounty_id = uuid, client_id = client, title = ttl, description = desc,
               reward = rew, requirements = (case reqs of None \<Rightarrow> JObj [] | Some j \<Rightarrow> j),
               b_state = OPEN, claimed_by = None, submitted_at = None, settled_at = None,
               created_at = now, output_snapshot = None\<rparr>
      in (put_bounty e uuid b, b))"

definition claim_bounty :: "engine \<Rightarrow> string \<Rightarrow> string \<Rightarrow> pyfloat \<Rightarrow> engine \<times> bool" where
  "claim_bounty e bid agent now =
     (case dict_get (bounties e) bid of
        None \<Rightarrow> (e, False)
      | Some b \<Rightarrow>
          if b_state b \<noteq> OPEN then (e, False)
          else let (e1, r) = get_or_create_reputation e (Some agent) now;
                   rs = calculate_rs r (reputation_decay_factor (eng_config e))
               in if rs < min_reputation (eng_config e) then (e1, False)
                  else (put_bounty e1 bid (b\<lparr>b_state := CLAIMED, claimed_by := Some agent\<rparr>), True))"

definition submit_work ::
  "(string \<Rightarrow> string) \<Rightarrow> engine \<Rightarrow> string \<Rightarrow> string \<Rightarrow> string \<Rightarrow> pyfloat \<Rightarrow> engine \<times> bool" where
  "submit_work sha256 e bid agent output now =
     (case dict_get (bounties e) bid of
        None \<Rightarrow> (e, False)
      | Some b \<Rightarrow>
          if claimed_by b \<noteq> Some agent then (e, False)
          else (put_bounty e bid
                  (b\<lparr>output_snapshot := Some (sha256 (py_encode output)), b_state := SUBMITTED,
                     submitted_at := Some now\<rparr>), True))"

definition approve_bounty ::
  "engine \<Rightarrow> string \<Rightarrow> string \<Rightarrow> (nat \<Rightarrow> pyfloat) \<Rightarrow> engine \<times> bool" where
  "approve_bounty e bid client clk =
     (case dict_get (bounties e) bid of
        None \<Rightarrow> (e, False)
      | Some b \<Rightarrow>
          if client_id b \<noteq> client then (e, False)
          else if b_state b \<noteq> SUBMITTED then (e, False)
          else let e1 = rate_agent e (claimed_by b) 1 True False clk
               in (put_bounty e1 bid (b\<lparr>b_state := SETTLED, settled_at := Some (clk 4)\<rparr>), True))"

text \<open>The amount \<open>approve_bounty\<close> releases (the code reports it in its log).\<close>

definition final_reward :: "escrow_config \<Rightarrow> bounty \<Rightarrow> reputation \<Rightarrow> pyfloat" where
  "final_reward cfg b r = reward b * (if verified r then verified_multiplier cfg else 1)"

text \<open>
  The consensus panel. The code fills it with \<open>consensus_agents\<close> simulated votes; counting the
  votes and picking the winner is independent of who cast them.
\<close>

definition panel_votes :: "escrow_config \<Rightarrow> consensus_vote list" where
  "panel_votes cfg =
     map (\<lambda>i. \<lparr>voter = ''consensus_agent_'' @ show_dec (int i), decision = AGENT_FAVOR,
               reasoning = ''Output matches bounty requirements.'',
               confidence = F (85 / 100) + F (of_nat i) * F (5 / 100)\<rparr>)
         [0..<nat (consensus_agents cfg)]"

definition tally_count :: "(dispute_resolution, nat) dict \<Rightarrow> dispute_resolution \<Rightarrow> nat" where
  "tally_count tallies d = (case dict_get tallies d of None \<Rightarrow> 0 | Some n \<Rightarrow> n)"

fun tally :: "consensus_vote list \<Rightarrow> (dispute_resolution, nat) dict \<Rightarrow> (dispute_resolution, nat) dict" where
  "tally [] tallies = tallies"
| "tally (v # vs) tallies =
     tally vs (dict_set (decision v)
       (tally_count tallies (decision v) + 1) tallies)"

definition winning_decision :: "consensus_vote list \<Rightarrow> dispute_resolution outcome" where
  "winning_decision votes =
     (let tallies = tally votes []
      in case py_max_by (tally_count tallies) (dict_keys tallies) of
           None \<Rightarrow> Raise ValueError
         | Some d \<Rightarrow> Ret d)"

definition run_consensus :: "escrow_config \<Rightarrow> dispute_resolution outcome" where
  "run_consensus cfg = winning_decision (panel_votes cfg)"

definition dispute_bounty ::
  "engine \<Rightarrow> string \<Rightarrow> string \<Rightarrow> (nat \<Rightarrow> pyfloat) \<Rightarrow> engine \<times> bool outcome" where
  "dispute_bounty e bid client clk =
     (case dict_get (bounties e) bid of
        None \<Rightarrow> (e, Ret False)
      | Some b \<Rightarrow>
          if client_id b \<noteq> client then (e, Ret False)
          else
            let b1 = b\<lparr>b_state := DISPUTED\<rparr>; e1 = put_bounty e bid b1
            in case run_consensus (eng_config e) of
                 Inl x \<Rightarrow> (e1, Raise x)
               | Inr resolution \<Rightarrow>
                   let e2 = put_bounty e1 bid (b1\<lparr>b_state := SETTLED, settled_at := Some (clk 0)\<rparr>)
                   in (case resolution of
                         AGENT_FAVOR \<Rightarrow> rate_agent e2 (claimed_by b) 1 True False clk
                       | CLIENT_FAVOR \<Rightarrow> rate_agent e2 (claimed_by b) 0 False True clk
                       | SPLIT \<Rightarrow> rate_agent e2 (claimed_by b) (F (1 / 2)) False False clk,
                       Ret True))"

record reputation_summary =
  sm_agent_id :: "string option"
  rs_score :: pyfloat
  sm_total_tasks :: nat
  sm_completed_tasks :: nat
  sm_disputed_count :: nat
  sm_verified :: bool
  bounty_multiplier :: pyfloat
  eligible :: bool

definition get_agent_reputation ::
  "engine \<Rightarrow> string \<Rightarrow> pyfloat \<Rightarrow> engine \<times> reputation_summary" where
  "get_agent_reputation e agent now =
     (let (e1, r) = get_or_create_reputation e (Some agent) now;
          rs = calculate_rs r (reputation_decay_factor (eng_config e))
      in (e1, \<lparr>sm_agent_id = Some agent, rs_score = rs, sm_total_tasks = total_tasks r,
               sm_completed_tasks = completed_tasks r, sm_disputed_count = disputed_count r,
               sm_verified = verified r,
               bounty_multiplier = (if verified r then verified_multiplier (eng_config e) else 1),
               eligible = (min_reputation (eng_config e) \<le> rs)\<rparr>))"

record board_row =
  row_bounty_id :: string
  row_title :: string
  row_reward :: pyfloat
  row_state :: bounty_state
  row_claimed_by :: "string option"
  row_created_at :: pyfloat

definition board_row_of :: "bounty \<Rightarrow> board_row" where
  "board_row_of b =
     \<lparr>row_bounty_id = bounty_id b, row_title = title b, row_reward = reward b,
      row_state = b_state b, row_claimed_by = claimed_by b, row_created_at = created_at b\<rparr>"

definition get_bounty_board :: "engine \<Rightarrow> bounty_state option \<Rightarrow> board_row list" where
  "get_bounty_board e st =
     py_sorted_rev row_created_at
       (map board_row_of
         (filter (\<lambda>b. case st of None \<Rightarrow> True | Some s \<Rightarrow> b_state b = s) (dict_values (bounties e))))"

section \<open>The engine as a state machine\<close>

datatype escrow_op =
    Create string string string string pyfloat "json option"
  | Claim string string
  | Submit string string string
  | Approve string string
  | Dispute string string
  | Summary string

fun exec :: "(string \<Rightarrow> string) \<Rightarrow> (nat \<Rightarrow> pyfloat) \<Rightarrow> engine \<Rightarrow> escrow_op \<Rightarrow> engine \<times> bool outcome" where
  "exec sha clk e (Create uuid client ttl desc rew reqs) =
     (fst (create_bounty e uuid client ttl desc rew reqs (clk 0)), Ret True)"
| "exec sha clk e (Claim bid agent) = map_prod id Ret (claim_bounty e bid agent (clk 0))"
| "exec sha clk e (Submit bid agent output) =
     map_prod id Ret (submit_work sha e bid agent output (clk 0))"
| "exec sha clk e (Approve bid client) = map_prod id Ret (approve_bounty e bid client clk)"
| "exec sha clk e (Dispute bid client) = dispute_bounty e bid client clk"
| "exec sha clk e (Summary agent) = (fst (get_agent_reputation e agent (clk 0)), Ret True)"

text \<open>A run: each operation with the clock readings it makes.\<close>

fun run ::
  "(string \<Rightarrow> string) \<Rightarrow> engine \<Rightarrow> (escrow_op \<times> (nat \<Rightarrow> pyfloat)) list
   \<Rightarrow> engine \<times> bool outcome list" where
  "run sha e [] = (e, [])"
| "run sha e ((op, clk) # ops) =
     (let (e1, r) = exec sha clk e op; (e2, rs) = run sha e1 ops in (e2, r # rs))"

inductive reach :: "(string \<Rightarrow> string) \<Rightarrow> escrow_config \<Rightarrow> engine \<Rightarrow> bool" for sha cfg where
  reach_init: "reach sha cfg (new_engine cfg)"
| reach_step: "reach sha cfg e \<Longrightarrow> exec sha clk e op = (e', r) \<Longrightarrow> reach sha cfg e'"

inductive_cases reachE: "reach sha cfg e"

lemma run_reach: "reach sha cfg e \<Longrightarrow> run sha e ops = (e', rs) \<Longrightarrow> reach sha cfg e'"
proof (induction sha e ops arbitrary: rs rule: run.induct)
  case (2 sha e op clk ops)
  obtain e1 r where e1: "exec sha clk e op = (e1, r)" by fastforce
  obtain e2 rs' where e2: "run sha e1 ops = (e2, rs')" by fastforce
  have "reach sha cfg e1" using "2.prems"(1) e1 by (rule reach_step)
  with 2 e1 e2 show ?case by simp
qed simp

section \<open>Lemmas on the parts\<close>

lemma get_or_create_eq:
  "get_or_create_reputation e agent now =
     (let r = (case dict_get (reputations e) agent of Some r \<Rightarrow> r | None \<Rightarrow> new_reputation agent now)
      in (if dict_mem agent (reputations e) then e else put_reputation e agent r, r))"
  by (simp add: get_or_create_reputation_def put_reputation_def dict_mem_def split: option.splits)

lemma put_bounty_sel [simp]:
  "eng_config (put_bounty e bid b) = eng_config e"
  "reputations (put_bounty e bid b) = reputations e"
  "bounties (put_bounty e bid b) = dict_set bid b (bounties e)"
  by (simp_all add: put_bounty_def)

lemma put_reputation_sel [simp]:
  "eng_config (put_reputation e agent r) = eng_config e"
  "bounties (put_reputation e agent r) = bounties e"
  "reputations (put_reputation e agent r) = dict_set agent r (reputations e)"
  by (simp_all add: put_reputation_def)

lemma get_or_create_sel [simp]:
  "eng_config (fst (get_or_create_reputation e agent now)) = eng_config e"
  "bounties (fst (get_or_create_reputation e agent now)) = bounties e"
  by (simp_all add: get_or_create_eq Let_def)

lemma rate_agent_sel [simp]:
  "eng_config (rate_agent e agent s v d clk) = eng_config e"
  "bounties (rate_agent e agent s v d clk) = bounties e"
  by (simp_all add: rate_agent_def get_or_create_eq Let_def)

lemma exec_config [frame]: "eng_config (fst (exec sha clk e op)) = eng_config e"
  by (cases op)
    (auto simp: create_bounty_def claim_bounty_def submit_work_def approve_bounty_def
      dispute_bounty_def get_agent_reputation_def get_or_create_eq Let_def
      split: option.splits sum.splits dispute_resolution.splits)

subsection \<open>The reputation score\<close>

definition decay_weights :: "nat \<Rightarrow> pyfloat \<Rightarrow> pyfloat list" where
  "decay_weights n d = map (\<lambda>i. fpow d (n - 1 - i)) [0..<n]"

lemma decay_weights_nonneg: "0 \<le> d \<Longrightarrow> w \<in> set (decay_weights n d) \<Longrightarrow> 0 \<le> w"
  by (auto simp: decay_weights_def fpow_nonneg)

lemma decay_weights_snoc: "decay_weights (Suc n) d = map (\<lambda>i. fpow d (n - i)) [0..<n] @ [1]"
  by (simp add: decay_weights_def)

lemma decay_total_ge_1:
  assumes "0 \<le> d" and "0 < n"
  shows "1 \<le> py_sum (decay_weights n d)"
proof -
  obtain m where n: "n = Suc m" using assms(2) by (cases n) auto
  show ?thesis
    unfolding n decay_weights_snoc using assms(1)
    by (intro py_sum_ge_last) (auto simp: fpow_nonneg)
qed

lemma calculate_rs_eq:
  assumes "0 \<le> d" and "history r \<noteq> []"
  shows "calculate_rs r d =
    (let ws = decay_weights (length (history r)) d
     in py_round 4 (fdiv (py_sum (map2 (*) ws (map te_score (history r)))) (py_sum ws)))"
proof -
  have "1 \<le> py_sum (decay_weights (length (history r)) d)"
    using assms by (intro decay_total_ge_1) auto
  then have "py_sum (decay_weights (length (history r)) d) \<noteq> 0"
    by (auto simp: rat_of_le)
  with assms(2) show ?thesis
    by (simp add: calculate_rs_def Let_def decay_weights_def)
qed

lemma map2_times_le:
  fixes ws ss :: "pyfloat list"
  assumes "length ws = length ss" and "\<forall>w \<in> set ws. 0 \<le> w" and "\<forall>s \<in> set ss. 0 \<le> s \<and> s \<le> 1"
  shows "list_all2 (\<le>) (map2 (*) ws ss) ws"
  using assms by (induction ws ss rule: list_induct2) (auto simp: float_scale_le)

lemma map2_times_nonneg:
  fixes ws ss :: "pyfloat list"
  assumes "length ws = length ss" and "\<forall>w \<in> set ws. 0 \<le> w" and "\<forall>s \<in> set ss. 0 \<le> s"
  shows "\<forall>x \<in> set (map2 (*) ws ss). 0 \<le> x"
  using assms by (induction ws ss rule: list_induct2) (auto simp: float_mult_nonneg)

lemma map2_times_mono:
  fixes ws ss :: "pyfloat list"
  assumes "list_all2 (\<le>) ss ts" and "length ws = length ss"
    and "\<forall>w \<in> set ws. 0 \<le> w" and "\<forall>s \<in> set ss. 0 \<le> s"
  shows "list_all2 (\<le>) (map2 (*) ws ss) (map2 (*) ws ts)"
  using assms
proof (induction ss ts arbitrary: ws rule: list_all2_induct)
  case (Cons s ss t ts)
  then obtain w ws' where "ws = w # ws'" by (cases ws) auto
  with Cons show ?case by (auto intro: float_mult_mono)
qed simp

lemma fdiv_mono: "0 < c \<Longrightarrow> a \<le> b \<Longrightarrow> fdiv a c \<le> fdiv b c"
  unfolding rat_of_le rat_of_less rat_of_fdiv by (rule flr.mono) (simp add: divide_right_mono)

lemma float_ge_1_pos: "1 \<le> x \<Longrightarrow> (0 :: pyfloat) < x"
  by (simp add: rat_of_le rat_of_less)

definition scores_in_range :: "reputation \<Rightarrow> bool" where
  "scores_in_range r \<longleftrightarrow> (\<forall>h \<in> set (history r). 0 \<le> te_score h \<and> te_score h \<le> 1)"

lemma rs_bounds:
  assumes d: "0 \<le> d" and r: "scores_in_range r" and s: "0 \<le> score r" "score r \<le> 1"
  shows "0 \<le> calculate_rs r d \<and> calculate_rs r d \<le> 1"
proof (cases "history r = []")
  case True
  then show ?thesis using s by (simp add: calculate_rs_def)
next
  case False
  let ?ws = "decay_weights (length (history r)) d" and ?ss = "map te_score (history r)"
  have len: "length ?ws = length ?ss" by (simp add: decay_weights_def)
  have w: "\<forall>w \<in> set ?ws. 0 \<le> w" using d by (auto dest: decay_weights_nonneg)
  have "\<forall>s \<in> set ?ss. 0 \<le> s \<and> s \<le> 1" using r by (auto simp: scores_in_range_def)
  then have hi: "py_sum (map2 (*) ?ws ?ss) \<le> py_sum ?ws"
    using map2_times_le [OF len w] by (intro py_sum_mono) auto
  have lo: "0 \<le> py_sum (map2 (*) ?ws ?ss)"
    using map2_times_nonneg [OF len w] r by (intro py_sum_nonneg) (auto simp: scores_in_range_def)
  have pos: "0 < py_sum ?ws"
    using d False by (intro float_ge_1_pos decay_total_ge_1) auto
  then have "0 \<le> fdiv (py_sum (map2 (*) ?ws ?ss)) (py_sum ?ws)"
    and "fdiv (py_sum (map2 (*) ?ws ?ss)) (py_sum ?ws) \<le> 1"
    using lo hi by (auto intro: fdiv_nonneg fdiv_le_one less_imp_le)
  then have "py_round 4 0 \<le> calculate_rs r d" and "calculate_rs r d \<le> py_round 4 1"
    by (simp_all only: calculate_rs_eq [OF d False] Let_def py_round_mono)
  then show ?thesis by simp
qed

lemma rs_mono:
  assumes d: "0 \<le> d" and same: "length (history r) = length (history r')" "score r = score r'"
    and r: "\<forall>h \<in> set (history r). 0 \<le> te_score h"
    and le: "list_all2 (\<lambda>h h'. te_score h \<le> te_score h') (history r) (history r')"
  shows "calculate_rs r d \<le> calculate_rs r' d"
proof (cases "history r = []")
  case True
  with same show ?thesis by (simp add: calculate_rs_def)
next
  case False
  with same have False': "history r' \<noteq> []" by auto
  let ?ws = "decay_weights (length (history r)) d"
  have "list_all2 (\<le>) (map te_score (history r)) (map te_score (history r'))"
    using le by (simp add: list.rel_map)
  then have "py_sum (map2 (*) ?ws (map te_score (history r)))
      \<le> py_sum (map2 (*) ?ws (map te_score (history r')))"
    using d r by (intro py_sum_mono map2_times_mono)
      (auto simp: decay_weights_def fpow_nonneg)
  moreover have "0 < py_sum ?ws"
    using d False by (intro float_ge_1_pos decay_total_ge_1) auto
  ultimately show ?thesis
    unfolding calculate_rs_eq [OF d False] calculate_rs_eq [OF d False'] same(1) [symmetric] Let_def
    by (intro py_round_mono fdiv_mono)
qed

subsection \<open>The consensus tally\<close>

definition votes_for :: "consensus_vote list \<Rightarrow> dispute_resolution \<Rightarrow> nat" where
  "votes_for votes d = length (filter (\<lambda>v. decision v = d) votes)"

lemma tally_count_tally:
  "tally_count (tally votes t) d = tally_count t d + votes_for votes d"
  by (induction votes t rule: tally.induct) (auto simp: tally_count_def votes_for_def)

lemma tally_keys_set:
  "set (dict_keys (tally votes t)) = set (dict_keys t) \<union> decision ` set votes"
  by (induction votes t rule: tally.induct) (auto simp: dict_keys_def keys_dict_set)

lemma winning_decision_SomeD:
  assumes "winning_decision votes = Ret d"
  shows "d \<in> decision ` set votes" and "votes_for votes d' \<le> votes_for votes d"
proof -
  let ?t = "tally votes []"
  have m: "py_max_by (tally_count ?t) (dict_keys ?t) = Some d"
    using assms by (auto simp: winning_decision_def Let_def split: option.splits)
  have c: "tally_count ?t = votes_for votes"
    by (rule ext) (simp add: tally_count_tally tally_count_def [of "[]"])
  have k: "set (dict_keys ?t) = decision ` set votes"
    using tally_keys_set [of votes "[]"] by (simp add: dict_keys_def)
  show "d \<in> decision ` set votes"
    using py_max_by_SomeD [OF m] by (simp add: k)
  show "votes_for votes d' \<le> votes_for votes d"
  proof (cases "d' \<in> decision ` set votes")
    case True
    then show ?thesis using py_max_by_SomeD [OF m] unfolding k c by blast
  next
    case False
    then have "votes_for votes d' = 0"
      by (auto simp: votes_for_def filter_empty_conv)
    then show ?thesis by simp
  qed
qed

lemma winning_decision_None: "winning_decision votes = Raise x \<longleftrightarrow> votes = [] \<and> x = ValueError"
proof -
  have "dict_keys (tally votes []) = [] \<longleftrightarrow> votes = []"
    using tally_keys_set [of votes "[]"] by (auto simp: dict_keys_def simp flip: set_empty)
  then show ?thesis
    by (auto simp: winning_decision_def Let_def split: option.splits)
qed

lemma winning_decision_total: "votes \<noteq> [] \<Longrightarrow> \<exists>d. winning_decision votes = Ret d"
  using winning_decision_None by (metis sum.exhaust)

lemma run_consensus_eq:
  "run_consensus cfg = (if consensus_agents cfg \<le> 0 then Raise ValueError else Ret AGENT_FAVOR)"
proof (cases "consensus_agents cfg \<le> 0")
  case True
  then have "winning_decision (panel_votes cfg) = Raise ValueError"
    by (simp add: winning_decision_None panel_votes_def)
  with True show ?thesis by (simp add: run_consensus_def)
next
  case False
  then have "panel_votes cfg \<noteq> []" by (simp add: panel_votes_def)
  then obtain d where d: "winning_decision (panel_votes cfg) = Ret d"
    using winning_decision_total by blast
  then have "d \<in> decision ` set (panel_votes cfg)" by (rule winning_decision_SomeD)
  then have "d = AGENT_FAVOR" by (auto simp: panel_votes_def)
  with d False show ?thesis by (simp add: run_consensus_def)
qed

lemma dispute_bounty_eq:
  "dispute_bounty e bid client clk =
     (case dict_get (bounties e) bid of
        None \<Rightarrow> (e, Ret False)
      | Some b \<Rightarrow>
          if client_id b \<noteq> client then (e, Ret False)
          else if consensus_agents (eng_config e) \<le> 0
            then (put_bounty e bid (b\<lparr>b_state := DISPUTED\<rparr>), Raise ValueError)
          else (rate_agent
                 (put_bounty (put_bounty e bid (b\<lparr>b_state := DISPUTED\<rparr>)) bid
                   (b\<lparr>b_state := SETTLED, settled_at := Some (clk 0)\<rparr>))
                 (claimed_by b) 1 True False clk, Ret True))"
  by (cases "dict_get (bounties e) bid") (simp_all add: dispute_bounty_def Let_def run_consensus_eq)

subsection \<open>The invariant\<close>

definition bounty_ok :: "escrow_config \<Rightarrow> bounty \<Rightarrow> bool" where
  "bounty_ok cfg b \<longleftrightarrow>
     (case b_state b of
        OPEN \<Rightarrow> claimed_by b = None \<and> output_snapshot b = None
                 \<and> submitted_at b = None \<and> settled_at b = None
      | CLAIMED \<Rightarrow> claimed_by b \<noteq> None \<and> output_snapshot b = None \<and> settled_at b = None
      | SUBMITTED \<Rightarrow> claimed_by b \<noteq> None \<and> output_snapshot b \<noteq> None \<and> submitted_at b \<noteq> None
      | SETTLED \<Rightarrow> settled_at b \<noteq> None
      | DISPUTED \<Rightarrow> consensus_agents cfg \<le> 0
      | _ \<Rightarrow> False)"

definition reputation_ok :: "reputation \<Rightarrow> bool" where
  "reputation_ok r \<longleftrightarrow>
     total_tasks r = length (history r)
     \<and> completed_tasks r = length (filter (\<lambda>t. \<not> te_disputed t \<and> F (8 / 10) \<le> te_score t) (history r))
     \<and> disputed_count r = length (filter te_disputed (history r))
     \<and> score r = F (1 / 2) \<and> scores_in_range r"

definition engine_inv :: "engine \<Rightarrow> bool" where
  "engine_inv e \<longleftrightarrow>
     wf_dict (bounties e) \<and> wf_dict (reputations e)
     \<and> (\<forall>bid b. dict_get (bounties e) bid = Some b \<longrightarrow> bounty_id b = bid \<and> bounty_ok (eng_config e) b)
     \<and> (\<forall>a r. dict_get (reputations e) a = Some r \<longrightarrow> rep_agent_id r = a \<and> reputation_ok r)"

lemma reputation_ok_new [invs]: "reputation_ok (new_reputation a now)"
  by (simp add: reputation_ok_def new_reputation_def scores_in_range_def)

lemma reputation_ok_update [invs]:
  "reputation_ok r \<Longrightarrow> 0 \<le> s \<Longrightarrow> s \<le> 1 \<Longrightarrow> reputation_ok (rep_update r s v d t1 t2)"
  by (auto simp: reputation_ok_def rep_update_def Let_def scores_in_range_def)

lemma rep_update_agent [simp]: "rep_agent_id (rep_update r s v d t1 t2) = rep_agent_id r"
  by (simp add: rep_update_def Let_def)

lemma rep_update_total [simp]: "total_tasks (rep_update r s v d t1 t2) = total_tasks r + 1"
  by (simp add: rep_update_def Let_def)

lemma inv_put_reputation [invs]:
  "engine_inv e \<Longrightarrow> rep_agent_id r = a \<Longrightarrow> reputation_ok r \<Longrightarrow> engine_inv (put_reputation e a r)"
  by (auto simp: engine_inv_def)

lemma inv_put_bounty [invs]:
  "engine_inv e \<Longrightarrow> bounty_id b = bid \<Longrightarrow> bounty_ok (eng_config e) b \<Longrightarrow> engine_inv (put_bounty e bid b)"
  by (auto simp: engine_inv_def)

lemma inv_bountyD:
  "engine_inv e \<Longrightarrow> dict_get (bounties e) bid = Some b \<Longrightarrow> bounty_id b = bid \<and> bounty_ok (eng_config e) b"
  by (simp add: engine_inv_def)

lemma new_reputation_agent [simp]: "rep_agent_id (new_reputation a now) = a"
  by (simp add: new_reputation_def)

lemma inv_get_or_create [invs]:
  assumes "engine_inv e"
  shows "engine_inv (fst (get_or_create_reputation e a now))"
    and "rep_agent_id (snd (get_or_create_reputation e a now)) = a"
    and "reputation_ok (snd (get_or_create_reputation e a now))"
  using assms
  by (auto simp: get_or_create_eq Let_def dict_mem_def engine_inv_def reputation_ok_new
      split: option.splits)

lemma inv_rate_agent [invs]:
  assumes "engine_inv e" and "0 \<le> s" and "s \<le> 1"
  shows "engine_inv (rate_agent e a s v d clk)"
  using inv_get_or_create [OF assms(1), of a "clk 1"] assms(2,3)
  by (auto simp: rate_agent_def split: prod.splits intro!: inv_put_reputation reputation_ok_update)

lemma inv_exec [invs]:
  assumes "engine_inv e"
  shows "engine_inv (fst (exec sha clk e op))"
proof (cases op)
  case (Create uuid client ttl desc rew reqs)
  with assms show ?thesis
    by (auto simp: create_bounty_def Let_def bounty_ok_def intro!: inv_put_bounty)
next
  case (Claim bid agent)
  with assms show ?thesis
    using inv_get_or_create [OF assms, of "Some agent" "clk 0"]
    by (auto simp: claim_bounty_def Let_def bounty_ok_def split: option.splits prod.splits
        dest: inv_bountyD intro!: inv_put_bounty)
next
  case (Submit bid agent out)
  with assms show ?thesis
    by (auto simp: submit_work_def bounty_ok_def split: option.splits dest: inv_bountyD
        intro!: inv_put_bounty)
next
  case (Approve bid client)
  with assms show ?thesis
    by (auto simp: approve_bounty_def Let_def bounty_ok_def split: option.splits dest: inv_bountyD
        intro!: inv_put_bounty inv_rate_agent)
next
  case (Dispute bid client)
  with assms show ?thesis
    by (auto simp: dispute_bounty_eq bounty_ok_def put_bounty_def split: option.splits
        dest: inv_bountyD intro!: inv_rate_agent)
      (auto simp: engine_inv_def bounty_ok_def)
next
  case (Summary agent)
  with inv_get_or_create(1) [OF assms, of "Some agent" "clk 0"] show ?thesis
    by (cases "get_or_create_reputation e (Some agent) (clk 0)")
      (simp add: get_agent_reputation_def Let_def)
qed

lemma inv_init [invs]: "engine_inv (new_engine cfg)"
  by (simp add: engine_inv_def new_engine_def)

lemma reach_config: "reach sha cfg e \<Longrightarrow> eng_config e = cfg"
proof (induction rule: reach.induct)
  case (reach_step e clk op e' r)
  then show ?case using exec_config [of sha clk e op] by simp
qed (simp add: new_engine_def)

lemma reach_inv: "reach sha cfg e \<Longrightarrow> engine_inv e"
proof (induction rule: reach.induct)
  case (reach_step e clk op e' r)
  then show ?case using inv_exec [of e sha clk op] by simp
qed (rule inv_init)

subsection \<open>Who may change a bounty\<close>

text \<open>
  The access rule the operations implement: a bounty's record changes only by its creation, by a
  claim while it is open, by a submission of its claimant, and by its client's approval of
  submitted work or dispute.
\<close>

definition authorised :: "engine \<Rightarrow> escrow_op \<Rightarrow> string \<Rightarrow> bool" where
  "authorised e op bid =
     (case op of
        Create uuid _ _ _ _ _ \<Rightarrow> uuid = bid
      | Claim bid' agent \<Rightarrow>
          bid' = bid \<and> (\<exists>b. dict_get (bounties e) bid = Some b \<and> b_state b = OPEN)
      | Submit bid' agent _ \<Rightarrow>
          bid' = bid \<and> (\<exists>b. dict_get (bounties e) bid = Some b \<and> claimed_by b = Some agent)
      | Approve bid' client \<Rightarrow>
          bid' = bid \<and> (\<exists>b. dict_get (bounties e) bid = Some b \<and> client_id b = client
                        \<and> b_state b = SUBMITTED)
      | Dispute bid' client \<Rightarrow>
          bid' = bid \<and> (\<exists>b. dict_get (bounties e) bid = Some b \<and> client_id b = client)
      | Summary _ \<Rightarrow> False)"

lemma get_agent_reputation_bounties [simp]:
  "bounties (fst (get_agent_reputation e agent now)) = bounties e"
  by (cases "get_or_create_reputation e (Some agent) now")
    (use get_or_create_sel(2) [of e "Some agent" now] in \<open>simp add: get_agent_reputation_def Let_def\<close>)

lemma claim_bounty_bounties:
  "bounties (fst (claim_bounty e bid agent now)) =
     (case dict_get (bounties e) bid of
        Some b \<Rightarrow> if snd (claim_bounty e bid agent now)
                  then dict_set bid (b\<lparr>b_state := CLAIMED, claimed_by := Some agent\<rparr>) (bounties e)
                  else bounties e
      | None \<Rightarrow> bounties e)"
  using get_or_create_sel(2) [of e "Some agent" now]
  by (cases "get_or_create_reputation e (Some agent) now")
    (simp add: claim_bounty_def Let_def split: option.split)

lemma exec_unauthorised [frame]:
  assumes "\<not> authorised e op bid"
  shows "dict_get (bounties (fst (exec sha clk e op))) bid = dict_get (bounties e) bid"
proof (cases op)
  case (Claim bid' agent)
  show ?thesis
  proof (cases "bid' = bid")
    case True
    with assms Claim have "snd (claim_bounty e bid agent (clk 0)) = False"
      by (auto simp: authorised_def claim_bounty_def split: option.splits)
    with True Claim show ?thesis by (simp add: claim_bounty_bounties split: option.split)
  next
    case False
    with Claim show ?thesis by (simp add: claim_bounty_bounties split: option.split)
  qed
qed (use assms in \<open>auto simp: authorised_def create_bounty_def submit_work_def approve_bounty_def
      dispute_bounty_eq Let_def split: option.splits\<close>)

subsection \<open>The ledger: every settlement rates exactly one task\<close>

definition tasks_rated :: "engine \<Rightarrow> nat" where
  "tasks_rated e = sum_list (map total_tasks (dict_values (reputations e)))"

definition settles :: "escrow_op \<Rightarrow> bool outcome \<Rightarrow> bool" where
  "settles op r =
     (r = Ret True \<and> (case op of Approve _ _ \<Rightarrow> True | Dispute _ _ \<Rightarrow> True | _ \<Rightarrow> False))"

lemma sum_dict_set:
  fixes f :: "'v \<Rightarrow> nat"
  assumes "wf_dict d"
  shows "sum_list (map f (dict_values (dict_set k v d)))
         + (case dict_get d k of None \<Rightarrow> 0 | Some w \<Rightarrow> f w)
         = sum_list (map f (dict_values d)) + f v"
  using assms
proof (induction k v d rule: dict_set.induct)
  case (2 k v k' v' d)
  have "dict_get d k = None" if "k' = k"
    using "2.prems" that by (simp add: wf_dict_def dict_get_def map_of_eq_None_iff)
  with 2 show ?case by (auto simp: dict_values_def wf_dict_def)
qed (simp add: dict_values_def)

lemma tasks_rated_get_or_create:
  "wf_dict (reputations e) \<Longrightarrow> tasks_rated (fst (get_or_create_reputation e a now)) = tasks_rated e"
  using sum_dict_set [of "reputations e" total_tasks a "new_reputation a now"]
  by (auto simp: get_or_create_eq Let_def tasks_rated_def dict_mem_def new_reputation_def
      split: option.splits)

lemma get_or_create_lookup:
  "dict_get (reputations (fst (get_or_create_reputation e a now))) a =
     Some (snd (get_or_create_reputation e a now))"
  by (auto simp: get_or_create_eq Let_def dict_mem_def split: option.splits)

lemma get_or_create_wf:
  "wf_dict (reputations e) \<Longrightarrow> wf_dict (reputations (fst (get_or_create_reputation e a now)))"
  by (simp add: get_or_create_eq Let_def)

lemma tasks_rated_rate_agent:
  assumes "wf_dict (reputations e)"
  shows "tasks_rated (rate_agent e a s v d clk) = tasks_rated e + 1"
proof -
  obtain e1 r where e1: "get_or_create_reputation e a (clk (Suc 0)) = (e1, r)" by fastforce
  have wf: "wf_dict (reputations e1)" and look: "dict_get (reputations e1) a = Some r"
    using get_or_create_wf [OF assms, of a "clk (Suc 0)"] get_or_create_lookup [of e a "clk (Suc 0)"]
    by (simp_all add: e1)
  have "tasks_rated e1 = tasks_rated e"
    using tasks_rated_get_or_create [OF assms, of a "clk (Suc 0)"] by (simp add: e1)
  then show ?thesis
    using sum_dict_set [OF wf, of total_tasks a "rep_update r s v d (clk 2) (clk 3)"]
    by (simp add: rate_agent_def e1 look tasks_rated_def)
qed

lemma tasks_rated_put_bounty [simp]: "tasks_rated (put_bounty e bid b) = tasks_rated e"
  by (simp add: tasks_rated_def)

lemma tasks_rated_exec:
  assumes "wf_dict (reputations e)" and "exec sha clk e op = (e', r)"
  shows "tasks_rated e' = tasks_rated e + (if settles op r then 1 else 0)"
proof (cases op)
  case (Claim bid agent)
  obtain e1 rep where e1: "get_or_create_reputation e (Some agent) (clk 0) = (e1, rep)" by fastforce
  have "tasks_rated e1 = tasks_rated e"
    using tasks_rated_get_or_create [OF assms(1), of "Some agent" "clk 0"] by (simp add: e1)
  with assms(2) Claim show ?thesis
    by (auto simp: claim_bounty_def e1 settles_def Let_def split: option.splits if_splits)
next
  case (Summary agent)
  obtain e1 rep where e1: "get_or_create_reputation e (Some agent) (clk 0) = (e1, rep)" by fastforce
  have "tasks_rated e1 = tasks_rated e"
    using tasks_rated_get_or_create [OF assms(1), of "Some agent" "clk 0"] by (simp add: e1)
  with assms(2) Summary show ?thesis
    by (auto simp: get_agent_reputation_def e1 settles_def Let_def)
qed (use assms in \<open>auto simp: create_bounty_def submit_work_def approve_bounty_def dispute_bounty_eq
      settles_def Let_def tasks_rated_rate_agent split: option.splits if_splits\<close>)

lemma engine_inv_wf: "engine_inv e \<Longrightarrow> wf_dict (reputations e)"
  by (simp add: engine_inv_def)

fun settlements :: "(escrow_op \<times> (nat \<Rightarrow> pyfloat)) list \<Rightarrow> bool outcome list \<Rightarrow> nat" where
  "settlements ((op, clk) # ops) (r # rs) = (if settles op r then 1 else 0) + settlements ops rs"
| "settlements _ _ = 0"

lemma tasks_rated_run:
  "engine_inv e \<Longrightarrow> run sha e ops = (e', rs) \<Longrightarrow>
   tasks_rated e' = tasks_rated e + settlements ops rs"
proof (induction sha e ops arbitrary: rs rule: run.induct)
  case (2 sha e op clk ops)
  obtain e1 r where e1: "exec sha clk e op = (e1, r)" by fastforce
  obtain e2 rs' where e2: "run sha e1 ops = (e2, rs')" by fastforce
  have "engine_inv e1" using inv_exec [OF "2.prems"(1), of sha clk op] by (simp add: e1)
  moreover have "tasks_rated e1 = tasks_rated e + (if settles op r then 1 else 0)"
    using engine_inv_wf [OF "2.prems"(1)] e1 by (rule tasks_rated_exec)
  ultimately show ?case using 2 e1 e2 by auto
qed simp

subsection \<open>Behaviour at the edges\<close>

lemma claim_depends_on_reputation_only:
  assumes "dict_get (bounties e) bid = Some b" and "b_state b = OPEN"
  shows "snd (claim_bounty e bid agent now) = eligible (snd (get_agent_reputation e agent now))"
  using assms
  by (cases "get_or_create_reputation e (Some agent) now")
    (auto simp: claim_bounty_def get_agent_reputation_def Let_def)

lemma claim_reputation:
  assumes "claim_bounty e bid agent now = (e1, True)"
  shows "reputations e1 = reputations (fst (get_or_create_reputation e (Some agent) now))"
    and "eng_config e1 = eng_config e"
  using assms get_or_create_sel(1) [of e "Some agent" now]
  by (cases "get_or_create_reputation e (Some agent) now",
      auto simp: claim_bounty_def Let_def split: option.splits if_splits)+

lemma eligible_cong:
  assumes "dict_get (reputations e) (Some agent) = dict_get (reputations e') (Some agent)"
    and "eng_config e = eng_config e'"
  shows "eligible (snd (get_agent_reputation e agent now)) =
         eligible (snd (get_agent_reputation e' agent now))"
  using assms by (simp add: get_agent_reputation_def get_or_create_reputation_def Let_def split: option.split)

lemma eligible_new_rep:
  "eligible (snd (get_agent_reputation e agent now)) =
     (min_reputation (eng_config e) \<le>
        calculate_rs (snd (get_or_create_reputation e (Some agent) now))
          (reputation_decay_factor (eng_config e)))"
  by (cases "get_or_create_reputation e (Some agent) now") (simp add: get_agent_reputation_def Let_def)

lemma calculate_rs_new: "calculate_rs (new_reputation a t) d = F (1 / 2)"
  by (simp add: calculate_rs_def new_reputation_def)

text \<open>An agent that has claimed one bounty claims any other open bounty just as well.\<close>

lemma claim_while_active:
  assumes first: "claim_bounty e bid agent now = (e1, True)"
    and other: "bid' \<noteq> bid" "dict_get (bounties e) bid' = Some b" "b_state b = OPEN"
  shows "snd (claim_bounty e1 bid' agent now')"
proof -
  obtain b0 where b0: "dict_get (bounties e) bid = Some b0" "b_state b0 = OPEN"
    using first by (auto simp: claim_bounty_def split: option.splits if_splits)
  have "eligible (snd (get_agent_reputation e agent now))"
    using claim_depends_on_reputation_only [OF b0, of agent now] first by simp
  then have "min_reputation (eng_config e) \<le>
      calculate_rs (snd (get_or_create_reputation e (Some agent) now)) (reputation_decay_factor (eng_config e))"
    by (simp add: eligible_new_rep)
  moreover have "get_or_create_reputation e1 (Some agent) now' =
      (e1, snd (get_or_create_reputation e (Some agent) now))"
    using get_or_create_lookup [of e "Some agent" now] claim_reputation(1) [OF first]
    by (simp add: get_or_create_reputation_def)
  ultimately have "eligible (snd (get_agent_reputation e1 agent now'))"
    by (simp add: eligible_new_rep claim_reputation(2) [OF first])
  moreover have "dict_get (bounties e1) bid' = Some b"
    using claim_bounty_bounties [of e bid agent now] first other b0 by simp
  ultimately show ?thesis using claim_depends_on_reputation_only other(3) by blast
qed

text \<open>A settled bounty takes a new submission from its claimant, and a new approval.\<close>

lemma resettle:
  assumes "dict_get (bounties e) bid = Some b" and "claimed_by b = Some agent"
    and "wf_dict (reputations e)"
  shows "snd (submit_work sha e bid agent out now)"
    and "snd (approve_bounty (fst (submit_work sha e bid agent out now)) bid (client_id b) clk)"
    and "tasks_rated (fst (approve_bounty (fst (submit_work sha e bid agent out now)) bid (client_id b) clk))
         = tasks_rated e + 1"
  using assms by (simp_all add: submit_work_def approve_bounty_def Let_def tasks_rated_rate_agent)

section \<open>Properties\<close>

text \<open>
  C5: In every state the engine can reach, each bounty is filed under its own identifier and its
  fields agree with its state (open bounties are unclaimed, submitted ones have a claimant and a
  deliverable hash, settled ones a settlement time, and no bounty is in progress, under review,
  approved or cancelled). The counters of each reputation are those of its history: its tasks, its
  disputed tasks, and as completed the undisputed tasks with a score of at least 0.8.
\<close>

theorem escrow_reachable_inv: "reach sha cfg e \<Longrightarrow> engine_inv e"
  by (rule reach_inv)

text \<open>
  C10: An operation changes a bounty's record only if it is authorised on it: its creation, a claim
  while it is open, a submission by the agent that holds it, an approval of submitted work or a
  dispute by the client that posted it.
\<close>

theorem escrow_access:
  assumes "exec sha clk e op = (e', r)" and "dict_get (bounties e') bid \<noteq> dict_get (bounties e) bid"
  shows "authorised e op bid"
  using exec_unauthorised [of e op bid sha clk] assms by auto

text \<open>
  C16: The ledger. Over any run from an engine in a reachable state, the number of tasks rated in
  all reputations grows by exactly the number of approvals and disputes that returned True.
\<close>

theorem escrow_ledger:
  assumes "reach sha cfg e" and "run sha e ops = (e', rs)"
  shows "tasks_rated e' = tasks_rated e + settlements ops rs"
  using reach_inv [OF assms(1)] assms(2) by (rule tasks_rated_run)

text \<open>
  C17: The score Rs of every agent in a reachable engine lies between 0 and 1, computed in floating
  point with the rounding to four places, for every non-negative decay factor.
\<close>

theorem escrow_rs_bounds:
  assumes "reach sha cfg e" and "0 \<le> reputation_decay_factor cfg"
  shows "0 \<le> rs_score (snd (get_agent_reputation e agent now))
       \<and> rs_score (snd (get_agent_reputation e agent now)) \<le> 1"
proof -
  obtain e1 r where e1: "get_or_create_reputation e (Some agent) now = (e1, r)" by fastforce
  have "reputation_ok r"
    using inv_get_or_create(3) [OF reach_inv [OF assms(1)], of "Some agent" now] by (simp add: e1)
  then have "scores_in_range r" "0 \<le> score r" "score r \<le> 1"
    by (simp_all add: reputation_ok_def F_mono flip: F_0 F_1)
  from rs_bounds [OF assms(2) this] show ?thesis
    by (simp add: get_agent_reputation_def e1 Let_def reach_config [OF assms(1)])
qed

text \<open>
  A claim succeeds exactly when the bounty exists, is open and the agent's reputation summary
  says the agent is eligible; a claim that fails leaves every bounty as it was.
\<close>

theorem escrow_claim_spec:
  "snd (claim_bounty e bid agent now) =
     ((\<exists>b. dict_get (bounties e) bid = Some b \<and> b_state b = OPEN)
      \<and> eligible (snd (get_agent_reputation e agent now)))
   \<and> (snd (claim_bounty e bid agent now)
       \<or> bounties (fst (claim_bounty e bid agent now)) = bounties e)"
proof -
  have "snd (claim_bounty e bid agent now) =
     ((\<exists>b. dict_get (bounties e) bid = Some b \<and> b_state b = OPEN)
      \<and> eligible (snd (get_agent_reputation e agent now)))"
    using claim_depends_on_reputation_only [of e bid _ agent now]
    by (cases "dict_get (bounties e) bid") (auto simp: claim_bounty_def)
  then show ?thesis
    using claim_bounty_bounties [of e bid agent now] by (auto split: option.splits)
qed

text \<open>
  Improving scores never lowers Rs: if every task of a history is scored at least as high in
  another history of the same length, the rounded floating-point Rs of the second is at least that
  of the first.
\<close>

theorem escrow_rs_mono:
  assumes "0 \<le> d" and "score r = score r'"
    and "\<forall>h \<in> set (history r). 0 \<le> te_score h"
    and "list_all2 (\<lambda>h h'. te_score h \<le> te_score h') (history r) (history r')"
  shows "calculate_rs r d \<le> calculate_rs r' d"
  using assms by (intro rs_mono) (auto dest: list_all2_lengthD)

text \<open>
  The panel's decision is one of the votes cast, no decision has more votes, and it is an
  error (ValueError) exactly when no vote was cast.
\<close>

theorem escrow_consensus_plurality:
  "case winning_decision votes of
     Inl x \<Rightarrow> votes = [] \<and> x = ValueError
   | Inr d \<Rightarrow> d \<in> decision ` set votes \<and> (\<forall>d'. votes_for votes d' \<le> votes_for votes d)"
proof (cases "winning_decision votes")
  case (Inr d)
  then show ?thesis using winning_decision_SomeD [OF Inr] by auto
next
  case (Inl x)
  then show ?thesis using winning_decision_None [of votes x] by simp
qed

text \<open>
  Settlement is not final. The agent that holds a settled bounty can submit again and the
  client's approval then settles it a second time and rates the agent for one more task.
\<close>

theorem escrow_resettle:
  assumes "dict_get (bounties e) bid = Some b" and "b_state b = SETTLED"
    and "claimed_by b = Some agent" and "wf_dict (reputations e)"
    and "exec sha clk e (Submit bid agent out) = (e1, r1)"
    and "exec sha clk' e1 (Approve bid (client_id b)) = (e2, r2)"
  shows "r1 = Ret True \<and> r2 = Ret True \<and> tasks_rated e2 = tasks_rated e + 1"
  using resettle(1) [OF assms(1,3,4), where sha = sha and out = out and now = "clk 0"]
    resettle(2,3) [OF assms(1,3,4), where sha = sha and out = out and now = "clk 0" and clk = clk']
    assms(5,6)
  by (auto simp: map_prod_def split: prod.splits)

section \<open>Witnesses\<close>

text \<open>A complete life of a bounty under the default configuration, with a fixed clock.\<close>

definition demo_ops :: "(escrow_op \<times> (nat \<Rightarrow> pyfloat)) list" where
  "demo_ops =
     map (\<lambda>op. (op, \<lambda>_. 1))
       [Create ''b1'' ''alice'' ''t'' ''d'' (F 50) None, Claim ''b1'' ''bob'',
        Submit ''b1'' ''bob'' ''out'', Approve ''b1'' ''alice'']"

definition demo_engine :: engine where
  "demo_engine = fst (run (\<lambda>s. s) (new_engine default_escrow_config) demo_ops)"

lemma demo_reach: "reach (\<lambda>s. s) default_escrow_config demo_engine"
  unfolding demo_engine_def by (rule run_reach [OF reach_init]) (rule prod.collapse [symmetric])

lemma demo_settled:
  "b_state (the (dict_get (bounties demo_engine) ''b1'')) = SETTLED"
  "claimed_by (the (dict_get (bounties demo_engine) ''b1'')) = Some ''bob''"
  "client_id (the (dict_get (bounties demo_engine) ''b1'')) = ''alice''"
  "dict_mem ''b1'' (bounties demo_engine)"
  by code_simp+

theorem escrow_reachable_inv_witness:
  "engine_inv demo_engine \<and> b_state (the (dict_get (bounties demo_engine) ''b1'')) = SETTLED"
  using escrow_reachable_inv [OF demo_reach] demo_settled(1) by simp

theorem escrow_access_witness:
  "authorised (new_engine default_escrow_config) (Create ''b1'' ''alice'' ''t'' ''d'' (F 50) None) ''b1''"
  by (rule escrow_access [where sha = "\<lambda>s. s" and clk = "\<lambda>_. 1", OF prod.collapse [symmetric]])
    (simp add: create_bounty_def Let_def new_engine_def)

theorem escrow_ledger_witness: "tasks_rated demo_engine = 1"
proof -
  let ?r = "run (\<lambda>s. s) (new_engine default_escrow_config) demo_ops"
  have "?r = (demo_engine, snd ?r)" by (simp add: demo_engine_def)
  from escrow_ledger [OF reach_init this]
  have "tasks_rated demo_engine = tasks_rated (new_engine default_escrow_config) + settlements demo_ops (snd ?r)" .
  moreover have "settlements demo_ops (snd ?r) = 1" by code_simp
  moreover have "tasks_rated (new_engine default_escrow_config) = 0" by code_simp
  ultimately show ?thesis by simp
qed

theorem escrow_rs_bounds_witness:
  "0 \<le> rs_score (snd (get_agent_reputation demo_engine ''bob'' 1))
   \<and> rs_score (snd (get_agent_reputation demo_engine ''bob'' 1)) \<le> 1"
proof -
  have "0 \<le> reputation_decay_factor default_escrow_config" by code_simp
  from escrow_rs_bounds [OF demo_reach this] show ?thesis .
qed

theorem escrow_rs_mono_witness:
  "calculate_rs (rep_update (new_reputation None 1) 0 False True 1 1) (F (95 / 100))
   \<le> calculate_rs (rep_update (new_reputation None 1) 1 True False 1 1) (F (95 / 100))"
  by (rule escrow_rs_mono)
    (simp_all add: rep_update_def new_reputation_def Let_def)

theorem escrow_resettle_witness:
  "\<exists>e1 e2. exec (\<lambda>s. s) (\<lambda>_. 1) demo_engine (Submit ''b1'' ''bob'' ''again'') = (e1, Ret True)
      \<and> exec (\<lambda>s. s) (\<lambda>_. 1) e1 (Approve ''b1'' ''alice'') = (e2, Ret True)
      \<and> tasks_rated e2 = 2"
proof -
  obtain b where b: "dict_get (bounties demo_engine) ''b1'' = Some b"
    using demo_settled(4) by (auto simp: dict_mem_def)
  note s = demo_settled(1-3) [unfolded b option.sel]
  obtain e1 r1 where e1: "exec (\<lambda>s. s) (\<lambda>_. 1) demo_engine (Submit ''b1'' ''bob'' ''again'') = (e1, r1)"
    by fastforce
  obtain e2 r2 where e2: "exec (\<lambda>s. s) (\<lambda>_. 1) e1 (Approve ''b1'' (client_id b)) = (e2, r2)"
    by fastforce
  have wf: "wf_dict (reputations demo_engine)" by (rule engine_inv_wf [OF reach_inv [OF demo_reach]])
  have "tasks_rated demo_engine = 1" by code_simp
  with escrow_resettle [OF b s(1,2) wf e1 e2] e1 e2 s(3) show ?thesis by simp
qed

end
