(* ===== verification/AuditLog.thy ===== *)
theory AuditLog
  imports PyJson Utils
begin

text \<open>
  The tamper-evident audit log: \<open>src/core/security/audit.py\<close>.

  SHA-256 is the parameter \<open>H\<close>, from the bytes hashed to the hexadecimal digest; no property of
  it is assumed, and a theorem that rests on collision resistance names the two colliding inputs
  instead. Entries read from a file are dynamically typed, so the fields of an entry are \<open>json\<close>
  values, apart from the two hashes, which every entry of a log has as strings (the import
  compares them with strings before it appends).

  The file system of the exports and the import is a dictionary from resolved paths to text;
  \<open>rp\<close> is \<open>os.path.realpath\<close>. Writing never fails in the model. Clock readings are arguments.
  A line whose values the model cannot hold (\<open>foreign\<close> in \<open>PyJson\<close>) ends an import as a malformed
  line does; an export never writes one.

  Groups: entries and the log; chain verification; Merkle tree; queries; files; statistics. The
  locale \<open>hash_chain\<close> is what makes a list of hashed entries tamper-evident, the locale
  \<open>merkle_node\<close> what makes a Merkle tree binding; both are interpreted on the model's hashing.
\<close>

section \<open>Entries and the log\<close>


record AuditEntry =
  timestamp :: json
  category :: json
  severity :: json
  event :: json
  agent_id :: json
  task_id :: json
  details :: json
  prev_hash :: string
  entry_hash :: string
  sequence :: json

definition hash_content :: "AuditEntry \<Rightarrow> json" where
  "hash_content e =
     JObj [(''timestamp'', timestamp e), (''category'', category e), (''severity'', severity e),
           (''event'', event e), (''agent_id'', agent_id e), (''task_id'', task_id e),
           (''details'', details e), (''prev_hash'', JStr (prev_hash e))]"

definition hash_input :: "AuditEntry \<Rightarrow> string" where
  "hash_input e = py_encode (dumps '','' '':'' (canon (hash_content e)))"

definition compute_hash :: "hash_fun \<Rightarrow> AuditEntry \<Rightarrow> string" where
  "compute_hash H e = H (hash_input e)"

definition seal :: "hash_fun \<Rightarrow> AuditEntry \<Rightarrow> AuditEntry" where
  "seal H e = e\<lparr>entry_hash := compute_hash H e\<rparr>"

definition to_dict :: "AuditEntry \<Rightarrow> json" where
  "to_dict e =
     JObj [(''timestamp'', timestamp e), (''category'', category e), (''severity'', severity e),
           (''event'', event e), (''agent_id'', agent_id e), (''task_id'', task_id e),
           (''details'', details e), (''prev_hash'', JStr (prev_hash e)),
           (''entry_hash'', JStr (entry_hash e)), (''sequence'', sequence e)]"

definition to_json :: "AuditEntry \<Rightarrow> string" where
  "to_json e = dumps '', '' '': '' (to_dict e)"

record audit_log =
  log_id :: string
  audit_dir :: string
  entries :: "AuditEntry list"
  index :: "(int, nat) dict"
  has_callback :: bool
  dirty :: bool

definition GENESIS_HASH :: string where
  "GENESIS_HASH = concat (replicate 4 ''GENESIS'')"

definition new_log :: "hash_fun \<Rightarrow> pyfloat \<Rightarrow> string option \<Rightarrow> string \<Rightarrow> bool \<Rightarrow> audit_log" where
  "new_log H now lid dir cb =
     \<lparr>log_id = (case lid of Some s \<Rightarrow> if s \<noteq> [] then s else take 12 (H (py_encode (repr_float now)))
                | None \<Rightarrow> take 12 (H (py_encode (repr_float now)))),
      audit_dir = dir, entries = [], index = [], has_callback = cb, dirty = False\<rparr>"

definition last_hash :: "audit_log \<Rightarrow> string" where
  "last_hash l = (if entries l = [] then GENESIS_HASH else entry_hash (last (entries l)))"

datatype AuditCategory =
    CONTAINER_LIFECYCLE | NETWORK_EGRESS | AGENT_COMMAND | SECURITY_VIOLATION | ESCROW_EVENT
  | ACCESS_CONTROL | INTEGRITY_CHECK

fun category_value :: "AuditCategory \<Rightarrow> string" where
  "category_value CONTAINER_LIFECYCLE = ''container_lifecycle''"
| "category_value NETWORK_EGRESS = ''network_egress''"
| "category_value AGENT_COMMAND = ''agent_command''"
| "category_value SECURITY_VIOLATION = ''security_violation''"
| "category_value ESCROW_EVENT = ''escrow_event''"
| "category_value ACCESS_CONTROL = ''access_control''"
| "category_value INTEGRITY_CHECK = ''integrity_check''"

definition CRITICAL :: string where
  "CRITICAL = ''critical''"

text \<open>
  \<open>record\<close>: the new log, the entry, and whether the alert callback is called with it (an exception
  of the callback is swallowed, and the log is complete before the call).
\<close>

definition record_entry ::
    "hash_fun \<Rightarrow> audit_log \<Rightarrow> pyfloat \<Rightarrow> string \<Rightarrow> string \<Rightarrow> string \<Rightarrow> json \<Rightarrow> json \<Rightarrow> json
      \<Rightarrow> audit_log \<times> AuditEntry \<times> bool" where
  "record_entry H l now cat sev ev agent task dets =
     (let sq = int (length (entries l)) + 1;
          entry = seal H
            \<lparr>timestamp = JFloat now, category = JStr cat, severity = JStr sev, event = JStr ev,
             agent_id = agent, task_id = task,
             details = (if truthy dets then dets else JObj []),
             prev_hash = last_hash l, entry_hash = [], sequence = JInt sq\<rparr>;
          es = entries l @ [entry]
      in (l\<lparr>entries := es, index := dict_set sq (length es - 1) (index l), dirty := True\<rparr>,
          entry, sev = CRITICAL \<and> has_callback l))"

section \<open>Chain verification\<close>

record chain_report =
  valid :: bool
  broken_at :: "json option"
  reason :: string

definition eq_int :: "json \<Rightarrow> int \<Rightarrow> bool" where
  "eq_int j n = (json_num j = Some (of_int n))"

fun verify_from :: "hash_fun \<Rightarrow> string \<Rightarrow> nat \<Rightarrow> AuditEntry list \<Rightarrow> chain_report" where
  "verify_from H prev i [] =
     \<lparr>valid = True, broken_at = None, reason = ''Chain integrity verified''\<rparr>"
| "verify_from H prev i (e # es) =
     (if \<not> eq_int (sequence e) (int i + 1) then
        \<lparr>valid = False, broken_at = Some (sequence e),
         reason = ''Sequence gap: expected '' @ show_dec (int i + 1) @ '', got '' @ py_str (sequence e)\<rparr>
      else if prev_hash e \<noteq> prev then
        \<lparr>valid = False, broken_at = Some (sequence e),
         reason = ''Chain broken at entry '' @ py_str (sequence e) @ '': prev_hash mismatch (expected ''
           @ take 16 prev @ ''..., got '' @ take 16 (prev_hash e) @ ''...)''\<rparr>
      else if entry_hash e \<noteq> compute_hash H e then
        \<lparr>valid = False, broken_at = Some (sequence e),
         reason = ''Hash mismatch at entry '' @ py_str (sequence e) @ '': entry was modified after sealing''\<rparr>
      else verify_from H (entry_hash e) (Suc i) es)"

definition verify_chain :: "hash_fun \<Rightarrow> audit_log \<Rightarrow> chain_report" where
  "verify_chain H l = verify_from H GENESIS_HASH 0 (entries l)"

section \<open>Merkle tree\<close>

definition hash_pair :: "hash_fun \<Rightarrow> string \<Rightarrow> string \<Rightarrow> string" where
  "hash_pair H a b = H (py_encode (a @ b))"

text \<open>One round of the loops: pad an odd level with its last element, then hash the pairs.\<close>

definition pad_level :: "string list \<Rightarrow> string list" where
  "pad_level l = (if odd (length l) then l @ [last l] else l)"

fun pair_up :: "(string \<Rightarrow> string \<Rightarrow> string) \<Rightarrow> string list \<Rightarrow> string list" where
  "pair_up f (a # b # l) = f a b # pair_up f l"
| "pair_up f _ = []"

lemma pair_up_length: "length (pair_up f l) = length l div 2"
  by (induction f l rule: pair_up.induct) auto

lemma level_shrinks: "1 < length l \<Longrightarrow> length (pair_up f (pad_level l)) < length l"
  by (auto simp: pair_up_length pad_level_def elim!: oddE)

function merkle_up :: "(string \<Rightarrow> string \<Rightarrow> string) \<Rightarrow> string list \<Rightarrow> string" where
  "merkle_up f level =
     (if length level \<le> 1 then hd level else merkle_up f (pair_up f (pad_level level)))"
  by pat_completeness auto
termination
  by (relation "measure (\<lambda>(f, l). length l)") (auto intro!: level_shrinks)

declare merkle_up.simps [simp del]

definition merkle_root_of :: "hash_fun \<Rightarrow> string list \<Rightarrow> string" where
  "merkle_root_of H leaves = (if leaves = [] then H ''EMPTY_LOG'' else merkle_up (hash_pair H) leaves)"

definition compute_merkle_root :: "hash_fun \<Rightarrow> audit_log \<Rightarrow> string" where
  "compute_merkle_root H l =
     (if entries l = [] then H ''EMPTY_LOG'' else merkle_root_of H (map entry_hash (entries l)))"

definition sibling :: "nat \<Rightarrow> nat" where
  "sibling i = (if even i then i + 1 else i - 1)"

function proof_up :: "(string \<Rightarrow> string \<Rightarrow> string) \<Rightarrow> nat \<Rightarrow> string list \<Rightarrow> string list" where
  "proof_up f i level =
     (if length level \<le> 1 then []
      else let padded = pad_level level;
               here = (if sibling i < length padded then [padded ! sibling i] else [])
           in here @ proof_up f (i div 2) (pair_up f padded))"
  by pat_completeness auto
termination
  by (relation "measure (\<lambda>(f, i, l). length l)") (auto intro!: level_shrinks)

declare proof_up.simps [simp del]

definition compute_merkle_proof :: "hash_fun \<Rightarrow> audit_log \<Rightarrow> int \<Rightarrow> string list" where
  "compute_merkle_proof H l sq =
     (if entries l = [] then []
      else if sq - 1 < 0 \<or> int (length (entries l)) \<le> sq - 1 then []
      else proof_up (hash_pair H) (nat (sq - 1)) (map entry_hash (entries l)))"

record merkle_report =
  m_valid :: bool
  merkle_root :: string
  entry_count :: nat
  m_reason :: "string option"

definition verify_merkle :: "hash_fun \<Rightarrow> audit_log \<Rightarrow> string option \<Rightarrow> merkle_report" where
  "verify_merkle H l expected =
     (let root = compute_merkle_root H l;
          ok = \<lparr>m_valid = True, merkle_root = root, entry_count = length (entries l), m_reason = None\<rparr>
      in case expected of None \<Rightarrow> ok
         | Some x \<Rightarrow>
             if x \<noteq> [] \<and> root \<noteq> x
             then ok\<lparr>m_valid := False,
                     m_reason := Some (''Merkle root mismatch: expected '' @ take 16 x @ ''..., got ''
                                       @ take 16 root @ ''...'')\<rparr>
             else ok)"

section \<open>Queries\<close>

record query_args =
  q_category :: "string option"
  q_severity :: "string option"
  q_agent_id :: "string option"
  q_event_contains :: "string option"
  q_since :: "pyfloat option"
  q_until :: "pyfloat option"
  q_limit :: int
  q_offset :: int
  q_sort_order :: string

definition default_query :: query_args where
  "default_query = \<lparr>q_category = None, q_severity = None, q_agent_id = None, q_event_contains = None,
     q_since = None, q_until = None, q_limit = 100, q_offset = 0, q_sort_order = ''desc''\<rparr>"

text \<open>An optional string argument filters unless it is \<open>None\<close> or empty; a time unless \<open>None\<close> or 0.0.\<close>

definition given :: "string option \<Rightarrow> bool" where
  "given s = (case s of None \<Rightarrow> False | Some t \<Rightarrow> t \<noteq> [])"

definition given_time :: "pyfloat option \<Rightarrow> bool" where
  "given_time t = (case t of None \<Rightarrow> False | Some x \<Rightarrow> x \<noteq> 0)"

datatype verdict = Take | Skip | Stop

text \<open>The tests of one iteration, in the order of the code.\<close>

definition time_test :: "query_args \<Rightarrow> AuditEntry \<Rightarrow> verdict outcome" where
  "time_test q e =
     (if given_time (q_since q) \<and> json_num (timestamp e) = None then Raise TypeError
      else if given_time (q_since q) \<and> the (json_num (timestamp e)) < rat_of (the (q_since q))
      then (if q_sort_order q = ''asc'' then Ret Skip else Ret Stop)
      else if given_time (q_until q) \<and> json_num (timestamp e) = None then Raise TypeError
      else if given_time (q_until q) \<and> rat_of (the (q_until q)) < the (json_num (timestamp e))
      then (if q_sort_order q = ''desc'' then Ret Skip else Ret Stop)
      else Ret Take)"

definition query_test :: "query_args \<Rightarrow> AuditEntry \<Rightarrow> verdict outcome" where
  "query_test q e =
     (if given (q_category q) \<and> category e \<noteq> JStr (the (q_category q)) then Ret Skip
      else if given (q_severity q) \<and> severity e \<noteq> JStr (the (q_severity q)) then Ret Skip
      else if given (q_agent_id q) \<and> agent_id e \<noteq> JStr (the (q_agent_id q)) then Ret Skip
      else if given (q_event_contains q) then
        (case event e of
           JStr s \<Rightarrow> if substring (py_lower (the (q_event_contains q))) (py_lower s)
                     then time_test q e else Ret Skip
         | _ \<Rightarrow> Raise AttributeError)
      else time_test q e)"

fun query_loop :: "query_args \<Rightarrow> AuditEntry list \<Rightarrow> int \<Rightarrow> AuditEntry list \<Rightarrow> AuditEntry list outcome" where
  "query_loop q [] skipped results = Ret results"
| "query_loop q (e # es) skipped results =
     (if q_limit q \<le> int (length results) then Ret results
      else case query_test q e of
          Inl x \<Rightarrow> Raise x
        | Inr Stop \<Rightarrow> Ret results
        | Inr Skip \<Rightarrow> query_loop q es skipped results
        | Inr Take \<Rightarrow>
            if skipped < q_offset q then query_loop q es (skipped + 1) results
            else query_loop q es skipped (results @ [e]))"

definition query :: "audit_log \<Rightarrow> query_args \<Rightarrow> json list outcome" where
  "query l q =
     (case query_loop q (if q_sort_order q = ''asc'' then entries l else rev (entries l)) 0 [] of
        Inl x \<Rightarrow> Raise x
      | Inr es \<Rightarrow> Ret (map to_dict es))"

definition get_critical_events :: "audit_log \<Rightarrow> int \<Rightarrow> json list outcome" where
  "get_critical_events l limit =
     query l (default_query\<lparr>q_severity := Some CRITICAL, q_limit := limit\<rparr>)"

definition get_recent :: "audit_log \<Rightarrow> pyfloat \<Rightarrow> pyfloat \<Rightarrow> int \<Rightarrow> json list outcome" where
  "get_recent l now seconds limit =
     query l (default_query\<lparr>q_since := Some (now - seconds), q_limit := limit\<rparr>)"

section \<open>Files\<close>

type_synonym files = "(string, string) dict"

text \<open>One line of the file per entry.\<close>

definition jsonl :: "AuditEntry list \<Rightarrow> string" where
  "jsonl es = concat (map (\<lambda>e. to_json e @ [CHR 0x0A]) es)"

definition append_file :: "string \<Rightarrow> string \<Rightarrow> files \<Rightarrow> files" where
  "append_file p s fs = dict_set p (case dict_get fs p of None \<Rightarrow> s | Some old \<Rightarrow> old @ s) fs"

definition export_jsonl ::
    "(string \<Rightarrow> string) \<Rightarrow> audit_log \<Rightarrow> files \<Rightarrow> string \<Rightarrow> string \<Rightarrow> audit_log \<times> files \<times> unit outcome" where
  "export_jsonl rp l fs path mode =
     (case validate_path rp (\<lambda>p. dict_mem p fs) (audit_dir l) path True of
        Inl x \<Rightarrow> (l, fs, Raise x)
      | Inr vp \<Rightarrow>
          (l\<lparr>dirty := False\<rparr>,
           (if mode = ''a''
            then (if entries l = [] then fs else append_file vp (jsonl [last (entries l)]) fs)
            else dict_set vp (jsonl (entries l)) fs),
           Ret ()))"

text \<open>
  \<open>int(text)\<close>: surrounding blanks, a sign, and groups of digits joined by single underscores;
  more than 4300 digits are refused, as the interpreter does.
\<close>

definition parse_int :: "string \<Rightarrow> int option" where
  "parse_int s =
     (let t = py_strip s;
          neg = (t \<noteq> [] \<and> hd t = CHR ''-'');
          body = (if t \<noteq> [] \<and> (hd t = CHR ''-'' \<or> hd t = CHR ''+'') then tl t else t);
          groups = split_on CHR ''_'' body;
          ds = concat groups
      in if list_all (\<lambda>g. g \<noteq> [] \<and> list_all is_digit g) groups \<and> length ds \<le> 4300
         then Some (if neg then - dval ds else dval ds) else None)"

definition tracker_of :: "string \<Rightarrow> string" where
  "tracker_of path = path @ ''.seq''"

definition last_exported :: "(string \<Rightarrow> string) \<Rightarrow> files \<Rightarrow> string \<Rightarrow> int" where
  "last_exported rp fs path =
     (case dict_get fs (rp (tracker_of path)) of
        None \<Rightarrow> 0
      | Some s \<Rightarrow> (case parse_int s of None \<Rightarrow> 0 | Some n \<Rightarrow> n))"

definition export_incremental ::
    "(string \<Rightarrow> string) \<Rightarrow> audit_log \<Rightarrow> files \<Rightarrow> string \<Rightarrow> files \<times> unit outcome" where
  "export_incremental rp l fs path =
     (if \<exists>e \<in> set (entries l). json_num (sequence e) = None then (fs, Raise TypeError)
      else
        let seen = last_exported rp fs path;
            new = filter (\<lambda>e. of_int seen < the (json_num (sequence e))) (entries l)
        in if new = [] then (fs, Ret ())
           else case validate_path rp (\<lambda>p. dict_mem p fs) (audit_dir l) path True of
               Inl x \<Rightarrow> (fs, Raise x)
             | Inr vp \<Rightarrow>
                 (dict_set (rp (tracker_of path)) (py_str (sequence (last (entries l))))
                    (append_file vp (jsonl new) fs),
                  Ret ()))"

definition required_fields :: "string list" where
  "required_fields = [''timestamp'', ''category'', ''severity'', ''event'', ''prev_hash'', ''entry_hash'', ''sequence'']"

definition is_obj :: "json \<Rightarrow> bool" where
  "is_obj j = (case j of JObj _ \<Rightarrow> True | _ \<Rightarrow> False)"

text \<open>One line of an import: \<open>None\<close> where the code returns False (or an exception makes it).\<close>

definition import_entry :: "hash_fun \<Rightarrow> audit_log \<Rightarrow> (string, json) dict \<Rightarrow> audit_log option" where
  "import_entry H l d =
     (let fld = (\<lambda>k. the (dict_get d k));
          opt = (\<lambda>k dflt. case dict_get d k of None \<Rightarrow> dflt | Some v \<Rightarrow> v);
          dets = opt ''details'' (JObj [])
      in if \<not> list_all (\<lambda>k. dict_mem k d) required_fields then None
         else if is_obj dets \<and> 10000 < length (py_str dets) then None
         else if \<not> eq_int (fld ''sequence'') (int (length (entries l)) + 1) then None
         else if fld ''prev_hash'' \<noteq> JStr (last_hash l) then None
         else
           let e = \<lparr>timestamp = fld ''timestamp'', category = fld ''category'',
                    severity = fld ''severity'', event = fld ''event'',
                    agent_id = opt ''agent_id'' JNull, task_id = opt ''task_id'' JNull,
                    details = dets, prev_hash = last_hash l, entry_hash = [],
                    sequence = fld ''sequence''\<rparr>;
               e' = e\<lparr>entry_hash := compute_hash H e\<rparr>
           in if fld ''entry_hash'' \<noteq> JStr (compute_hash H e) then None
              else Some (l\<lparr>entries := entries l @ [e'],
                           index := dict_set (int (length (entries l)) + 1) (length (entries l)) (index l)\<rparr>))"

definition import_line :: "hash_fun \<Rightarrow> audit_log \<Rightarrow> string \<Rightarrow> audit_log option" where
  "import_line H l line =
     (let s = py_strip line
      in if s = [] then Some l
         else case loads s of
             Some (JObj d) \<Rightarrow> import_entry H l d
           | _ \<Rightarrow> None)"

text \<open>The loop stops at the first bad line; the entries appended before it stay.\<close>

fun import_lines :: "hash_fun \<Rightarrow> audit_log \<Rightarrow> string list \<Rightarrow> audit_log \<times> bool" where
  "import_lines H l [] = (l, True)"
| "import_lines H l (x # xs) =
     (case import_line H l x of None \<Rightarrow> (l, False) | Some l' \<Rightarrow> import_lines H l' xs)"

text \<open>Text mode ends a line at a newline or a carriage return; blank lines are skipped anyway.\<close>

definition file_lines :: "string \<Rightarrow> string list" where
  "file_lines s = split_on CHR 0x0A (map (\<lambda>c. if c = CHR 0x0D then CHR 0x0A else c) s)"

definition import_jsonl ::
    "hash_fun \<Rightarrow> (string \<Rightarrow> string) \<Rightarrow> audit_log \<Rightarrow> files \<Rightarrow> string \<Rightarrow> audit_log \<times> bool" where
  "import_jsonl H rp l fs path =
     (case validate_path rp (\<lambda>p. dict_mem p fs) (audit_dir l) path False of
        Inl _ \<Rightarrow> (l, False)
      | Inr vp \<Rightarrow>
          (case dict_get fs vp of
             None \<Rightarrow> (l, False)
           | Some text \<Rightarrow>
               (case import_lines H l (file_lines text) of
                  (l', False) \<Rightarrow> (l', False)
                | (l', True) \<Rightarrow>
                    if valid (verify_chain H l') then (l', True)
                    else (l'\<lparr>entries := [], index := []\<rparr>, False))))"

section \<open>Statistics\<close>

text \<open>Dictionary keys are compared as Python compares them: numbers and bools by value.\<close>

definition hashable :: "json \<Rightarrow> bool" where
  "hashable j = (case j of JList _ \<Rightarrow> False | JObj _ \<Rightarrow> False | _ \<Rightarrow> True)"

definition py_eq :: "json \<Rightarrow> json \<Rightarrow> bool" where
  "py_eq a b = (if json_num a = None \<and> json_num b = None then a = b else json_num a = json_num b)"

fun bump :: "json \<Rightarrow> (json \<times> int) list \<Rightarrow> (json \<times> int) list" where
  "bump k [] = [(k, 1)]"
| "bump k ((k', n) # d) = (if py_eq k' k then (k', n + 1) # d else (k', n) # bump k d)"

definition tally_of :: "json list \<Rightarrow> (json \<times> int) list" where
  "tally_of ks = foldl (\<lambda>d k. bump k d) [] ks"

definition top10 :: "(json \<times> int) list \<Rightarrow> (json \<times> int) list" where
  "top10 d = take 10 (sort_key (\<lambda>x. - snd x) d)"

text \<open>\<open>(last - first) / 3600\<close>: exact for two integers, in floats otherwise.\<close>

definition hours_between :: "json \<Rightarrow> json \<Rightarrow> pyfloat outcome" where
  "hours_between a b =
     (case (json_num a, json_num b) of
        (Some x, Some y) \<Rightarrow>
          (let is_float = (\<lambda>j. case j of JFloat _ \<Rightarrow> True | _ \<Rightarrow> False)
           in if is_float a \<or> is_float b then Ret (fdiv (F y - F x) (F 3600))
              else Ret (F ((y - x) / 3600)))
      | _ \<Rightarrow> Raise TypeError)"

record audit_stats =
  s_total :: nat
  s_categories :: "(json \<times> int) list"
  s_severities :: "(json \<times> int) list"
  s_top_events :: "(json \<times> int) list"
  s_top_agents :: "(json \<times> int) list"
  s_merkle_root :: string
  s_first :: json
  s_last :: json
  s_duration_hours :: pyfloat

text \<open>\<open>None\<close> is the short answer \<open>{"total": 0}\<close> of an empty log.\<close>

definition statistics :: "hash_fun \<Rightarrow> audit_log \<Rightarrow> audit_stats option outcome" where
  "statistics H l =
     (let es = entries l;
          agents = filter truthy (map agent_id es)
      in if es = [] then Ret None
         else if \<not> list_all hashable (map category es @ map severity es @ map event es @ agents)
         then Raise TypeError
         else case hours_between (timestamp (hd es)) (timestamp (last es)) of
             Inl x \<Rightarrow> Raise x
           | Inr d \<Rightarrow> Ret (Some
               \<lparr>s_total = length es, s_categories = tally_of (map category es),
                s_severities = tally_of (map severity es), s_top_events = top10 (tally_of (map event es)),
                s_top_agents = top10 (tally_of agents), s_merkle_root = compute_merkle_root H l,
                s_first = timestamp (hd es), s_last = timestamp (last es),
                s_duration_hours = py_round 2 d\<rparr>))"

text \<open>
  \<open>export_json\<close>: one document, written to the path as given. \<open>json.dump\<close> writes a key that is no
  string by its JSON text.
\<close>

definition json_key :: "json \<Rightarrow> string" where
  "json_key j = (case j of JStr s \<Rightarrow> s | _ \<Rightarrow> dumps '', '' '': '' j)"

definition counts_json :: "(json \<times> int) list \<Rightarrow> json" where
  "counts_json d = JObj (map (\<lambda>(key, n). (json_key key, JInt n)) d)"

definition stats_json :: "audit_stats option \<Rightarrow> json" where
  "stats_json s =
     (case s of
        None \<Rightarrow> JObj [(''total'', JInt 0)]
      | Some a \<Rightarrow>
          JObj [(''total'', JInt (int (s_total a))), (''categories'', counts_json (s_categories a)),
                (''severities'', counts_json (s_severities a)), (''top_events'', counts_json (s_top_events a)),
                (''top_agents'', counts_json (s_top_agents a)), (''merkle_root'', JStr (s_merkle_root a)),
                (''time_range'', JObj [(''first'', s_first a), (''last'', s_last a), (''duration_hours'', JFloat (s_duration_hours a))])])"

definition export_json :: "hash_fun \<Rightarrow> (string \<Rightarrow> string) \<Rightarrow> audit_log \<Rightarrow> files \<Rightarrow> string \<Rightarrow> bool \<Rightarrow> files \<times> unit outcome" where
  "export_json H rp l fs path include_merkle =
     (case statistics H l of
        Inl x \<Rightarrow> (fs, Raise x)
      | Inr st \<Rightarrow>
          (let doc = JObj ([(''log_id'', JStr (log_id l)), (''entries'', JList (map to_dict (entries l))), (''statistics'', stats_json st)]
                 @ (if include_merkle then [(''merkle_root'', JStr (compute_merkle_root H l))] else []))
           in (dict_set (rp path) (dumps_indent 2 0 doc) fs, Ret ())))"

definition critical_rate :: "audit_log \<Rightarrow> pyfloat \<Rightarrow> pyfloat \<Rightarrow> pyfloat outcome" where
  "critical_rate l now window =
     (case get_critical_events l 10000 of
        Inl x \<Rightarrow> Raise x
      | Inr evs \<Rightarrow>
          (let ts = map (\<lambda>e. case e of JObj d \<Rightarrow> (case dict_get d ''timestamp'' of None \<Rightarrow> JNull | Some t \<Rightarrow> t)
                              | _ \<Rightarrow> JNull) evs
           in if list_ex (\<lambda>t. json_num t = None) ts then Raise TypeError
              else if fdiv window (F 3600) = 0 then Raise ZeroDivisionError
              else Ret (py_round 2
                (fdiv (F (of_nat (length (filter (\<lambda>t. rat_of (now - window) \<le> the (json_num t)) ts))))
                      (fdiv window (F 3600))))))"

section \<open>Hash chains\<close>

text \<open>
  What makes a chain tamper-evident: the input that is hashed commits to the previous hash. \<open>H\<close> is
  any function; \<open>collides xs ys\<close> exhibits a collision of \<open>H\<close> among the inputs of the two chains.
\<close>

fun chained :: "('e \<Rightarrow> 'p) \<Rightarrow> ('e \<Rightarrow> 'h) \<Rightarrow> ('e \<Rightarrow> 'h) \<Rightarrow> ('p \<Rightarrow> 'h) \<Rightarrow> 'h \<Rightarrow> 'e list \<Rightarrow> bool" where
  "chained inp prv hsh H g [] = True"
| "chained inp prv hsh H g (e # es) =
     (prv e = g \<and> hsh e = H (inp e) \<and> chained inp prv hsh H (hsh e) es)"

definition tip :: "('e \<Rightarrow> 'h) \<Rightarrow> 'h \<Rightarrow> 'e list \<Rightarrow> 'h" where
  "tip hsh g es = (if es = [] then g else hsh (last es))"

definition collides :: "('e \<Rightarrow> 'p) \<Rightarrow> ('p \<Rightarrow> 'h) \<Rightarrow> 'e list \<Rightarrow> 'e list \<Rightarrow> bool" where
  "collides inp H xs ys = (\<exists>a \<in> set xs. \<exists>b \<in> set ys. inp a \<noteq> inp b \<and> H (inp a) = H (inp b))"

locale hash_chain =
  fixes inp :: "'e \<Rightarrow> 'p" and prv :: "'e \<Rightarrow> 'h" and hsh :: "'e \<Rightarrow> 'h"
  assumes inp_prv: "inp a = inp b \<Longrightarrow> prv a = prv b"
begin

lemma tip_Nil [simp]: "tip hsh g [] = g"
  by (simp add: tip_def)

lemma tip_Cons [simp]: "tip hsh g (e # es) = tip hsh (hsh e) es"
  by (simp add: tip_def)

lemma tip_snoc [simp]: "tip hsh g (es @ [e]) = hsh e"
  by (simp add: tip_def)

lemma chained_append:
  "chained inp prv hsh H g (xs @ ys) \<longleftrightarrow>
     chained inp prv hsh H g xs \<and> chained inp prv hsh H (tip hsh g xs) ys"
  by (induction xs arbitrary: g) auto

lemma pinned:
  assumes "\<not> collides inp H xs ys" and "\<And>p. H p \<noteq> g"
    and "chained inp prv hsh H g xs" and "chained inp prv hsh H g ys"
    and "tip hsh g xs = tip hsh g ys"
  shows "map inp xs = map inp ys"
  using assms
proof (induction xs arbitrary: ys rule: rev_induct)
  case Nil
  then show ?case
    by (cases ys rule: rev_cases) (auto simp: chained_append)
next
  case (snoc x xs)
  note c = snoc.prems
  have x: "hsh x = H (inp x)" "prv x = tip hsh g xs" using c(3) by (auto simp: chained_append)
  with c(2,5) have "ys \<noteq> []" by (auto simp: tip_def)
  then obtain zs y where ys: "ys = zs @ [y]" by (cases ys rule: rev_cases) auto
  have y: "hsh y = H (inp y)" "prv y = tip hsh g zs" using c(4) ys by (auto simp: chained_append)
  have "inp x = inp y" using c(1,5) x y ys by (auto simp: collides_def)
  moreover from this have "tip hsh g xs = tip hsh g zs" using inp_prv x y by metis
  then have "map inp xs = map inp zs"
    using c ys by (intro snoc.IH) (auto simp: chained_append collides_def)
  ultimately show ?case by (simp add: ys)
qed

text \<open>A change of one entry that is not the last breaks the chain, unless it collides.\<close>

lemma edit_breaks:
  assumes "chained inp prv hsh H g es" and "Suc i < length es" and "inp e \<noteq> inp (es ! i)"
    and "chained inp prv hsh H g (es[i := e])"
  shows "H (inp e) = H (inp (es ! i))"
proof -
  have split: "es = take i es @ es ! i # drop (Suc i) es"
    using assms(2) by (simp add: id_take_nth_drop [symmetric])
  have split': "es[i := e] = take i es @ e # drop (Suc i) es"
    using assms(2) by (simp add: upd_conv_take_nth_drop)
  obtain d ds where d: "drop (Suc i) es = d # ds" using assms(2) by (metis Cons_nth_drop_Suc)
  have "prv d = hsh (es ! i)" "hsh (es ! i) = H (inp (es ! i))"
    using assms(1) by (subst (asm) split, simp add: chained_append d)+
  moreover have "prv d = hsh e" "hsh e = H (inp e)"
    using assms(4) by (simp_all add: split' chained_append d)
  ultimately show ?thesis by simp
qed

end

subsection \<open>The model's hashing is a chain\<close>

lemma canon_content:
  "canon (hash_content e) =
     JObj [(''agent_id'', canon (agent_id e)), (''category'', canon (category e)),
           (''details'', canon (details e)), (''event'', canon (event e)),
           (''prev_hash'', JStr (prev_hash e)), (''severity'', canon (severity e)),
           (''task_id'', canon (task_id e)), (''timestamp'', canon (timestamp e))]"
  by (simp add: hash_content_def sort_key_def less_eq_char_def less_char_def)

lemma wf_sep_plain [simp]: "wf_sep '','' '':''" "wf_sep '', '' '': ''"
  by (simp_all add: wf_sep_def is_ws_def)

lemma hash_input_iff:
  "hash_input a = hash_input b \<longleftrightarrow> canon (hash_content a) = canon (hash_content b)"
  unfolding hash_input_def using py_encode_inj dumps_inj [of "'',''" "'':''"] by fastforce

interpretation sealed: hash_chain hash_input prev_hash entry_hash
  by unfold_locales (simp add: hash_input_iff canon_content)

abbreviation chain_ok :: "hash_fun \<Rightarrow> string \<Rightarrow> AuditEntry list \<Rightarrow> bool" where
  "chain_ok H \<equiv> chained hash_input prev_hash entry_hash H"

fun numbered :: "nat \<Rightarrow> AuditEntry list \<Rightarrow> bool" where
  "numbered i [] = True"
| "numbered i (e # es) = (eq_int (sequence e) (int i + 1) \<and> numbered (Suc i) es)"

lemma numbered_append: "numbered i (xs @ ys) \<longleftrightarrow> numbered i xs \<and> numbered (i + length xs) ys"
  by (induction xs arbitrary: i) auto

lemma verify_from_iff: "valid (verify_from H g i es) \<longleftrightarrow> chain_ok H g es \<and> numbered i es"
  by (induction H g i es rule: verify_from.induct) (auto simp: compute_hash_def)

lemma verify_chain_iff:
  "valid (verify_chain H l) \<longleftrightarrow> chain_ok H GENESIS_HASH (entries l) \<and> numbered 0 (entries l)"
  by (simp add: verify_chain_def verify_from_iff)

lemma last_hash_tip: "last_hash l = tip entry_hash GENESIS_HASH (entries l)"
  by (simp add: last_hash_def tip_def)

lemma chain_ok_snoc:
  "chain_ok H g (es @ [e]) \<longleftrightarrow>
     chain_ok H g es \<and> prev_hash e = tip entry_hash g es \<and> entry_hash e = compute_hash H e"
  by (simp add: sealed.chained_append compute_hash_def)

lemma numbered_snoc: "numbered 0 (es @ [e]) \<longleftrightarrow> numbered 0 es \<and> eq_int (sequence e) (int (length es) + 1)"
  by (simp add: numbered_append)

lemma hash_ignores [simp]:
  "compute_hash H (e\<lparr>entry_hash := h\<rparr>) = compute_hash H e"
  "compute_hash H (e\<lparr>sequence := s\<rparr>) = compute_hash H e"
  by (simp_all add: compute_hash_def hash_input_def hash_content_def)

lemma eq_int_JInt [simp]: "eq_int (JInt m) n \<longleftrightarrow> m = n"
  by (simp add: eq_int_def)

subsection \<open>Every operation keeps the log valid\<close>

definition log_ok :: "hash_fun \<Rightarrow> audit_log \<Rightarrow> bool" where
  "log_ok H l \<longleftrightarrow> valid (verify_chain H l) \<and> index l = map (\<lambda>i. (int i + 1, i)) [0..<length (entries l)]"

lemma index_append:
  "index l = map (\<lambda>i. (int i + 1, i)) [0..<n] \<Longrightarrow>
   dict_set (int n + 1) n (index l) = map (\<lambda>i. (int i + 1, i)) [0..<Suc n]"
  by (subst dict_set_new) (auto simp: dict_mem_iff)

lemma log_ok_append:
  assumes "log_ok H l" and "eq_int (sequence e) (int (length (entries l)) + 1)"
    and "prev_hash e = last_hash l" and "entry_hash e = compute_hash H e"
    and "entries l' = entries l @ [e]"
    and "index l' = dict_set (int (length (entries l)) + 1) (length (entries l)) (index l)"
  shows "log_ok H l'"
  using assms index_append [of l "length (entries l)"]
  by (simp add: log_ok_def verify_chain_iff chain_ok_snoc numbered_snoc last_hash_tip del: upt_Suc)

lemma log_ok_new [invs]: "log_ok H (new_log H now lid dir cb)"
  by (simp add: log_ok_def verify_chain_def new_log_def)

lemma log_ok_record [invs]:
  assumes "log_ok H l" shows "log_ok H (fst (record_entry H l now cat sev ev agent task dets))"
  by (rule log_ok_append [OF assms, where e = "fst (snd (record_entry H l now cat sev ev agent task dets))"])
    (simp_all add: record_entry_def Let_def seal_def compute_hash_def hash_input_def hash_content_def)

lemma import_entry_appends:
  assumes "import_entry H l d = Some l'"
  shows "\<exists>e. entries l' = entries l @ [e] \<and> eq_int (sequence e) (int (length (entries l)) + 1)
    \<and> prev_hash e = last_hash l \<and> entry_hash e = compute_hash H e
    \<and> index l' = dict_set (int (length (entries l)) + 1) (length (entries l)) (index l)
    \<and> audit_dir l' = audit_dir l"
  using assms
  by (auto simp: import_entry_def Let_def compute_hash_def hash_input_def hash_content_def split: if_splits)

lemma import_line_ok:
  assumes "log_ok H l" and "import_line H l s = Some l'"
  shows "log_ok H l' \<and> (\<exists>es. entries l' = entries l @ es)"
proof (cases "py_strip s = []")
  case True
  with assms show ?thesis by (simp add: import_line_def)
next
  case False
  with assms(2) obtain d where "import_entry H l d = Some l'"
    by (auto simp: import_line_def Let_def split: option.splits json.splits)
  from import_entry_appends [OF this] log_ok_append [OF assms(1)] show ?thesis by blast
qed

lemma import_lines_ok:
  "log_ok H l \<Longrightarrow> import_lines H l xs = (l', ok) \<Longrightarrow> log_ok H l' \<and> (\<exists>es. entries l' = entries l @ es)"
proof (induction H l xs rule: import_lines.induct)
  case (2 H l x xs)
  show ?case
  proof (cases "import_line H l x")
    case None
    with 2 show ?thesis by auto
  next
    case (Some l1)
    with 2 import_line_ok [OF "2.prems"(1) Some] show ?thesis by fastforce
  qed
qed auto

lemma import_jsonl_ok:
  assumes "log_ok H l" and "import_jsonl H rp l fs path = (l', ok)"
  shows "log_ok H l' \<and> (\<exists>es. entries l' = entries l @ es)"
proof (cases "validate_path rp (\<lambda>p. dict_mem p fs) (audit_dir l) path False")
  case (Inl x)
  with assms show ?thesis by (auto simp: import_jsonl_def)
next
  case (Inr vp)
  show ?thesis
  proof (cases "dict_get fs vp")
    case None
    with assms Inr show ?thesis by (auto simp: import_jsonl_def)
  next
    case (Some t)
    obtain l1 b where l1: "import_lines H l (file_lines t) = (l1, b)" by (cases "import_lines H l (file_lines t)")
    from import_lines_ok [OF assms(1) this] have "log_ok H l1" "\<exists>es. entries l1 = entries l @ es" by auto
    moreover have "l' = l1"
      using assms(2) Inr Some l1 \<open>log_ok H l1\<close>
      by (auto simp: import_jsonl_def log_ok_def split: bool.splits if_splits)
    ultimately show ?thesis by simp
  qed
qed

inductive reach_log :: "hash_fun \<Rightarrow> audit_log \<Rightarrow> bool" for H where
  fresh: "reach_log H (new_log H now lid dir cb)"
| recorded: "reach_log H l \<Longrightarrow> reach_log H (fst (record_entry H l now cat sev ev agent task dets))"
| imported: "reach_log H l \<Longrightarrow> reach_log H (fst (import_jsonl H rp l fs path))"
| exported: "reach_log H l \<Longrightarrow> reach_log H (fst (export_jsonl rp l fs path mode))"

lemma export_keeps [simp, frame]:
  "entries (fst (export_jsonl rp l fs path mode)) = entries l"
  "index (fst (export_jsonl rp l fs path mode)) = index l"
  by (simp_all add: export_jsonl_def split: sum.splits)

lemma reach_log_ok: "reach_log H l \<Longrightarrow> log_ok H l"
proof (induction rule: reach_log.induct)
  case (imported l rp fs path)
  then show ?case using import_jsonl_ok by (metis prod.collapse)
next
  case (exported l rp fs path mode)
  then show ?case by (simp add: log_ok_def verify_chain_def)
qed (simp_all add: invs)

section \<open>Merkle trees\<close>

text \<open>
  \<open>enc a b\<close> is the input hashed for two siblings. The law: siblings of known length can be told
  from the input. \<open>tree_inputs\<close> and \<open>fold_inputs\<close> list what is hashed in a tree and along a proof.
\<close>

fun fold_proof :: "('h \<Rightarrow> 'h \<Rightarrow> 'h) \<Rightarrow> nat \<Rightarrow> 'h \<Rightarrow> 'h list \<Rightarrow> 'h" where
  "fold_proof f i h [] = h"
| "fold_proof f i h (s # ss) = fold_proof f (i div 2) (if even i then f h s else f s h) ss"

fun fold_inputs :: "('h \<Rightarrow> 'h \<Rightarrow> 'p) \<Rightarrow> ('p \<Rightarrow> 'h) \<Rightarrow> nat \<Rightarrow> 'h \<Rightarrow> 'h list \<Rightarrow> 'p list" where
  "fold_inputs enc H i h [] = []"
| "fold_inputs enc H i h (s # ss) =
     (let p = (if even i then enc h s else enc s h) in p # fold_inputs enc H (i div 2) (H p) ss)"

function tree_inputs :: "(string \<Rightarrow> string \<Rightarrow> string) \<Rightarrow> (string \<Rightarrow> string) \<Rightarrow> string list \<Rightarrow> string list" where
  "tree_inputs enc H level =
     (if length level \<le> 1 then []
      else map2 enc (map (\<lambda>i. pad_level level ! (2 * i)) [0..<length (pad_level level) div 2])
                    (map (\<lambda>i. pad_level level ! (2 * i + 1)) [0..<length (pad_level level) div 2])
           @ tree_inputs enc H (pair_up (\<lambda>a b. H (enc a b)) (pad_level level)))"
  by pat_completeness auto
termination
  by (relation "measure (\<lambda>(e, h, l). length l)") (auto intro!: level_shrinks)

declare tree_inputs.simps [simp del]

lemma pair_up_nth: "2 * i + 1 < length l \<Longrightarrow> pair_up f l ! i = f (l ! (2 * i)) (l ! (2 * i + 1))"
proof (induction f l arbitrary: i rule: pair_up.induct)
  case (1 f a b l)
  then show ?case by (cases i) auto
qed auto

lemma pad_nth: "i < length l \<Longrightarrow> pad_level l ! i = l ! i"
  by (simp add: pad_level_def nth_append)

lemma pad_length: "length l \<le> length (pad_level l)" "even (length (pad_level l))"
  by (simp_all add: pad_level_def)

lemma sibling_bound: "i < length (pad_level l) \<Longrightarrow> sibling i < length (pad_level l)"
  using pad_length(2) [of l] by (auto simp: sibling_def elim!: evenE)

lemma parent_nth:
  assumes "i < length (pad_level l)"
  shows "pair_up f (pad_level l) ! (i div 2) =
    (if even i then f (pad_level l ! i) (pad_level l ! sibling i)
     else f (pad_level l ! sibling i) (pad_level l ! i))"
    and "i div 2 < length (pair_up f (pad_level l))"
proof -
  have "2 * (i div 2) + 1 < length (pad_level l)"
    using assms pad_length(2) [of l] by presburger
  then show "pair_up f (pad_level l) ! (i div 2) =
    (if even i then f (pad_level l ! i) (pad_level l ! sibling i)
     else f (pad_level l ! sibling i) (pad_level l ! i))"
    by (auto simp: pair_up_nth sibling_def elim!: evenE oddE)
  show "i div 2 < length (pair_up f (pad_level l))"
    using assms pad_length(2) [of l] by (auto simp: pair_up_length elim!: evenE)
qed

lemma proof_up_folds:
  "i < length level \<Longrightarrow> fold_proof f i (level ! i) (proof_up f i level) = merkle_up f level"
proof (induction f i level rule: proof_up.induct)
  case (1 f i level)
  show ?case
  proof (cases "length level \<le> 1")
    case True
    with 1(2) have "level ! i = hd level" by (cases level) auto
    with True show ?thesis by (simp add: proof_up.simps [of f i] merkle_up.simps [of f level])
  next
    case False
    let ?p = "pad_level level"
    have i: "i < length ?p" using 1(2) pad_length(1) [of level] by linarith
    have pu: "proof_up f i level = ?p ! sibling i # proof_up f (i div 2) (pair_up f ?p)"
      using False sibling_bound [OF i] by (subst proof_up.simps) (simp add: Let_def)
    have "fold_proof f (i div 2) (pair_up f ?p ! (i div 2)) (proof_up f (i div 2) (pair_up f ?p))
        = merkle_up f (pair_up f ?p)"
      using 1(1) [OF False refl refl parent_nth(2) [OF i]] by simp
    moreover have "merkle_up f level = merkle_up f (pair_up f ?p)"
      using False by (subst merkle_up.simps) simp
    ultimately show ?thesis
      using parent_nth(1) [OF i, of f] pad_nth [OF 1(2)] by (cases "even i") (simp_all add: pu)
  qed
qed

lemma proof_up_length: "length (proof_up f i level) = length (proof_up g j level')"
  if "length level = length level'" "i < length level" "j < length level'"
  using that
proof (induction f i level arbitrary: g j level' rule: proof_up.induct)
  case (1 f i level)
  show ?case
  proof (cases "length level \<le> 1")
    case True
    with 1 show ?thesis by (simp add: proof_up.simps [of f i] proof_up.simps [of g j])
  next
    case False
    have i: "i < length (pad_level level)" and j: "j < length (pad_level level')"
      using 1(3,4) pad_length(1) [of level] pad_length(1) [of level'] by linarith+
    have "length (pair_up f (pad_level level)) = length (pair_up g (pad_level level'))"
      using 1(2) by (simp add: pair_up_length pad_level_def)
    with 1(1) [OF False refl refl, of "pair_up g (pad_level level')" "j div 2" g]
      parent_nth(2) [OF i, of f] parent_nth(2) [OF j, of g]
    have "length (proof_up f (i div 2) (pair_up f (pad_level level)))
        = length (proof_up g (j div 2) (pair_up g (pad_level level')))" by simp
    then show ?thesis
      using False 1(2) sibling_bound [OF i] sibling_bound [OF j]
      by (subst proof_up.simps, subst (2) proof_up.simps) (simp add: Let_def)
  qed
qed

text \<open>A proof has one digest per round, and the rounds halve the level: the least power of two does it.\<close>

lemma proof_up_rounds:
  "i < length level \<Longrightarrow> length level \<le> 2 ^ length (proof_up f i level) \<and> 2 ^ length (proof_up f i level) < 2 * length level"
proof (induction f i level rule: proof_up.induct)
  case (1 f i level)
  show ?case
  proof (cases "length level \<le> 1")
    case True
    with 1(2) have "length level = 1" by linarith
    then show ?thesis by (simp add: proof_up.simps [of f i level])
  next
    case False
    let ?p = "pad_level level"
    have i: "i < length ?p" using 1(2) pad_length(1) [of level] by linarith
    define n where "n = length level"
    define k where "k = length (proof_up f (i div 2) (pair_up f ?p))"
    have len: "length (proof_up f i level) = Suc k"
      using False sibling_bound [OF i] by (subst proof_up.simps) (simp add: Let_def k_def)
    have half: "length (pair_up f ?p) = (if odd n then Suc n div 2 else n div 2)"
      by (simp add: pair_up_length pad_level_def n_def)
    have ih: "length (pair_up f ?p) \<le> 2 ^ k \<and> 2 ^ k < 2 * length (pair_up f ?p)"
      using 1(1) [OF False refl refl parent_nth(2) [OF i]] by (simp add: k_def)
    have "2 ^ k < n"
    proof (cases "odd n")
      case True
      then have "2 ^ k < Suc n" using ih half by auto
      moreover have "2 ^ k \<noteq> n"
      proof
        assume eq: "2 ^ k = n"
        then have "0 < k" using False by (cases k) (auto simp: n_def)
        then have "even ((2 :: nat) ^ k)" by simp
        with eq True show False by simp
      qed
      ultimately show ?thesis by linarith
    qed (use ih half in auto)
    moreover have "n \<le> 2 * 2 ^ k" using ih half by (cases "odd n") (auto elim!: oddE evenE)
    ultimately show ?thesis unfolding len n_def [symmetric] by simp
  qed
qed

locale merkle_node =
  fixes enc :: "string \<Rightarrow> string \<Rightarrow> string"
  assumes enc_inj: "length a = length c \<Longrightarrow> enc a b = enc c d \<Longrightarrow> a = c \<and> b = d"
begin

text \<open>
  A proof of the right length that folds a leaf to the root is about the leaf at that position,
  or exhibits a collision.
\<close>

lemma proof_sound:
  assumes "\<And>p. length (H p) = n" and "i < length level"
    and "\<forall>x \<in> set level. length x = n" and "length h = n" and "\<forall>x \<in> set ps. length x = n"
    and "length ps = length (proof_up (\<lambda>a b. H (enc a b)) i level)"
    and "fold_proof (\<lambda>a b. H (enc a b)) i h ps = merkle_up (\<lambda>a b. H (enc a b)) level"
  shows "h = level ! i
    \<or> (\<exists>u \<in> set (fold_inputs enc H i h ps). \<exists>v \<in> set (tree_inputs enc H level). u \<noteq> v \<and> H u = H v)"
  using assms(2-)
proof (induction "\<lambda>a b. H (enc a b)" i level arbitrary: h ps rule: proof_up.induct)
  case (1 i level)
  let ?f = "\<lambda>a b. H (enc a b)" and ?p = "pad_level level"
  show ?case
  proof (cases "length level \<le> 1")
    case True
    with 1(2) have "level ! i = hd level" by (cases level) auto
    with True 1(6,7) show ?thesis
      by (simp add: proof_up.simps [of _ i] merkle_up.simps [of _ level])
  next
    case False
    have i: "i < length ?p" using 1(2) pad_length(1) [of level] by linarith
    note s = sibling_bound [OF i]
    have "level \<noteq> []" using False by auto
    then have lp: "\<forall>x \<in> set ?p. length x = n"
      using 1(3) last_in_set [of level] by (auto simp: pad_level_def)
    let ?up = "pair_up ?f ?p"
    have pu: "proof_up ?f i level = ?p ! sibling i # proof_up ?f (i div 2) ?up"
      using False s by (subst proof_up.simps) (simp add: Let_def)
    have mu: "merkle_up ?f level = merkle_up ?f ?up" using False by (subst merkle_up.simps) simp
    obtain q qs where q: "ps = q # qs" "length qs = length (proof_up ?f (i div 2) ?up)"
      using 1(6) pu by (cases ps) auto
    define w where "w = (if even i then enc h q else enc q h)"
    define t where "t = (if even i then enc (?p ! i) (?p ! sibling i) else enc (?p ! sibling i) (?p ! i))"
    have up: "?up ! (i div 2) = H t" using parent_nth(1) [OF i, of ?f] by (simp add: t_def)
    have lup: "\<forall>x \<in> set ?up. length x = n"
    proof
      fix x assume "x \<in> set ?up"
      then obtain k where k: "k < length ?up" "x = ?up ! k" by (auto simp: in_set_conv_nth)
      then have "2 * k + 1 < length ?p" using pad_length(2) [of level] by (auto simp: pair_up_length elim!: evenE)
      with k show "length x = n" by (simp add: pair_up_nth assms(1))
    qed
    have "H w = ?up ! (i div 2)
      \<or> (\<exists>u \<in> set (fold_inputs enc H (i div 2) (H w) qs). \<exists>v \<in> set (tree_inputs enc H ?up). u \<noteq> v \<and> H u = H v)"
    proof (rule 1(1) [OF False refl refl parent_nth(2) [OF i] lup])
      show "length (H w) = n" by (rule assms(1))
      show "\<forall>x \<in> set qs. length x = n" using 1(5) q by simp
      show "length qs = length (proof_up ?f (i div 2) ?up)" by (rule q(2))
      show "fold_proof ?f (i div 2) (H w) qs = merkle_up ?f ?up"
        using 1(7) q mu by (simp add: w_def if_distrib)
    qed
    then consider (same) "w = t" | (here) "w \<noteq> t" "H w = H t"
      | (above) u v where "u \<in> set (fold_inputs enc H (i div 2) (H w) qs)" "v \<in> set (tree_inputs enc H ?up)"
          "u \<noteq> v" "H u = H v"
      unfolding up by blast
    note cs = this
    have tin: "set (tree_inputs enc H ?up) \<subseteq> set (tree_inputs enc H level)"
      using False by (subst (2) tree_inputs.simps) auto
    have t: "t \<in> set (tree_inputs enc H level)"
    proof -
      have k: "i div 2 < length ?p div 2" using parent_nth(2) [OF i, of ?f] by (simp add: pair_up_length)
      have "t = enc (?p ! (2 * (i div 2))) (?p ! (2 * (i div 2) + 1))"
        by (auto simp: t_def sibling_def elim!: evenE oddE)
      then have "t \<in> set (map2 enc (map (\<lambda>i. ?p ! (2 * i)) [0..<length ?p div 2])
                    (map (\<lambda>i. ?p ! (2 * i + 1)) [0..<length ?p div 2]))"
        using k by (auto simp: set_zip intro!: bexI image_eqI exI [of _ "i div 2"])
      then show ?thesis using False by (subst tree_inputs.simps) simp
    qed
    have fin: "set (fold_inputs enc H i h ps) = insert w (set (fold_inputs enc H (i div 2) (H w) qs))"
      by (simp add: q w_def Let_def)
    have eq: "h = level ! i" if "w = t"
    proof -
      have "length (?p ! sibling i) = n" "length (?p ! i) = n" using lp i s by auto
      moreover have "length q = n" using 1(5) q by simp
      ultimately have "h = ?p ! i"
        using that 1(4) by (auto simp: w_def t_def split: if_splits dest: enc_inj [rotated])
      with pad_nth [OF 1(2)] show ?thesis by simp
    qed
    from cs show ?thesis
    proof cases
      case same
      then show ?thesis using eq by simp
    next
      case here
      with t show ?thesis unfolding fin by blast
    next
      case above
      with tin show ?thesis unfolding fin by blast
    qed
  qed
qed

end

interpretation sha: merkle_node "\<lambda>a b. py_encode (a @ b)"
  by unfold_locales (auto dest!: py_encode_inj)

section \<open>Queries against their reference\<close>

definition typed :: "AuditEntry \<Rightarrow> bool" where
  "typed e \<longleftrightarrow> (\<exists>t. timestamp e = JFloat t) \<and> (\<exists>s. event e = JStr s)"

definition time_of :: "AuditEntry \<Rightarrow> rat" where
  "time_of e = the (json_num (timestamp e))"

definition matches :: "query_args \<Rightarrow> AuditEntry \<Rightarrow> bool" where
  "matches q e \<longleftrightarrow>
     (\<not> given (q_category q) \<or> category e = JStr (the (q_category q)))
     \<and> (\<not> given (q_severity q) \<or> severity e = JStr (the (q_severity q)))
     \<and> (\<not> given (q_agent_id q) \<or> agent_id e = JStr (the (q_agent_id q)))
     \<and> (\<not> given (q_event_contains q)
        \<or> substring (py_lower (the (q_event_contains q))) (py_lower (py_str (event e))))
     \<and> (\<not> given_time (q_since q) \<or> rat_of (the (q_since q)) \<le> time_of e)
     \<and> (\<not> given_time (q_until q) \<or> time_of e \<le> rat_of (the (q_until q)))"

definition in_order :: "query_args \<Rightarrow> AuditEntry \<Rightarrow> AuditEntry \<Rightarrow> bool" where
  "in_order q a b = (if q_sort_order q = ''asc'' then time_of a \<le> time_of b else time_of b \<le> time_of a)"

definition too_early :: "query_args \<Rightarrow> AuditEntry \<Rightarrow> bool" where
  "too_early q e \<longleftrightarrow> given_time (q_since q) \<and> time_of e < rat_of (the (q_since q))"

definition too_late :: "query_args \<Rightarrow> AuditEntry \<Rightarrow> bool" where
  "too_late q e \<longleftrightarrow> given_time (q_until q) \<and> rat_of (the (q_until q)) < time_of e"

lemma time_test_eq:
  assumes "typed e"
  shows "time_test q e =
    (if too_early q e then (if q_sort_order q = ''asc'' then Ret Skip else Ret Stop)
     else if too_late q e then (if q_sort_order q = ''desc'' then Ret Skip else Ret Stop)
     else Ret Take)"
  using assms by (auto simp: time_test_def typed_def time_of_def too_early_def too_late_def)

lemma not_matches: "too_early q e \<or> too_late q e \<Longrightarrow> \<not> matches q e"
  by (auto simp: matches_def too_early_def too_late_def)

definition fields_match :: "query_args \<Rightarrow> AuditEntry \<Rightarrow> bool" where
  "fields_match q e \<longleftrightarrow>
     (\<not> given (q_category q) \<or> category e = JStr (the (q_category q)))
     \<and> (\<not> given (q_severity q) \<or> severity e = JStr (the (q_severity q)))
     \<and> (\<not> given (q_agent_id q) \<or> agent_id e = JStr (the (q_agent_id q)))
     \<and> (\<not> given (q_event_contains q)
        \<or> substring (py_lower (the (q_event_contains q))) (py_lower (py_str (event e))))"

lemma query_test_fields:
  assumes "typed e"
  shows "query_test q e = (if fields_match q e then time_test q e else Ret Skip)"
proof -
  obtain s where "event e = JStr s" using assms by (auto simp: typed_def)
  then show ?thesis
    unfolding query_test_def fields_match_def
    by (cases "given (q_category q)"; cases "given (q_severity q)"; cases "given (q_agent_id q)";
        cases "given (q_event_contains q)") simp_all
qed

lemma query_test_cases:
  assumes e: "typed e" and q: "q_sort_order q \<in> {''asc'', ''desc''}"
  shows "query_test q e = Ret (if matches q e then Take else Skip)
    \<or> query_test q e = Ret Stop \<and> (\<forall>e'. e' = e \<or> in_order q e e' \<longrightarrow> \<not> matches q e')"
proof -
  have eq: "query_test q e = (if fields_match q e then time_test q e else Ret Skip)"
    by (rule query_test_fields [OF e])
  have m: "matches q e \<longleftrightarrow> fields_match q e \<and> \<not> too_early q e \<and> \<not> too_late q e"
    by (auto simp: matches_def fields_match_def too_early_def too_late_def)
  consider (skip) "query_test q e = Ret Skip" "\<not> matches q e" | (time) "query_test q e = time_test q e"
      "matches q e \<longleftrightarrow> \<not> too_early q e \<and> \<not> too_late q e"
    using eq m by (cases "fields_match q e") auto
  then show ?thesis
  proof cases
    case time
    have early: "too_early q e \<Longrightarrow> in_order q e e' \<Longrightarrow> q_sort_order q \<noteq> ''asc'' \<Longrightarrow> \<not> matches q e'" for e'
      by (rule not_matches) (auto simp: too_early_def in_order_def)
    have late: "too_late q e \<Longrightarrow> in_order q e e' \<Longrightarrow> q_sort_order q = ''asc'' \<Longrightarrow> \<not> matches q e'" for e'
      by (rule not_matches) (auto simp: too_late_def in_order_def)
    show ?thesis
    proof (cases "too_early q e")
      case True
      then show ?thesis
        using time early not_matches [of q e] by (auto simp: time_test_eq [OF e])
    next
      case False
      then show ?thesis
        using time late q not_matches [of q e] by (cases "too_late q e") (auto simp: time_test_eq [OF e])
    qed
  qed simp
qed

lemma query_loop_ref:
  assumes "q_sort_order q \<in> {''asc'', ''desc''}"
    and "list_all typed es" and "sorted_wrt (in_order q) es"
  shows "query_loop q es k res =
    Ret (res @ take (nat (q_limit q - int (length res))) (drop (nat (q_offset q - k)) (filter (matches q) es)))"
  using assms(2,3)
proof (induction es arbitrary: k res)
  case (Cons e es)
  then have IH: "query_loop q es k res =
      Ret (res @ take (nat (q_limit q - int (length res))) (drop (nat (q_offset q - k)) (filter (matches q) es)))" for k res
    by simp
  show ?case
  proof (cases "q_limit q \<le> int (length res)")
    case True
    then show ?thesis by simp
  next
    case False
    have typed: "typed e" using Cons.prems by simp
    from query_test_cases [OF this assms(1)] show ?thesis
    proof
      assume t: "query_test q e = Ret (if matches q e then Take else Skip)"
      show ?thesis
      proof (cases "matches q e")
        case m: True
        show ?thesis
        proof (cases "k < q_offset q")
          case True
          then have "nat (q_offset q - k) = Suc (nat (q_offset q - (k + 1)))" by simp
          with False True m t IH show ?thesis by simp
        next
          case k: False
          have "nat (q_limit q - int (length res)) = Suc (nat (q_limit q - int (length (res @ [e]))))"
            using False by simp
          with False k m t IH show ?thesis by simp
        qed
      next
        case m: False
        with False t IH show ?thesis by simp
      qed
    next
      assume s: "query_test q e = Ret Stop \<and> (\<forall>e'. e' = e \<or> in_order q e e' \<longrightarrow> \<not> matches q e')"
      then have "filter (matches q) (e # es) = []"
        using Cons.prems(2) by (auto simp: filter_empty_conv)
      with s False show ?thesis by simp
    qed
  qed
qed simp

section \<open>Reading back an export\<close>

definition json_entry :: "AuditEntry \<Rightarrow> bool" where
  "json_entry e =
     (wf_json (timestamp e) \<and> wf_json (category e) \<and> wf_json (severity e) \<and> wf_json (event e)
      \<and> wf_json (agent_id e) \<and> wf_json (task_id e) \<and> wf_json (details e) \<and> wf_json (sequence e))"

text \<open>The size limit of the import, which \<open>record\<close> does not have.\<close>

definition small_details :: "AuditEntry \<Rightarrow> bool" where
  "small_details e = (\<not> is_obj (details e) \<or> length (py_str (details e)) \<le> 10000)"

lemma loads_to_json: "json_entry e \<Longrightarrow> loads (to_json e) = Some (to_dict e)"
  unfolding to_json_def
  by (rule loads_dumps) (simp_all add: to_dict_def json_entry_def wf_dict_def)

lemma to_json_plain: "list_all plain_char (to_json e)"
  unfolding to_json_def by (rule dumps_plain) (simp_all add: plain_char_def)

lemma strip_to_json: "py_strip (to_json e) = to_json e" "to_json e \<noteq> []"
proof -
  obtain ms where ms: "to_dict e = JObj ms" by (simp add: to_dict_def)
  then show "to_json e \<noteq> []" by (simp add: to_json_def)
  show "py_strip (to_json e) = to_json e"
    by (rule py_strip_id) (simp_all add: to_json_def ms is_space_def)
qed

lemma split_lines:
  "(\<And>w. w \<in> set ws \<Longrightarrow> c \<notin> set w) \<Longrightarrow> split_on c (concat (map (\<lambda>w. w @ [c]) ws)) = ws @ [[]]"
proof (induction ws)
  case (Cons w ws)
  have "split_on c (w @ c # concat (map (\<lambda>w. w @ [c]) ws)) = [w] @ ws @ [[]]"
    using Cons by (simp only: split_on_append_sep) (simp add: split_on_plain)
  then show ?case by simp
qed simp

lemma file_lines_jsonl: "file_lines (jsonl es) = map to_json es @ [[]]"
proof -
  have nl: "CHR 0x0A \<notin> set (to_json e)" "CHR 0x0D \<notin> set (to_json e)" for e
    using to_json_plain [of e] plain_not by (auto simp: list_all_iff)
  have "map (\<lambda>c. if c = CHR 0x0D then CHR 0x0A else c) (jsonl es) = jsonl es"
    using nl by (intro map_idI) (auto simp: jsonl_def split: if_splits)
  moreover have "split_on CHR 0x0A (concat (map (\<lambda>w. w @ [CHR 0x0A]) (map to_json es))) = map to_json es @ [[]]"
    using nl by (intro split_lines) auto
  ultimately show ?thesis by (simp add: file_lines_def jsonl_def comp_def)
qed

lemma import_line_entry:
  assumes "json_entry e" "small_details e" and "eq_int (sequence e) (int (length (entries l)) + 1)"
    and "prev_hash e = last_hash l" and "entry_hash e = compute_hash H e"
  shows "import_line H l (to_json e) =
    Some (l\<lparr>entries := entries l @ [e],
            index := dict_set (int (length (entries l)) + 1) (length (entries l)) (index l)\<rparr>)"
proof -
  obtain d where d: "to_dict e = JObj d"
    "d = [(''timestamp'', timestamp e), (''category'', category e), (''severity'', severity e),
           (''event'', event e), (''agent_id'', agent_id e), (''task_id'', task_id e),
           (''details'', details e), (''prev_hash'', JStr (prev_hash e)),
           (''entry_hash'', JStr (entry_hash e)), (''sequence'', sequence e)]"
    by (simp add: to_dict_def)
  have "e\<lparr>entry_hash := compute_hash H e\<rparr> = e" using assms(5) by simp
  then have "import_entry H l d = Some (l\<lparr>entries := entries l @ [e],
            index := dict_set (int (length (entries l)) + 1) (length (entries l)) (index l)\<rparr>)"
    using assms
    by (cases e)
      (auto simp: import_entry_def d(2) Let_def required_fields_def dict_mem_def small_details_def
        compute_hash_def hash_input_def hash_content_def)
  then show ?thesis
    by (simp add: import_line_def strip_to_json loads_to_json [OF assms(1)] d(1))
qed

lemma import_line_large:
  assumes "json_entry e" "\<not> small_details e"
  shows "import_line H l (to_json e) = None"
proof -
  obtain d where d: "to_dict e = JObj d" "dict_get d ''details'' = Some (details e)"
    by (simp add: to_dict_def dict_get_def)
  have "import_entry H l d = None" using assms(2) by (auto simp: import_entry_def d(2) Let_def small_details_def)
  then show ?thesis by (simp add: import_line_def strip_to_json loads_to_json [OF assms(1)] d(1))
qed

lemma import_lines_entries:
  assumes "chain_ok H (last_hash l) es" and "numbered (length (entries l)) es"
    and "list_all json_entry es"
  shows "\<exists>l'. import_lines H l (map to_json es @ [[]]) = (l', list_all small_details es)
    \<and> entries l' = entries l @ takeWhile small_details es"
  using assms
proof (induction es arbitrary: l)
  case Nil
  then show ?case by (simp add: import_line_def py_strip_def)
next
  case (Cons e es)
  show ?case
  proof (cases "small_details e")
    case True
    let ?l = "l\<lparr>entries := entries l @ [e],
              index := dict_set (int (length (entries l)) + 1) (length (entries l)) (index l)\<rparr>"
    have "import_line H l (to_json e) = Some ?l"
      using Cons.prems True by (intro import_line_entry) (simp_all add: compute_hash_def)
    moreover have "\<exists>l'. import_lines H ?l (map to_json es @ [[]]) = (l', list_all small_details es)
        \<and> entries l' = entries ?l @ takeWhile small_details es"
      using Cons.prems by (intro Cons.IH) (auto simp: last_hash_def)
    ultimately show ?thesis using True by simp
  next
    case False
    with Cons.prems(3) import_line_large [of e H l] show ?thesis by simp
  qed
qed

lemma validate_existing:
  assumes "validate_path rp ex base path True = Ret vp" and "ex' vp"
  shows "validate_path rp ex' base path False = Ret vp"
  using assms by (auto simp: validate_path_def Let_def split: if_splits)

lemma export_import:
  assumes v: "valid (verify_chain H l)" and s: "list_all json_entry (entries l)"
    and x: "export_jsonl rp l fs path ''w'' = (l2, fs2, Ret ())"
    and z: "entries l0 = []" "audit_dir l0 = audit_dir l"
  shows "\<exists>l1. import_jsonl H rp l0 fs2 path = (l1, list_all small_details (entries l))
    \<and> entries l1 = takeWhile small_details (entries l)"
proof -
  obtain vp where vp: "validate_path rp (\<lambda>p. dict_mem p fs) (audit_dir l) path True = Ret vp"
    and fs2: "fs2 = dict_set vp (jsonl (entries l)) fs"
    using x by (auto simp: export_jsonl_def split: sum.splits)
  have "validate_path rp (\<lambda>p. dict_mem p fs2) (audit_dir l) path False = Ret vp"
    by (rule validate_existing [OF vp]) (simp add: fs2)
  moreover obtain l1 where l1: "import_lines H l0 (map to_json (entries l) @ [[]]) = (l1, list_all small_details (entries l))"
      "entries l1 = takeWhile small_details (entries l)"
    using import_lines_entries [of H l0 "entries l"] v s z by (auto simp: verify_chain_iff last_hash_def)
  moreover have "valid (verify_chain H l1)" if "list_all small_details (entries l)"
    using v l1(2) that by (simp add: verify_chain_def list_all_iff takeWhile_eq_all_conv [THEN iffD2])
  ultimately show ?thesis
    using z by (auto simp: import_jsonl_def fs2 file_lines_jsonl split: bool.splits)
qed

section \<open>Incremental export\<close>

lemma parse_int_show: "0 \<le> n \<Longrightarrow> length (show_dec n) \<le> 4300 \<Longrightarrow> parse_int (show_dec n) = Some n"
proof -
  assume n: "0 \<le> n" and len: "length (show_dec n) \<le> 4300"
  have d: "list_all is_digit (show_dec n)" "show_dec n \<noteq> []" using n by (simp_all add: show_dec_digits)
  have nd: "\<not> is_digit CHR ''_''" "\<not> is_digit CHR ''-''" "\<not> is_digit CHR ''+''" by (simp_all add: is_digit_def)
  have ns: "is_digit c \<Longrightarrow> \<not> is_space c" for c by (auto simp: is_digit_def is_space_def Let_def)
  have "is_digit (hd (show_dec n))" "is_digit (last (show_dec n))"
    using d by (auto simp: list_all_iff)
  then have "py_strip (show_dec n) = show_dec n" "hd (show_dec n) \<noteq> CHR ''-''" "hd (show_dec n) \<noteq> CHR ''+''"
    using d(2) ns nd by (auto intro!: py_strip_id)
  moreover have "split_on CHR ''_'' (show_dec n) = [show_dec n]"
    using d(1) nd by (intro split_on_plain) (auto simp: list_all_iff)
  ultimately show ?thesis using d len n by (simp add: parse_int_def Let_def)
qed

text \<open>Entries as \<open>record\<close> numbers them.\<close>

definition counted :: "AuditEntry list \<Rightarrow> bool" where
  "counted es \<longleftrightarrow> map sequence es = map (\<lambda>i. JInt (int i + 1)) [0..<length es]"

lemma counted_nth: "counted es \<Longrightarrow> i < length es \<Longrightarrow> sequence (es ! i) = JInt (int i + 1)"
  unfolding counted_def by (metis (no_types, lifting) add_0 diff_zero length_map length_upt nth_map nth_upt)

lemma filter_counted:
  assumes "counted es" and "n \<le> length es"
  shows "filter (\<lambda>e. of_int (int n) < the (json_num (sequence e))) es = drop n es"
proof -
  have "filter (\<lambda>e. of_int (int n) < the (json_num (sequence e))) (take n es) = []"
    using assms by (auto simp: filter_empty_conv in_set_conv_nth counted_nth)
  moreover have "filter (\<lambda>e. of_int (int n) < the (json_num (sequence e))) (drop n es) = drop n es"
    using assms by (intro filter_True) (auto simp: in_set_conv_nth counted_nth)
  ultimately show ?thesis by (metis append_Nil append_take_drop_id filter_append)
qed

definition exported_upto ::
    "(string \<Rightarrow> string) \<Rightarrow> files \<Rightarrow> string \<Rightarrow> string \<Rightarrow> AuditEntry list \<Rightarrow> nat \<Rightarrow> bool" where
  "exported_upto rp fs path vp es n \<longleftrightarrow>
     n \<le> length es
     \<and> (if n = 0 then dict_get fs (rp (tracker_of path)) = None \<and> dict_get fs vp = None
        else dict_get fs (rp (tracker_of path)) = Some (show_dec (int n))
             \<and> dict_get fs vp = Some (jsonl (take n es)))"

lemma jsonl_append: "jsonl (a @ b) = jsonl a @ jsonl b"
  by (simp add: jsonl_def)

lemma incremental_step:
  assumes c: "counted (entries l)" and n: "exported_upto rp fs path vp (entries l) n"
    and len: "length (show_dec (int n)) \<le> 4300"
    and vp: "\<And>ex. validate_path rp ex (audit_dir l) path True = Ret vp" and ne: "vp \<noteq> rp (tracker_of path)"
    and x: "export_incremental rp l fs path = (fs2, r)"
  shows "r = Ret () \<and> exported_upto rp fs2 path vp (entries l) (length (entries l))"
proof -
  have le: "n \<le> length (entries l)" using n by (simp add: exported_upto_def)
  have seen: "last_exported rp fs path = int n"
    using n len by (cases "n = 0") (simp_all add: last_exported_def exported_upto_def parse_int_show)
  have num: "\<not> (\<exists>e \<in> set (entries l). json_num (sequence e) = None)"
    using c by (auto simp: in_set_conv_nth counted_nth)
  note flt = filter_counted [OF c le]
  show ?thesis
  proof (cases "n = length (entries l)")
    case True
    then show ?thesis using x n num flt
      by (simp add: export_incremental_def seen Let_def)
  next
    case False
    with le have lt: "n < length (entries l)" by simp
    define m where "m = length (entries l)"
    have sq: "py_str (sequence (last (entries l))) = show_dec (int m)"
      using counted_nth [OF c, of "m - 1"] lt
      by (cases "entries l = []") (simp_all add: last_conv_nth m_def show_int_def)
    have "drop n (entries l) \<noteq> []" using lt by simp
    then have "fs2 = dict_set (rp (tracker_of path)) (show_dec (int m)) (append_file vp (jsonl (drop n (entries l))) fs)"
      and r: "r = Ret ()"
      using x num flt by (simp_all add: export_incremental_def seen Let_def vp sq)
    moreover have "dict_get (append_file vp (jsonl (drop n (entries l))) fs) vp = Some (jsonl (entries l))"
      using n by (cases "n = 0") (simp_all add: exported_upto_def append_file_def jsonl_append [symmetric])
    ultimately show ?thesis using ne lt by (auto simp: exported_upto_def m_def)
  qed
qed

section \<open>Statistics add up\<close>

lemma bump_sum: "sum_list (map snd (bump k d)) = sum_list (map snd d) + 1"
  by (induction k d rule: bump.induct) auto

lemma tally_of_sum: "sum_list (map snd (tally_of ks)) = int (length ks)"
proof -
  have "sum_list (map snd (foldl (\<lambda>d k. bump k d) d ks)) = sum_list (map snd d) + int (length ks)" for d
    by (induction ks arbitrary: d) (simp_all add: bump_sum)
  then show ?thesis by (simp add: tally_of_def)
qed

section \<open>Properties\<close>

text \<open>A digest of 64 characters, for the examples.\<close>

definition sample_hash :: hash_fun where
  "sample_hash s = take 64 (s @ replicate 64 CHR ''0'')"

definition sample_log :: "nat \<Rightarrow> audit_log" where
  "sample_log n = ((\<lambda>l. fst (record_entry sample_hash l 1 ''cat'' CRITICAL ''ev'' JNull JNull (JObj []))) ^^ n)
     (new_log sample_hash 0 (Some ''L'') ''/a'' False)"

lemma sample_hash_length [simp]: "length (sample_hash s) = 64"
  by (simp add: sample_hash_def)

lemma sample_log_ok: "log_ok sample_hash (sample_log n)"
  unfolding sample_log_def by (induction n) (simp_all add: invs)

lemma sample_log_valid: "valid (verify_chain sample_hash (sample_log n))"
  using sample_log_ok by (simp add: log_ok_def)

lemma sample_log_length [simp]: "length (entries (sample_log n)) = n"
  unfolding sample_log_def by (induction n) (simp_all add: new_log_def record_entry_def Let_def)

lemma sample_log_entry:
  "i < n \<Longrightarrow> timestamp (entries (sample_log n) ! i) = JFloat 1 \<and> category (entries (sample_log n) ! i) = JStr ''cat''
    \<and> severity (entries (sample_log n) ! i) = JStr CRITICAL
    \<and> event (entries (sample_log n) ! i) = JStr ''ev'' \<and> agent_id (entries (sample_log n) ! i) = JNull
    \<and> task_id (entries (sample_log n) ! i) = JNull
    \<and> details (entries (sample_log n) ! i) = JObj [] \<and> sequence (entries (sample_log n) ! i) = JInt (int i + 1)"
proof (induction n)
  case (Suc n)
  let ?l = "sample_log n"
  have "entries (sample_log (Suc n)) = entries ?l @ [fst (snd (record_entry sample_hash ?l 1 ''cat'' CRITICAL ''ev'' JNull JNull (JObj [])))]"
    by (simp add: sample_log_def record_entry_def Let_def)
  with Suc show ?case
    by (auto simp: nth_append less_Suc_eq record_entry_def Let_def seal_def)
qed simp

lemma sample_log_dir [simp]: "audit_dir (sample_log n) = ''/a''"
  unfolding sample_log_def by (induction n) (simp_all add: new_log_def record_entry_def Let_def)

lemma map_same_iff:
  "(\<And>a b. f a = f b \<longleftrightarrow> g a = g b) \<Longrightarrow> map f xs = map f ys \<longleftrightarrow> map g xs = map g ys"
proof (induction xs arbitrary: ys)
  case (Cons x xs)
  then show ?case by (cases ys) auto
qed auto

lemma hash_lengths:
  assumes "\<And>x. length (H x) = 64" and "valid (verify_chain H l)"
  shows "\<forall>h \<in> set (map entry_hash (entries l)). length h = 64"
proof -
  have "chain_ok H g es \<Longrightarrow> \<forall>h \<in> set (map entry_hash es). length h = 64" for g es
    using assms(1) by (induction es arbitrary: g) auto
  then show ?thesis using assms(2) by (auto simp: verify_chain_iff)
qed

text \<open>
  C18: in every log reached from a fresh one by recording, importing (any file content) and
  exporting, in any order, \<open>verify_chain\<close> reports the chain as intact, the sequence index lists
  exactly the positions, and the reported outcome carries no broken position.
\<close>

theorem audit_reachable_valid:
  assumes "reach_log H l"
  shows "verify_chain H l = \<lparr>valid = True, broken_at = None, reason = ''Chain integrity verified''\<rparr>
    \<and> (\<forall>n. dict_get (index l) n = (if 1 \<le> n \<and> n \<le> int (length (entries l)) then Some (nat (n - 1)) else None))"
proof -
  have ok: "log_ok H l" using assms by (rule reach_log_ok)
  have "valid (verify_from H g i es) \<Longrightarrow>
      verify_from H g i es = \<lparr>valid = True, broken_at = None, reason = ''Chain integrity verified''\<rparr>" for g i es
    by (induction H g i es rule: verify_from.induct) (auto split: if_splits)
  moreover have "dict_get (map (\<lambda>i. (int i + 1, i)) [0..<k]) n = (if 1 \<le> n \<and> n \<le> int k then Some (nat (n - 1)) else None)" for k n
    by (induction k) (auto simp: dict_get_def map_add_def split: option.splits)
  ultimately show ?thesis using ok by (simp add: log_ok_def verify_chain_def)
qed

theorem audit_reachable_valid_witness:
  "verify_chain sample_hash (fst (record_entry sample_hash (new_log sample_hash 0 None ''/a'' True) 1 ''c'' ''info'' ''e'' JNull JNull JNull))
     = \<lparr>valid = True, broken_at = None, reason = ''Chain integrity verified''\<rparr>"
  using audit_reachable_valid [OF reach_log.recorded [OF reach_log.fresh]] by blast

text \<open>
  C4: the last hash pins the whole log. If two logs both verify and end in the same hash, they
  have the same number of entries with the same hashed content (dictionaries compared up to the
  order of their keys), or two of their hash inputs are a collision of the digest. The only fact
  used of SHA-256 is the length of a hexadecimal digest.
\<close>

theorem audit_tamper_evident:
  assumes "\<And>x. length (H x) = 64"
    and "valid (verify_chain H l)" and "valid (verify_chain H l')" and "last_hash l = last_hash l'"
  shows "map (\<lambda>e. canon (hash_content e)) (entries l) = map (\<lambda>e. canon (hash_content e)) (entries l')
    \<or> (\<exists>a \<in> set (entries l). \<exists>b \<in> set (entries l').
         hash_input a \<noteq> hash_input b \<and> H (hash_input a) = H (hash_input b))"
proof (cases "collides hash_input H (entries l) (entries l')")
  case True
  then show ?thesis by (simp add: collides_def)
next
  case False
  have "H p \<noteq> GENESIS_HASH" for p using assms(1) [of p] by (auto simp: GENESIS_HASH_def eval_nat_numeral)
  then have "map hash_input (entries l) = map hash_input (entries l')"
    using assms(2-) False by (intro sealed.pinned [where g = GENESIS_HASH and H = H])
      (auto simp: verify_chain_iff last_hash_tip)
  then show ?thesis
    using map_same_iff [of hash_input "\<lambda>e. canon (hash_content e)"] by (simp add: hash_input_iff)
qed

theorem audit_tamper_evident_witness:
  "map (\<lambda>e. canon (hash_content e)) (entries (sample_log 3)) = map (\<lambda>e. canon (hash_content e)) (entries (sample_log 3))
    \<or> (\<exists>a \<in> set (entries (sample_log 3)). \<exists>b \<in> set (entries (sample_log 3)).
         hash_input a \<noteq> hash_input b \<and> sample_hash (hash_input a) = sample_hash (hash_input b))"
  by (rule audit_tamper_evident) (simp_all add: sample_log_valid)

text \<open>
  C19: changing the hashed content of one entry that is not the last breaks the chain, even when
  the changed entry is sealed again, unless old and new content collide.
\<close>

theorem audit_edit_detected:
  assumes "valid (verify_chain H l)" and "Suc i < length (entries l)"
    and "canon (hash_content e) \<noteq> canon (hash_content (entries l ! i))"
    and "valid (verify_chain H (l\<lparr>entries := (entries l)[i := e]\<rparr>))"
  shows "hash_input e \<noteq> hash_input (entries l ! i) \<and> H (hash_input e) = H (hash_input (entries l ! i))"
proof -
  have ne: "hash_input e \<noteq> hash_input (entries l ! i)" using assms(3) by (simp add: hash_input_iff)
  with sealed.edit_breaks [OF _ assms(2) ne, of H GENESIS_HASH] assms(1,4)
  show ?thesis by (simp add: verify_chain_iff)
qed

text \<open>An entry whose content is edited: with a constant digest every edit collides.\<close>

theorem audit_edit_detected_witness:
  "let H = (\<lambda>_. ''h''); l0 = new_log H 0 (Some ''L'') ''/a'' False;
       rec = (\<lambda>l. fst (record_entry H l 1 ''c'' ''info'' ''e'' JNull JNull (JObj [])));
       l = rec (rec l0); e = (entries l ! 0)\<lparr>event := JStr ''x''\<rparr>
   in hash_input e \<noteq> hash_input (entries l ! 0) \<and> H (hash_input e) = H (hash_input (entries l ! 0))"
proof -
  define H :: hash_fun where "H = (\<lambda>_. ''h'')"
  define l0 where "l0 = new_log H 0 (Some ''L'') ''/a'' False"
  define rec where "rec = (\<lambda>l. fst (record_entry H l 1 ''c'' ''info'' ''e'' JNull JNull (JObj [])))"
  define l where "l = rec (rec l0)"
  define e where "e = (entries l ! 0)\<lparr>event := JStr ''x''\<rparr>"
  have ok: "valid (verify_chain H l)"
    using log_ok_record [OF log_ok_record [OF log_ok_new]] by (simp add: l_def rec_def l0_def log_ok_def)
  note defs = l_def rec_def l0_def H_def e_def
  have "Suc 0 < length (entries l)" by (simp add: defs record_entry_def new_log_def Let_def)
  moreover have "canon (hash_content e) \<noteq> canon (hash_content (entries l ! 0))"
    by (simp add: defs record_entry_def new_log_def Let_def canon_content seal_def)
  moreover have "valid (verify_chain H (l\<lparr>entries := (entries l)[0 := e]\<rparr>))"
    by (simp add: defs record_entry_def new_log_def Let_def seal_def verify_chain_def compute_hash_def last_hash_def)
  ultimately have "hash_input e \<noteq> hash_input (entries l ! 0) \<and> H (hash_input e) = H (hash_input (entries l ! 0))"
    by (rule audit_edit_detected [OF ok])
  then show ?thesis by (simp add: Let_def H_def e_def l_def rec_def l0_def)
qed

text \<open>
  C20: in a log that verifies, inserting an entry before the end is always detected, and deleting
  one entry is detected unless it is the last: a truncated log still verifies.
\<close>

theorem audit_insert_delete:
  assumes "valid (verify_chain H l)" and "i < length (entries l)"
  shows "\<not> valid (verify_chain H (l\<lparr>entries := take i (entries l) @ e # drop i (entries l)\<rparr>))
    \<and> (valid (verify_chain H (l\<lparr>entries := take i (entries l) @ drop (Suc i) (entries l)\<rparr>))
       \<longleftrightarrow> Suc i = length (entries l))"
proof -
  obtain x zs where d: "drop i (entries l) = x # zs" using assms(2) by (metis Cons_nth_drop_Suc)
  have d2: "drop (Suc i) (entries l) = zs" using d by (metis drop_Suc list.sel(3) tl_drop)
  have li: "length (take i (entries l)) = i" using assms(2) by simp
  have "chain_ok H GENESIS_HASH (take i (entries l) @ x # zs)" "numbered 0 (take i (entries l) @ x # zs)"
    using assms(1) d by (simp_all add: verify_chain_iff flip: d)
  then have v: "chain_ok H GENESIS_HASH (take i (entries l))" "numbered 0 (take i (entries l))"
      "eq_int (sequence x) (int i + 1)" "numbered (Suc i) zs"
    using li by (simp_all add: numbered_append sealed.chained_append)
  have inj: "eq_int j a \<Longrightarrow> eq_int j b \<Longrightarrow> a = b" for j a b by (auto simp: eq_int_def)
  have "\<not> numbered 0 (take i (entries l) @ e # x # zs)"
    using v(3) li inj [of "sequence x" "int i + 1" "2 + int i"] by (auto simp: numbered_append)
  moreover have "numbered 0 (take i (entries l) @ zs) \<longleftrightarrow> zs = []"
  proof (cases zs)
    case (Cons z zs')
    then show ?thesis
      using v(4) li inj [of "sequence z" "int i + 1" "2 + int i"] by (auto simp: numbered_append)
  qed (simp add: v)
  moreover have "zs = [] \<longleftrightarrow> Suc i = length (entries l)" using d2 assms(2) by auto
  ultimately show ?thesis using v by (auto simp: verify_chain_iff d d2)
qed

theorem audit_insert_delete_witness:
  "valid (verify_chain sample_hash (sample_log 3 \<lparr>entries := take 2 (entries (sample_log 3)) @ drop 3 (entries (sample_log 3))\<rparr>))"
  using audit_insert_delete [OF sample_log_valid, of 2 3] by simp

lemma merkle_proof_eq:
  assumes "1 \<le> sq" "sq \<le> int (length (entries l))"
  shows "nat (sq - 1) < length (map entry_hash (entries l))"
    and "compute_merkle_proof H l sq = proof_up (hash_pair H) (nat (sq - 1)) (map entry_hash (entries l))"
    and "compute_merkle_root H l = merkle_up (hash_pair H) (map entry_hash (entries l))"
  using assms by (auto simp: compute_merkle_proof_def compute_merkle_root_def merkle_root_of_def)

lemma merkle_proof_folds:
  assumes "1 \<le> sq" "sq \<le> int (length (entries l))"
  shows "fold_proof (hash_pair H) (nat (sq - 1)) (entry_hash (entries l ! nat (sq - 1)))
    (compute_merkle_proof H l sq) = compute_merkle_root H l"
  using proof_up_folds [OF merkle_proof_eq(1) [OF assms], of "hash_pair H"] merkle_proof_eq [OF assms]
  by simp

text \<open>
  C22: the Merkle proof of every entry, folded from the entry's hash with the sides given by its
  position, yields the Merkle root of the log; a sequence number outside the log has no proof.
\<close>

theorem audit_merkle_proof:
  "if 1 \<le> sq \<and> sq \<le> int (length (entries l))
   then fold_proof (hash_pair H) (nat (sq - 1)) (entry_hash (entries l ! nat (sq - 1)))
          (compute_merkle_proof H l sq) = compute_merkle_root H l
   else compute_merkle_proof H l sq = []"
  using merkle_proof_folds [of sq l H] by (auto simp: compute_merkle_proof_def)

text \<open>
  C21: Merkle proofs are sound among lists of the right length. In a log that verifies, under a hash
  with digests of 64 characters, a list of digests exactly as long as the proof of an entry that
  folds some digest at that position to the root is about the entry's own hash, or two of the inputs
  hashed along the list and in the tree collide. The length matters: the leaves and the inner
  nodes are hashed alike, so a shorter list can fold an inner node to the root.
\<close>

theorem audit_merkle_sound:
  assumes "\<And>x. length (H x) = 64" and "valid (verify_chain H l)"
    and "1 \<le> sq" "sq \<le> int (length (entries l))"
    and "length h = 64" "\<forall>x \<in> set ps. length x = 64" "length ps = length (compute_merkle_proof H l sq)"
    and "fold_proof (hash_pair H) (nat (sq - 1)) h ps = compute_merkle_root H l"
  shows "h = entry_hash (entries l ! nat (sq - 1))
    \<or> (\<exists>u \<in> set (fold_inputs (\<lambda>a b. py_encode (a @ b)) H (nat (sq - 1)) h ps).
        \<exists>v \<in> set (tree_inputs (\<lambda>a b. py_encode (a @ b)) H (map entry_hash (entries l))). u \<noteq> v \<and> H u = H v)"
proof -
  note pr = merkle_proof_eq [OF assms(3,4)]
  have hp: "hash_pair H = (\<lambda>a b. H (py_encode (a @ b)))" by (simp add: fun_eq_iff hash_pair_def)
  show ?thesis
    using sha.proof_sound [OF assms(1) pr(1) hash_lengths [OF assms(1,2)], of h ps] assms(5-) pr(1)
    by (simp add: pr(2,3) hp)
qed

text \<open>
  C28: the loop of a Merkle proof ends after as many rounds as it takes to halve the log down to one
  entry: with n entries the proof of each has k digests, where k is least with n at most 2 to the k.
  The loop of the root makes the same rounds.
\<close>

theorem audit_merkle_rounds:
  assumes "1 \<le> sq" "sq \<le> int (length (entries l))"
  shows "length (entries l) \<le> 2 ^ length (compute_merkle_proof H l sq)
    \<and> 2 ^ length (compute_merkle_proof H l sq) < 2 * length (entries l)"
  using proof_up_rounds [OF merkle_proof_eq(1) [OF assms], of "hash_pair H"] merkle_proof_eq(2) [OF assms, of H] by simp

theorem audit_merkle_rounds_witness:
  "length (compute_merkle_proof sample_hash (sample_log 3) 2) = 2"
proof -
  let ?k = "length (compute_merkle_proof sample_hash (sample_log 3) 2)"
  have n: "length (entries (sample_log 3)) = 3" by code_simp
  have "3 \<le> (2 :: nat) ^ ?k \<and> 2 ^ ?k < (6 :: nat)"
    using audit_merkle_rounds [of 2 "sample_log 3" sample_hash] by (simp add: n)
  moreover have "?k = 0 \<or> ?k = 1 \<or> ?k = 2 \<or> (2 :: nat) ^ 3 \<le> 2 ^ ?k"
    using power_increasing [of 3 ?k "2 :: nat"] by linarith
  ultimately show ?thesis by auto
qed

lemma pair_up_member_length: "(\<And>a b. length (f a b) = n) \<Longrightarrow> x \<in> set (pair_up f l) \<Longrightarrow> length x = n"
  by (induction f l rule: pair_up.induct) auto

lemma proof_up_member_length:
  assumes "\<And>a b. length (f a b) = n"
  shows "i < length level \<Longrightarrow> \<forall>x \<in> set level. length x = n \<Longrightarrow> x \<in> set (proof_up f i level) \<Longrightarrow> length x = n"
  using assms
proof (induction f i level arbitrary: x rule: proof_up.induct)
  case (1 f i level)
  show ?case
  proof (cases "length level \<le> 1")
    case True
    with 1 show ?thesis by (simp add: proof_up.simps [of f i level])
  next
    case False
    let ?p = "pad_level level"
    have i: "i < length ?p" using 1(2) pad_length(1) [of level] by linarith
    have "level \<noteq> []" using False by auto
    then have lp: "\<forall>x \<in> set ?p. length x = n" using 1(3) last_in_set [of level] by (auto simp: pad_level_def)
    have pu: "proof_up f i level = ?p ! sibling i # proof_up f (i div 2) (pair_up f ?p)"
      using False sibling_bound [OF i] by (subst proof_up.simps) (simp add: Let_def)
    have lup: "\<forall>x \<in> set (pair_up f ?p). length x = n" using pair_up_member_length 1(5) by blast
    from 1(4) pu consider "x = ?p ! sibling i" | "x \<in> set (proof_up f (i div 2) (pair_up f ?p))" by auto
    then show ?thesis
    proof cases
      case 1
      then show ?thesis using lp sibling_bound [OF i] by auto
    next
      case 2
      then show ?thesis using 1(1) [OF False refl refl parent_nth(2) [OF i] lup _ 1(5)] by blast
    qed
  qed
qed

theorem audit_merkle_sound_witness:
  "let l = sample_log 3; h = entry_hash (entries l ! 1); ps = compute_merkle_proof sample_hash l 2
   in h = entry_hash (entries l ! nat (2 - 1))
    \<or> (\<exists>u \<in> set (fold_inputs (\<lambda>a b. py_encode (a @ b)) sample_hash (nat (2 - 1)) h ps).
        \<exists>v \<in> set (tree_inputs (\<lambda>a b. py_encode (a @ b)) sample_hash (map entry_hash (entries l))).
          u \<noteq> v \<and> sample_hash u = sample_hash v)"
proof -
  let ?l = "sample_log 3"
  have b: "(1 :: int) \<le> 2" "2 \<le> int (length (entries ?l))" by simp_all
  have hs: "\<forall>h \<in> set (map entry_hash (entries ?l)). length h = 64"
    by (rule hash_lengths [OF sample_hash_length sample_log_valid])
  have "\<forall>x \<in> set (compute_merkle_proof sample_hash ?l 2). length x = 64"
    unfolding merkle_proof_eq(2) [OF b]
    using proof_up_member_length [of "hash_pair sample_hash" 64, OF _ merkle_proof_eq(1) [OF b] hs]
    by (auto simp: hash_pair_def)
  moreover have "length (entry_hash (entries ?l ! 1)) = 64" using hs by simp
  moreover have "fold_proof (hash_pair sample_hash) (nat (2 - 1)) (entry_hash (entries ?l ! 1))
      (compute_merkle_proof sample_hash ?l 2) = compute_merkle_root sample_hash ?l"
    using merkle_proof_folds [OF b] by simp
  ultimately show ?thesis
    unfolding Let_def by (intro audit_merkle_sound [OF sample_hash_length sample_log_valid b]) auto
qed

text \<open>
  The Merkle root does not commit to the number of entries: appending a copy of the last
  entry to a log with an odd number of at least three entries leaves the root unchanged, so
  \<open>verify_merkle\<close> against the earlier root still reports the longer log as valid, though
  \<open>verify_chain\<close> refuses it.
\<close>

theorem audit_merkle_duplicate:
  assumes "odd (length (entries l))" and "1 < length (entries l)"
  defines "l2 \<equiv> l\<lparr>entries := entries l @ [last (entries l)]\<rparr>"
  shows "compute_merkle_root H l2 = compute_merkle_root H l
    \<and> m_valid (verify_merkle H l2 (Some (compute_merkle_root H l)))
    \<and> \<not> valid (verify_chain H l2)"
proof -
  let ?ls = "map entry_hash (entries l)"
  have ne: "entries l \<noteq> []" using assms(2) by auto
  have up: "merkle_up (hash_pair H) (?ls @ [last ?ls]) = merkle_up (hash_pair H) ?ls"
    using assms(1,2) ne by (subst (1 2) merkle_up.simps) (simp add: pad_level_def)
  then have root: "compute_merkle_root H l2 = compute_merkle_root H l"
    using ne by (simp add: compute_merkle_root_def merkle_root_of_def l2_def last_map)
  have "\<not> valid (verify_chain H l2)"
  proof
    assume v: "valid (verify_chain H l2)"
    obtain es e where e: "entries l = es @ [e]" using ne by (cases "entries l" rule: rev_cases) auto
    have "eq_int (sequence e) (int (length es) + 1)" "eq_int (sequence e) (int (length es) + 2)"
      using v by (simp_all add: verify_chain_iff l2_def e numbered_append add.commute)
    then show False by (simp add: eq_int_def)
  qed
  then show ?thesis using root by (simp add: verify_merkle_def Let_def)
qed

theorem audit_merkle_duplicate_witness:
  "compute_merkle_root sample_hash (sample_log 3 \<lparr>entries := entries (sample_log 3) @ [last (entries (sample_log 3))]\<rparr>)
   = compute_merkle_root sample_hash (sample_log 3)"
  using audit_merkle_duplicate [of "sample_log 3" sample_hash] by simp

text \<open>
  C24: \<open>query\<close> with its early exits is the plain reference: on a log whose entries carry times in
  order, it returns the matching entries, oldest or newest first, without the first \<open>offset\<close>,
  and at most \<open>limit\<close> of them.
\<close>

theorem audit_query_reference:
  assumes "list_all typed (entries l)" and "sorted_wrt (\<lambda>a b. time_of a \<le> time_of b) (entries l)"
    and "q_sort_order q = ''asc'' \<or> q_sort_order q = ''desc''"
  shows "query l q =
    (let es = (if q_sort_order q = ''asc'' then entries l else rev (entries l))
     in Ret (map to_dict (take (nat (q_limit q)) (drop (nat (q_offset q)) (filter (matches q) es)))))"
proof -
  let ?es = "if q_sort_order q = ''asc'' then entries l else rev (entries l)"
  have "sorted_wrt (in_order q) ?es"
    using assms(2) by (simp add: in_order_def [abs_def] sorted_wrt_rev)
  moreover have "list_all typed ?es" using assms(1) by simp
  ultimately show ?thesis
    using query_loop_ref [of q ?es 0 "[]"] assms(3) by (simp add: query_def Let_def)
qed

lemma sample_log_typed: "list_all typed (entries (sample_log n))"
  using sample_log_entry by (auto simp: list_all_length typed_def)

lemma sample_log_sorted: "sorted_wrt (\<lambda>a b. time_of a \<le> time_of b) (entries (sample_log n))"
  using sample_log_entry [of _ n] by (auto simp: sorted_wrt_iff_nth_less time_of_def)

theorem audit_query_reference_witness:
  "get_critical_events (sample_log 3) 2 = Ret (map to_dict (take 2 (rev (entries (sample_log 3)))))"
proof -
  let ?q = "default_query\<lparr>q_severity := Some CRITICAL, q_limit := 2\<rparr>"
  have "filter (matches ?q) (rev (entries (sample_log 3))) = rev (entries (sample_log 3))"
    using sample_log_entry [of _ 3]
    by (intro filter_True)
      (auto simp: matches_def default_query_def given_def given_time_def CRITICAL_def in_set_conv_nth)
  then show ?thesis
    using audit_query_reference [OF sample_log_typed sample_log_sorted, of ?q 3]
    by (simp add: get_critical_events_def default_query_def)
qed

text \<open>
  C23: a log that verifies is exported and read back up to the size limit of the import. When its
  entries hold proper JSON values, importing the exported file into an empty log of the same
  directory gives back the entries before the first whose details are a dictionary of which \<open>str\<close>
  has more than 10000 characters, and reports success exactly if there is no such entry; then the
  log read back has the same entries. \<open>record\<close> has no such limit, so a log can hold what its own
  import refuses.
\<close>

theorem audit_export_import:
  assumes "valid (verify_chain H l)" and "list_all json_entry (entries l)"
    and "export_jsonl rp l fs path ''w'' = (l2, fs2, Ret ())"
    and "entries l0 = []" and "audit_dir l0 = audit_dir l"
  shows "snd (import_jsonl H rp l0 fs2 path) = list_all small_details (entries l)
    \<and> entries (fst (import_jsonl H rp l0 fs2 path)) = takeWhile small_details (entries l)
    \<and> (list_all small_details (entries l) \<longrightarrow> entries (fst (import_jsonl H rp l0 fs2 path)) = entries l)"
  using export_import [OF assms] by (auto simp: list_all_iff takeWhile_eq_all_conv)

lemma sample_log_storable:
  "list_all json_entry (entries (sample_log n))" "list_all small_details (entries (sample_log n))"
  using sample_log_entry [of _ n] by (auto simp: list_all_length json_entry_def small_details_def)

theorem audit_export_import_witness:
  "snd (import_jsonl sample_hash (lex_realpath ''/'') (new_log sample_hash 0 None ''/a'' False)
     (fst (snd (export_jsonl (lex_realpath ''/'') (sample_log 2) [] ''log'' ''w''))) ''log'')"
proof -
  have "validate_path (lex_realpath ''/'') (\<lambda>_. False) ''/a'' ''log'' True = Ret ''/a/log''"
    by code_simp
  then have x: "export_jsonl (lex_realpath ''/'') (sample_log 2) [] ''log'' ''w'' =
      ((sample_log 2)\<lparr>dirty := False\<rparr>, [(''/a/log'', jsonl (entries (sample_log 2)))], Ret ())"
    by (simp add: export_jsonl_def dict_mem_def)
  show ?thesis
    using audit_export_import [OF sample_log_valid sample_log_storable(1) x,
        of "new_log sample_hash 0 None ''/a'' False"] sample_log_storable(2) [of 2]
    by (simp add: new_log_def x)
qed

text \<open>
  Whatever the file holds, importing into a log that verifies leaves a log that verifies and
  extends it. In particular the final check of the import never fails, and a failed import keeps
  the entries read before the bad line.
\<close>

theorem audit_import_safe:
  assumes "reach_log H l" and "import_jsonl H rp l fs path = (l', ok)"
  shows "valid (verify_chain H l') \<and> take (length (entries l)) (entries l') = entries l"
  using import_jsonl_ok [OF reach_log_ok [OF assms(1)] assms(2)] by (auto simp: log_ok_def)

theorem audit_import_safe_witness:
  "valid (verify_chain sample_hash (fst (import_jsonl sample_hash (lex_realpath ''/'')
     (new_log sample_hash 0 None ''/a'' False) [(''/a/x'', ''{}'')] ''x'')))"
  using audit_import_safe [OF reach_log.fresh prod.collapse [symmetric]] by blast

text \<open>
  Incremental exports accumulate the full export. When the file and its tracker hold the
  first \<open>n\<close> entries (or neither exists and \<open>n\<close> is 0), one more \<open>export_incremental\<close> brings them to
  the whole log, whatever was recorded in between.
\<close>

theorem audit_incremental:
  assumes "counted (entries l)" and "exported_upto rp fs path vp (entries l) n"
    and "length (show_dec (int n)) \<le> 4300"
    and "\<And>ex. validate_path rp ex (audit_dir l) path True = Ret vp" and "vp \<noteq> rp (tracker_of path)"
  shows "snd (export_incremental rp l fs path) = Ret ()
    \<and> exported_upto rp (fst (export_incremental rp l fs path)) path vp (entries l) (length (entries l))"
  using incremental_step [OF assms prod.collapse [symmetric]] .

theorem audit_incremental_witness:
  "exported_upto (lex_realpath ''/'') (fst (export_incremental (lex_realpath ''/'') (sample_log 2) [] ''/a/log''))
     ''/a/log'' ''/a/log'' (entries (sample_log 2)) 2"
proof -
  have v: "validate_path (lex_realpath ''/'') ex ''/a'' ''/a/log'' True = Ret ''/a/log''" for ex
    by code_simp
  have c: "counted (entries (sample_log 2))"
    using sample_log_entry [of _ 2] by (auto simp: counted_def list_eq_iff_nth_eq simp del: upt_Suc)
  have t: "''/a/log'' \<noteq> lex_realpath ''/'' (tracker_of ''/a/log'')" by code_simp
  show ?thesis
    using audit_incremental [where rp = "lex_realpath ''/''" and l = "sample_log 2" and fs = "[]" and n = 0,
        OF c _ _ _ t] v
    by (simp add: exported_upto_def)
qed

text \<open>
  The category and severity counts of \<open>statistics\<close> each add up to the number of entries, and
  an empty log gives the short answer.
\<close>

theorem audit_statistics_total:
  "case statistics H l of
     Inr None \<Rightarrow> entries l = []
   | Inr (Some s) \<Rightarrow> s_total s = length (entries l)
       \<and> sum_list (map snd (s_categories s)) = int (length (entries l))
       \<and> sum_list (map snd (s_severities s)) = int (length (entries l))
       \<and> s_merkle_root s = compute_merkle_root H l
   | Inl x \<Rightarrow> x = TypeError"
  by (auto simp: statistics_def Let_def tally_of_sum hours_between_def split: sum.splits option.splits)

end
