(* ===== verification/RateLimit.thy ===== *)
theory RateLimit
  imports PyNumber
begin

text \<open>
  The rate limiter: \<open>src/core/security/ratelimit.py\<close>.

  Tokens, rates and times are binary64 floats. A clock reading is an argument; an operation that
  may read the clock several times takes the stream \<open>clk\<close> of its readings. SHA-256 is the
  parameter \<open>H\<close>. The callback on a refused request is recorded in the ghost field \<open>notified\<close>
  (exceptions of the callback are swallowed by the code).

  Groups: token bucket; sliding window; the limiter. The main results are about floats, with
  rounding: a bucket never leaves \<open>[0, burst]\<close>, and the number of requests it admits over any
  period is bounded by burst plus rate times the elapsed time up to an explicit rounding term.
\<close>

type_synonym readings = "nat \<Rightarrow> pyfloat"

section \<open>Token bucket\<close>

record RateLimitConfig =
  requests_per_second :: pyfloat
  burst_size :: int
  cooldown_seconds :: pyfloat

record TokenBucket =
  tb_config :: RateLimitConfig
  tokens :: pyfloat
  last_refill :: pyfloat
  max_tokens :: pyfloat
  rate :: pyfloat

definition new_bucket :: "RateLimitConfig \<Rightarrow> pyfloat \<Rightarrow> TokenBucket" where
  "new_bucket c now =
     \<lparr>tb_config = c, tokens = F (of_int (burst_size c)), last_refill = now,
      max_tokens = F (of_int (burst_size c)), rate = requests_per_second c\<rparr>"

definition consume :: "TokenBucket \<Rightarrow> pyfloat \<Rightarrow> TokenBucket \<times> bool" where
  "consume b now =
     (let elapsed = now - last_refill b;
          t = min (max_tokens b) (tokens b + elapsed * rate b);
          b1 = b\<lparr>tokens := t, last_refill := now\<rparr>
      in if 1 \<le> t then (b1\<lparr>tokens := t - 1\<rparr>, True) else (b1, False))"

definition fill_ratio :: "TokenBucket \<Rightarrow> pyfloat outcome" where
  "fill_ratio b = (if max_tokens b = 0 then Raise ZeroDivisionError else Ret (fdiv (tokens b) (max_tokens b)))"

section \<open>Sliding window\<close>

record SlidingWindowCounter =
  max_requests :: int
  window_seconds :: pyfloat
  timestamps :: "pyfloat list"

definition new_window :: "int \<Rightarrow> pyfloat \<Rightarrow> SlidingWindowCounter" where
  "new_window n w = \<lparr>max_requests = n, window_seconds = w, timestamps = []\<rparr>"

definition allow :: "SlidingWindowCounter \<Rightarrow> pyfloat \<Rightarrow> SlidingWindowCounter \<times> bool \<times> int" where
  "allow c now =
     (let cutoff = now - window_seconds c;
          ts = dropWhile (\<lambda>t. t < cutoff) (timestamps c);
          n = int (length ts)
      in if max_requests c \<le> n then (c\<lparr>timestamps := ts\<rparr>, False, n)
         else (c\<lparr>timestamps := ts @ [now]\<rparr>, True, n + 1))"

section \<open>The limiter\<close>

record RateLimitResult =
  allowed :: bool
  retry_after :: pyfloat
  remaining :: int
  limit :: int
  scope :: string

record RateLimiter =
  default_config :: RateLimitConfig
  agent_config :: RateLimitConfig
  ip_config :: RateLimitConfig
  global_config :: RateLimitConfig
  has_callback :: bool
  buckets :: "(string, TokenBucket) dict"
  windows :: "(string, SlidingWindowCounter) dict"
  notified :: "(string \<times> string \<times> pyfloat) list"

definition default_agent_config :: RateLimitConfig where
  "default_agent_config = \<lparr>requests_per_second = F 5, burst_size = 10, cooldown_seconds = F 120\<rparr>"

definition new_limiter ::
    "RateLimitConfig option \<Rightarrow> RateLimitConfig option \<Rightarrow> RateLimitConfig option \<Rightarrow> RateLimitConfig option
      \<Rightarrow> bool \<Rightarrow> RateLimiter" where
  "new_limiter d a i g cb =
     (let pick = (\<lambda>c dflt. case c of None \<Rightarrow> dflt | Some x \<Rightarrow> x)
      in \<lparr>default_config = pick d \<lparr>requests_per_second = F 10, burst_size = 20, cooldown_seconds = F 60\<rparr>,
          agent_config = pick a default_agent_config,
          ip_config = pick i \<lparr>requests_per_second = F 20, burst_size = 40, cooldown_seconds = F 60\<rparr>,
          global_config = pick g \<lparr>requests_per_second = F 50, burst_size = 100, cooldown_seconds = F 60\<rparr>,
          has_callback = cb, buckets = [], windows = [], notified = []\<rparr>)"

definition bucket_key :: "hash_fun \<Rightarrow> string \<Rightarrow> string \<Rightarrow> string" where
  "bucket_key H sc ident = take 16 (H (py_encode (sc @ '':'' @ ident)))"

definition cleanup_stale_buckets :: "RateLimiter \<Rightarrow> pyfloat \<Rightarrow> RateLimiter" where
  "cleanup_stale_buckets r now =
     r\<lparr>buckets := filter (\<lambda>(k, b). \<not> F 300 < now - last_refill b) (buckets r)\<rparr>"

text \<open>Readings: 0 when the bucket is created, 1 in the cleanup, 2 in \<open>consume\<close>.\<close>

definition get_bucket ::
    "RateLimiter \<Rightarrow> string \<Rightarrow> RateLimitConfig \<Rightarrow> readings \<Rightarrow> RateLimiter \<times> TokenBucket outcome" where
  "get_bucket r key c clk =
     (let r1 = (if dict_mem key (buckets r) then r
                else let r' = r\<lparr>buckets := dict_set key (new_bucket c (clk 0)) (buckets r)\<rparr>
                     in if 10000 < length (buckets r') then cleanup_stale_buckets r' (clk 1) else r')
      in (r1, case dict_get (buckets r1) key of None \<Rightarrow> Raise KeyError | Some b \<Rightarrow> Ret b))"

definition retry_delay :: "TokenBucket \<Rightarrow> RateLimitConfig \<Rightarrow> pyfloat" where
  "retry_delay b c = max (if 0 < rate b then fdiv (1 - tokens b) (rate b) else cooldown_seconds c) (F (1 / 10))"

definition check ::
    "hash_fun \<Rightarrow> RateLimiter \<Rightarrow> string \<Rightarrow> string \<Rightarrow> RateLimitConfig \<Rightarrow> readings
      \<Rightarrow> RateLimiter \<times> RateLimitResult outcome" where
  "check H r sc ident c clk =
     (let key = bucket_key H sc ident
      in case get_bucket r key c clk of
           (r1, Inl x) \<Rightarrow> (r1, Raise x)
         | (r1, Inr b) \<Rightarrow>
             (case consume b (clk 2) of
                (b1, False) \<Rightarrow>
                  let delay = retry_delay b1 c
                  in (r1\<lparr>buckets := dict_set key b1 (buckets r1),
                         notified := notified r1 @ (if has_callback r1 then [(sc, ident, delay)] else [])\<rparr>,
                      Ret \<lparr>allowed = False, retry_after = py_round 2 delay, remaining = 0,
                           limit = burst_size c, scope = sc\<rparr>)
              | (b1, True) \<Rightarrow>
                  (r1\<lparr>buckets := dict_set key b1 (buckets r1)\<rparr>,
                   Ret \<lparr>allowed = True, retry_after = 0, remaining = max 0 (py_int (tokens b1)),
                        limit = burst_size c, scope = sc\<rparr>)))"

definition check_agent :: "hash_fun \<Rightarrow> RateLimiter \<Rightarrow> string \<Rightarrow> readings \<Rightarrow> RateLimiter \<times> RateLimitResult outcome" where
  "check_agent H r a clk = check H r ''agent'' a (agent_config r) clk"

definition check_ip :: "hash_fun \<Rightarrow> RateLimiter \<Rightarrow> string \<Rightarrow> readings \<Rightarrow> RateLimiter \<times> RateLimitResult outcome" where
  "check_ip H r a clk = check H r ''ip'' a (ip_config r) clk"

definition check_global :: "hash_fun \<Rightarrow> RateLimiter \<Rightarrow> readings \<Rightarrow> RateLimiter \<times> RateLimitResult outcome" where
  "check_global H r clk = check H r ''global'' ''_'' (global_config r) clk"

text \<open>The checks of \<open>check_all\<close> one after another; an exception ends them.\<close>

fun run_checks ::
    "(RateLimiter \<Rightarrow> readings \<Rightarrow> RateLimiter \<times> RateLimitResult outcome) list \<Rightarrow> RateLimiter \<Rightarrow> readings
      \<Rightarrow> RateLimiter \<times> RateLimitResult list outcome" where
  "run_checks [] r clk = (r, Ret [])"
| "run_checks (f # fs) r clk =
     (case f r clk of
        (r1, Inl x) \<Rightarrow> (r1, Raise x)
      | (r1, Inr res) \<Rightarrow>
          (case run_checks fs r1 (\<lambda>i. clk (i + 3)) of
             (r2, Inl x) \<Rightarrow> (r2, Raise x)
           | (r2, Inr rs) \<Rightarrow> (r2, Ret (res # rs))))"

definition scopes_of ::
    "hash_fun \<Rightarrow> string option \<Rightarrow> string option \<Rightarrow> (RateLimiter \<Rightarrow> readings \<Rightarrow> RateLimiter \<times> RateLimitResult outcome) list" where
  "scopes_of H agent ip =
     (case agent of Some a \<Rightarrow> (if a \<noteq> [] then [\<lambda>r clk. check_agent H r a clk] else []) | None \<Rightarrow> [])
     @ (case ip of Some a \<Rightarrow> (if a \<noteq> [] then [\<lambda>r clk. check_ip H r a clk] else []) | None \<Rightarrow> [])
     @ [\<lambda>r clk. check_global H r clk]"

definition most_restrictive :: "RateLimitResult list \<Rightarrow> RateLimitResult outcome" where
  "most_restrictive rs =
     (case filter (\<lambda>r. \<not> allowed r) rs of
        b # _ \<Rightarrow> Ret b
      | [] \<Rightarrow> (case py_min_by remaining rs of None \<Rightarrow> Raise ValueError | Some m \<Rightarrow> Ret m))"

definition check_all ::
    "hash_fun \<Rightarrow> RateLimiter \<Rightarrow> string option \<Rightarrow> string option \<Rightarrow> readings \<Rightarrow> RateLimiter \<times> RateLimitResult outcome" where
  "check_all H r agent ip clk =
     (case run_checks (scopes_of H agent ip) r clk of
        (r1, Inl x) \<Rightarrow> (r1, Raise x)
      | (r1, Inr rs) \<Rightarrow> (r1, most_restrictive rs))"

definition reset_bucket :: "hash_fun \<Rightarrow> RateLimiter \<Rightarrow> string \<Rightarrow> string \<Rightarrow> RateLimiter" where
  "reset_bucket H r sc ident =
     r\<lparr>buckets := dict_pop (bucket_key H sc ident) (buckets r),
       windows := dict_pop (bucket_key H sc ident) (windows r)\<rparr>"

record limiter_stats =
  total_buckets :: nat
  active_buckets :: nat
  rate_global :: string
  rate_agent :: string
  rate_ip :: string
  rate_burst :: int

definition stats :: "RateLimiter \<Rightarrow> limiter_stats outcome" where
  "stats r =
     (let ratios = map fill_ratio (dict_values (buckets r));
          per = (\<lambda>c. repr_float (requests_per_second c) @ ''/s'')
      in if list_ex (\<lambda>x. case x of Inl _ \<Rightarrow> True | Inr _ \<Rightarrow> False) ratios then Raise ZeroDivisionError
         else Ret \<lparr>total_buckets = length (buckets r),
                   active_buckets = length (filter (\<lambda>x. case x of Inl _ \<Rightarrow> False | Inr q \<Rightarrow> q < F (9 / 10)) ratios),
                   rate_global = per (global_config r), rate_agent = per (agent_config r),
                   rate_ip = per (ip_config r), rate_burst = burst_size (agent_config r)\<rparr>)"

section \<open>The bucket\<close>

definition bucket_ok :: "TokenBucket \<Rightarrow> bool" where
  "bucket_ok b \<longleftrightarrow> 0 \<le> tokens b \<and> tokens b \<le> max_tokens b \<and> 0 \<le> rate b
     \<and> max_tokens b = F (of_int (burst_size (tb_config b)))"

lemma bucket_okD:
  assumes "bucket_ok b"
  shows "0 \<le> tokens b" "tokens b \<le> max_tokens b" "0 \<le> rate b"
    "tokens b \<le> F (of_int (burst_size (tb_config b)))"
  using assms unfolding bucket_ok_def by (blast, blast, blast, metis)

definition config_ok :: "RateLimitConfig \<Rightarrow> bool" where
  "config_ok c \<longleftrightarrow> 0 \<le> burst_size c \<and> 0 \<le> requests_per_second c"

lemma new_bucket_ok: "config_ok c \<Longrightarrow> bucket_ok (new_bucket c now)"
  by (simp add: bucket_ok_def new_bucket_def config_ok_def)

lemma consume_frame [simp]:
  "last_refill (fst (consume b now)) = now" "max_tokens (fst (consume b now)) = max_tokens b"
  "rate (fst (consume b now)) = rate b" "tb_config (fst (consume b now)) = tb_config b"
  by (simp_all add: consume_def Let_def)

lemma consume_eq:
  assumes "t = min (max_tokens b) (tokens b + (now - last_refill b) * rate b)"
  shows "consume b now =
    (if 1 \<le> t then (b\<lparr>tokens := t - 1, last_refill := now\<rparr>, True)
     else (b\<lparr>tokens := t, last_refill := now\<rparr>, False))"
  unfolding assms by (simp add: consume_def Let_def)

lemma consume_ok:
  assumes "bucket_ok b" and "last_refill b \<le> now"
  shows "bucket_ok (fst (consume b now))"
proof -
  define t where "t = min (max_tokens b) (tokens b + (now - last_refill b) * rate b)"
  have "0 \<le> tokens b + (now - last_refill b) * rate b"
    using assms by (intro float_add_nonneg float_mult_nonneg float_diff_nonneg) (auto simp: bucket_ok_def)
  then have t: "0 \<le> t" "t \<le> max_tokens b" using assms(1) by (auto simp: t_def bucket_ok_def)
  have "t - 1 \<le> t" by (rule float_diff_le) simp
  then show ?thesis
    using t assms(1) float_diff_nonneg [of 1 t]
    by (cases "1 \<le> t") (auto simp: consume_eq [OF t_def] bucket_ok_def)
qed

subsection \<open>How much a bucket admits\<close>

fun run_bucket :: "TokenBucket \<Rightarrow> pyfloat list \<Rightarrow> TokenBucket \<times> bool list" where
  "run_bucket b [] = (b, [])"
| "run_bucket b (t # ts) =
     (let (b1, ok) = consume b t; (b2, oks) = run_bucket b1 ts in (b2, ok # oks))"

definition admitted :: "bool list \<Rightarrow> nat" where
  "admitted oks = length (filter id oks)"

definition ulp_half :: rat where
  "ulp_half = 1 / 2 ^ 53"

lemma fl_up: "0 \<le> x \<Longrightarrow> fl x \<le> x * (1 + ulp_half)"
  unfolding ulp_half_def by (rule fl_rel)

lemma ulp_half_pos: "0 < ulp_half"
  by (simp add: ulp_half_def)

text \<open>One request: the tokens after it and the token it took, against what was there before.\<close>

lemma consume_potential:
  assumes "bucket_ok b" and "last_refill b \<le> now"
  shows "rat_of (tokens (fst (consume b now))) + (if snd (consume b now) then 1 else 0)
    \<le> rat_of (tokens b) + 2 * ulp_half * rat_of (max_tokens b)
      + (1 + ulp_half) ^ 3 * rat_of (rate b) * (rat_of now - rat_of (last_refill b))"
proof -
  let ?T = "rat_of (tokens b)" and ?M = "rat_of (max_tokens b)" and ?R = "rat_of (rate b)"
  let ?d = "rat_of now - rat_of (last_refill b)" and ?e = "1 + ulp_half"
  have b: "0 \<le> tokens b" "tokens b \<le> max_tokens b" "0 \<le> rate b" using assms(1) by (auto simp: bucket_ok_def)
  have T: "0 \<le> ?T" "?T \<le> ?M" "0 \<le> ?R" and d: "0 \<le> ?d"
    using b assms(2) by (simp_all only: rat_of_le rat_of_zero diff_ge_0_iff_ge)
  have u: "0 < ulp_half" "0 < ?e" using ulp_half_pos by simp_all
  let ?E = "fl ?d"
  have E: "0 \<le> ?E" "?E \<le> ?d * ?e" using d by (simp_all add: flr.nonneg fl_up)
  let ?P = "fl (?E * ?R)"
  have P0: "0 \<le> ?P" using E T by (simp add: flr.nonneg)
  have "?P \<le> (?E * ?R) * ?e" using E T by (intro fl_up) simp
  also have "\<dots> \<le> ((?d * ?e) * ?R) * ?e" using E T u by (intro mult_right_mono) auto
  finally have P: "?P \<le> ?d * ?R * ?e ^ 2" by (simp add: power2_eq_square algebra_simps)
  let ?S = "fl (?T + ?P)"
  have "?S \<le> (?T + ?P) * ?e" using T P0 by (intro fl_up) simp
  also have "\<dots> \<le> (?T + ?d * ?R * ?e ^ 2) * ?e" using P u by (intro mult_right_mono) auto
  also have "\<dots> = ?T + ulp_half * ?T + ?e ^ 3 * ?R * ?d" by (simp add: power2_eq_square power3_eq_cube algebra_simps)
  also have "\<dots> \<le> ?T + ulp_half * ?M + ?e ^ 3 * ?R * ?d" using T u by simp
  finally have S: "?S \<le> ?T + ulp_half * ?M + ?e ^ 3 * ?R * ?d" .
  define t where "t = min (max_tokens b) (tokens b + (now - last_refill b) * rate b)"
  have t: "rat_of t \<le> ?M" "rat_of t \<le> ?S"
    unfolding t_def by (simp_all add: min_def rat_of_le rat_of_plus rat_of_times rat_of_minus)
  show ?thesis
  proof (cases "1 \<le> t")
    case True
    then have 1: "1 \<le> rat_of t" by (simp add: rat_of_le)
    have "rat_of (t - 1) \<le> (rat_of t - 1) * ?e" using 1 by (simp add: rat_of_minus fl_up)
    also have "\<dots> \<le> rat_of t - 1 + ulp_half * ?M"
    proof -
      have "ulp_half * (rat_of t - 1) \<le> ulp_half * ?M" using t(1) u by (intro mult_left_mono) auto
      then show ?thesis by (simp add: algebra_simps)
    qed
    finally have "rat_of (t - 1) + 1 \<le> ?S + ulp_half * ?M" using t(2) by simp
    with S True show ?thesis by (simp add: consume_eq [OF t_def])
  next
    case False
    have "0 \<le> ulp_half * ?M" using T u by simp
    with S t(2) False show ?thesis by (simp add: consume_eq [OF t_def])
  qed
qed

lemma run_bucket_potential:
  assumes "bucket_ok b" and "sorted (last_refill b # ts)" and "run_bucket b ts = (b', oks)"
  shows "rat_of (tokens b') + of_nat (admitted oks)
    \<le> rat_of (tokens b) + of_nat (length ts) * (2 * ulp_half * rat_of (max_tokens b))
      + (1 + ulp_half) ^ 3 * rat_of (rate b) * (rat_of (last (last_refill b # ts)) - rat_of (last_refill b))
    \<and> bucket_ok b' \<and> length oks = length ts"
  using assms
proof (induction ts arbitrary: b b' oks)
  case Nil
  then show ?case by (simp add: admitted_def)
next
  case (Cons t ts)
  obtain b1 ok where b1: "consume b t = (b1, ok)" by fastforce
  obtain b2 oks2 where b2: "run_bucket b1 ts = (b2, oks2)" by fastforce
  have eqs: "b' = b2" "oks = ok # oks2" using Cons.prems(3) b1 b2 by simp_all
  have le: "last_refill b \<le> t" and st: "sorted (t # ts)" using Cons.prems(2) by auto
  have f: "b1 = fst (consume b t)" by (simp add: b1)
  have s: "last_refill b1 = t" "max_tokens b1 = max_tokens b" "rate b1 = rate b" by (simp_all add: f)
  have ok1: "bucket_ok b1" using consume_ok [OF Cons.prems(1) le] by (simp add: f)
  have IH: "rat_of (tokens b2) + of_nat (admitted oks2)
    \<le> rat_of (tokens b1) + of_nat (length ts) * (2 * ulp_half * rat_of (max_tokens b))
      + (1 + ulp_half) ^ 3 * rat_of (rate b) * (rat_of (last (t # ts)) - rat_of t)
    \<and> bucket_ok b2 \<and> length oks2 = length ts"
    using Cons.IH [OF ok1 _ b2] st s by simp
  have step: "rat_of (tokens b1) + (if ok then 1 else 0)
    \<le> rat_of (tokens b) + 2 * ulp_half * rat_of (max_tokens b)
      + (1 + ulp_half) ^ 3 * rat_of (rate b) * (rat_of t - rat_of (last_refill b))"
    using consume_potential [OF Cons.prems(1) le] b1 by simp
  have "of_nat (admitted oks) = (of_nat (admitted oks2) :: rat) + (if ok then 1 else 0)"
    by (simp add: eqs admitted_def)
  with IH step show ?case by (simp add: eqs algebra_simps)
qed

lemma run_same_instant:
  assumes "tokens b = F (of_int k)" "max_tokens b = F (of_int m)" "last_refill b = now"
    and "0 \<le> k" "k \<le> m" "m \<le> 2 ^ 53"
  shows "snd (run_bucket b (replicate n now)) = replicate (min n (nat k)) True @ replicate (n - nat k) False"
  using assms
proof (induction n arbitrary: b k)
  case (Suc n)
  have mn: "min (F (of_int m)) (F (of_int k)) = F (of_int k)"
    using Suc.prems by (simp add: min_def F_le)
  have one: "1 \<le> F (of_int k) \<longleftrightarrow> 1 \<le> k"
    using F_le [of 1 "of_int k"] Suc.prems by simp
  show ?case
  proof (cases "1 \<le> k")
    case True
    have "F (of_int k) - 1 = F (of_int (k - 1))"
      using F_minus [of "of_int k" 1] Suc.prems by simp
    with True Suc.prems mn one consume_eq [of "F (of_int k)" b now]
    have c: "consume b now = (b\<lparr>tokens := F (of_int (k - 1)), last_refill := now\<rparr>, True)"
      by simp
    have k: "nat k = Suc (nat (k - 1))" using True by simp
    show ?thesis
      using Suc.IH [of "b\<lparr>tokens := F (of_int (k - 1)), last_refill := now\<rparr>" "k - 1"] True Suc.prems
      by (simp add: c k split_beta)
  next
    case False
    with Suc.prems mn one have c: "consume b now = (b\<lparr>last_refill := now\<rparr>, False)"
      by (simp add: consume_def Let_def)
    show ?thesis
      using Suc.IH [of "b\<lparr>last_refill := now\<rparr>" k] False Suc.prems
      by (simp add: c split_beta)
  qed
qed simp

section \<open>The sliding window\<close>

definition window_step :: "SlidingWindowCounter \<times> pyfloat list \<Rightarrow> pyfloat \<Rightarrow> SlidingWindowCounter \<times> pyfloat list" where
  "window_step s t = (let (c1, ok, _) = allow (fst s) t in (c1, if ok then snd s @ [t] else snd s))"

definition run_window :: "SlidingWindowCounter \<Rightarrow> pyfloat list \<Rightarrow> SlidingWindowCounter \<times> pyfloat list" where
  "run_window c ts = foldl window_step (c, []) ts"

lemma dropWhile_sorted_filter:
  fixes xs :: "'a::linorder list"
  assumes "sorted xs"
  shows "dropWhile (\<lambda>x. x < c) xs = filter (\<lambda>x. c \<le> x) xs"
  using assms
proof (induction xs)
  case (Cons x xs)
  show ?case
  proof (cases "x < c")
    case True
    with Cons show ?thesis by auto
  next
    case False
    then have "filter (\<lambda>x. c \<le> x) (x # xs) = x # xs" using Cons.prems by (intro filter_True) auto
    with False show ?thesis by simp
  qed
qed simp

lemma run_window_inv:
  assumes "sorted ts" and "ts \<noteq> []" and "0 \<le> w"
    and "run_window (new_window n w) ts = (c, acc)"
  shows "timestamps c = filter (\<lambda>a. last ts - w \<le> a) acc \<and> sorted acc \<and> (\<forall>a \<in> set acc. a \<le> last ts)
    \<and> int (length (timestamps c)) \<le> max 0 n \<and> max_requests c = n \<and> window_seconds c = w"
  using assms(1,2,4)
proof (induction ts arbitrary: c acc rule: rev_induct)
  case (snoc t ts)
  obtain c0 acc0 where r: "run_window (new_window n w) ts = (c0, acc0)" by fastforce
  have inv: "dropWhile (\<lambda>a. a < t - w) (timestamps c0) = filter (\<lambda>a. t - w \<le> a) acc0
      \<and> sorted acc0 \<and> (\<forall>a \<in> set acc0. a \<le> t) \<and> int (length (timestamps c0)) \<le> max 0 n
      \<and> max_requests c0 = n \<and> window_seconds c0 = w"
  proof (cases "ts = []")
    case True
    with r show ?thesis by (auto simp: run_window_def new_window_def)
  next
    case False
    have le: "last ts \<le> t" and st: "sorted ts" using snoc.prems(1) False by (auto simp: sorted_append)
    from snoc.IH [OF st False r] have IH: "timestamps c0 = filter (\<lambda>a. last ts - w \<le> a) acc0" "sorted acc0"
        "\<forall>a \<in> set acc0. a \<le> last ts" "int (length (timestamps c0)) \<le> max 0 n" "max_requests c0 = n" "window_seconds c0 = w"
      by auto
    have "last ts - w \<le> t - w" using le by (rule float_diff_mono) simp
    then have "filter (\<lambda>a. t - w \<le> a) (filter (\<lambda>a. last ts - w \<le> a) acc0) = filter (\<lambda>a. t - w \<le> a) acc0"
      by (auto intro!: filter_cong)
    moreover have "sorted (timestamps c0)" using IH by (simp add: sorted_filter [where f = id, simplified])
    ultimately show ?thesis using IH le dropWhile_sorted_filter [of "timestamps c0" "t - w"] by auto
  qed
  have step: "(c, acc) = window_step (c0, acc0) t"
    using snoc.prems(3) r by (simp add: run_window_def)
  have len: "length (dropWhile (\<lambda>a. a < t - w) (timestamps c0)) \<le> length (timestamps c0)"
    by (rule length_dropWhile_le)
  have tw: "t - w \<le> t" using assms(3) by (rule float_diff_le)
  show ?case
    using step inv len tw
    by (auto simp: window_step_def allow_def Let_def sorted_append split: if_splits)
qed simp

section \<open>The limiter\<close>

text \<open>The sorted readings of one operation, all at or after the previous time.\<close>

definition clock_from :: "pyfloat \<Rightarrow> readings \<Rightarrow> bool" where
  "clock_from t clk \<longleftrightarrow> t \<le> clk 0 \<and> (\<forall>i j. i \<le> j \<longrightarrow> clk i \<le> clk j)"

lemma clock_from_le: "clock_from t clk \<Longrightarrow> t \<le> clk i"
  unfolding clock_from_def by (meson le0 order_trans)

lemma clock_from_shift: "clock_from t clk \<Longrightarrow> clock_from (clk 2) (\<lambda>i. clk (i + 3))"
  unfolding clock_from_def by simp

lemma get_bucket_spec:
  assumes "get_bucket r key c clk = (r1, ob)"
  shows "\<exists>bs. r1 = r\<lparr>buckets := bs\<rparr>
    \<and> (\<forall>k b. (k, b) \<in> set bs \<longrightarrow> (k, b) \<in> set (buckets r) \<or> (k = key \<and> b = new_bucket c (clk 0)))
    \<and> (\<forall>b. ob = Inr b \<longrightarrow> dict_get bs key = Some b)"
proof -
  let ?new = "dict_set key (new_bucket c (clk 0)) (buckets r)"
  show ?thesis
  proof (cases "dict_mem key (buckets r)")
    case True
    with assms show ?thesis
      by (intro exI [of _ "buckets r"]) (auto simp: get_bucket_def Let_def split: option.splits)
  next
    case False
    then have new: "?new = buckets r @ [(key, new_bucket c (clk 0))]" by (rule dict_set_new)
    define bs where "bs = (if 10000 < length ?new
        then filter (\<lambda>(k, b). \<not> F 300 < clk 1 - last_refill b) ?new else ?new)"
    have "r1 = r\<lparr>buckets := bs\<rparr>" "ob = (case dict_get bs key of None \<Rightarrow> Raise KeyError | Some b \<Rightarrow> Ret b)"
      using assms False by (auto simp: get_bucket_def Let_def cleanup_stale_buckets_def bs_def split: if_splits)
    moreover have "(k, b) \<in> set bs \<Longrightarrow> (k, b) \<in> set (buckets r) \<or> (k = key \<and> b = new_bucket c (clk 0))" for k b
      by (auto simp: bs_def new split: if_splits)
    ultimately show ?thesis by (intro exI [of _ bs]) (auto split: option.splits)
  qed
qed

lemma in_dict_setD: "(j, w) \<in> set (dict_set k v d) \<Longrightarrow> (j, w) \<in> set d \<or> (j = k \<and> w = v)"
  by (induction k v d rule: dict_set.induct) (auto split: if_splits)

lemma in_dict_popD: "(j, w) \<in> set (dict_pop k d) \<Longrightarrow> (j, w) \<in> set d"
  by (simp add: dict_pop_def)

text \<open>What one check leaves: the bucket it charged, old ones, or nothing.\<close>

lemma check_spec:
  assumes "check H r sc ident c clk = (r', res)"
  shows "agent_config r' = agent_config r \<and> ip_config r' = ip_config r \<and> global_config r' = global_config r
    \<and> default_config r' = default_config r \<and> windows r' = windows r \<and> has_callback r' = has_callback r
    \<and> (\<forall>k b. (k, b) \<in> set (buckets r') \<longrightarrow>
         (k, b) \<in> set (buckets r) \<or> b = new_bucket c (clk 0)
         \<or> (\<exists>b0. ((\<exists>k0. (k0, b0) \<in> set (buckets r)) \<or> b0 = new_bucket c (clk 0)) \<and> b = fst (consume b0 (clk 2))))"
proof -
  let ?key = "bucket_key H sc ident"
  obtain r1 ob where g: "get_bucket r ?key c clk = (r1, ob)" by fastforce
  from get_bucket_spec [OF g] obtain bs where r1: "r1 = r\<lparr>buckets := bs\<rparr>"
    and bs: "\<And>k b. (k, b) \<in> set bs \<Longrightarrow> (k, b) \<in> set (buckets r) \<or> (k = ?key \<and> b = new_bucket c (clk 0))"
    and ob: "\<And>b. ob = Inr b \<Longrightarrow> dict_get bs ?key = Some b" by blast
  show ?thesis
  proof (cases ob)
    case (Inl x)
    then have "r' = r1" using assms g by (simp add: check_def Let_def)
    then show ?thesis using r1 bs by simp blast
  next
    case (Inr b0)
    obtain b1 okk where b1: "consume b0 (clk 2) = (b1, okk)" by fastforce
    have "(?key, b0) \<in> set bs" using ob [OF Inr] by (rule dict_getD)
    then have b0: "(\<exists>k0. (k0, b0) \<in> set (buckets r)) \<or> b0 = new_bucket c (clk 0)" using bs by blast
    have r': "r' = r1\<lparr>buckets := dict_set ?key b1 bs, notified := notified r'\<rparr>"
      using assms g Inr b1 r1 by (auto simp: check_def Let_def split: bool.splits)
    have "(k, b) \<in> set (buckets r') \<Longrightarrow> (k, b) \<in> set bs \<or> b = b1" for k b
      using in_dict_setD by (subst (asm) r') fastforce
    moreover have "b1 = fst (consume b0 (clk 2))" by (simp add: b1)
    ultimately have mem: "(k, b) \<in> set (buckets r') \<Longrightarrow>
         (k, b) \<in> set (buckets r) \<or> b = new_bucket c (clk 0)
         \<or> (\<exists>b0. ((\<exists>k0. (k0, b0) \<in> set (buckets r)) \<or> b0 = new_bucket c (clk 0)) \<and> b = fst (consume b0 (clk 2)))" for k b
      using b0 bs by blast
    have "agent_config r' = agent_config r" "ip_config r' = ip_config r" "global_config r' = global_config r"
      "default_config r' = default_config r" "windows r' = windows r" "has_callback r' = has_callback r"
      by (subst r', simp add: r1)+
    with mem show ?thesis by blast
  qed
qed

definition limiter_ok :: "RateLimiter \<Rightarrow> pyfloat \<Rightarrow> bool" where
  "limiter_ok r t \<longleftrightarrow>
     config_ok (agent_config r) \<and> config_ok (ip_config r) \<and> config_ok (global_config r) \<and> windows r = []
     \<and> (\<forall>k b. (k, b) \<in> set (buckets r) \<longrightarrow> bucket_ok b \<and> last_refill b \<le> t)"

lemma limiter_ok_check [invs]:
  assumes ok: "limiter_ok r t" and c: "config_ok c" and clk: "clock_from t clk"
  shows "limiter_ok (fst (check H r sc ident c clk)) (clk 2)"
proof -
  obtain r' res where r': "check H r sc ident c clk = (r', res)" by fastforce
  note s = check_spec [OF r']
  have t: "t \<le> clk 2" using clk by (rule clock_from_le)
  have t2: "clk 0 \<le> clk 2" using clk by (simp add: clock_from_def)
  have new: "bucket_ok (new_bucket c (clk 0))" "last_refill (new_bucket c (clk 0)) \<le> clk 2"
    using new_bucket_ok [OF c] t2 by (simp_all add: new_bucket_def)
  have old: "bucket_ok b \<and> last_refill b \<le> clk 2" if "(k, b) \<in> set (buckets r)" for k b
    using ok that t by (fastforce simp: limiter_ok_def)
  have "bucket_ok b \<and> last_refill b \<le> clk 2" if kb: "(k, b) \<in> set (buckets r')" for k b
  proof -
    from s kb consider "(k, b) \<in> set (buckets r)" | "b = new_bucket c (clk 0)"
      | k0 b0 where "(k0, b0) \<in> set (buckets r)" "b = fst (consume b0 (clk 2))"
      | "b = fst (consume (new_bucket c (clk 0)) (clk 2))" by blast
    then show ?thesis using old new consume_ok by cases auto
  qed
  with s ok show ?thesis by (simp add: r' limiter_ok_def)
qed

lemma limiter_configs:
  "limiter_ok r t \<Longrightarrow> config_ok (agent_config r)" "limiter_ok r t \<Longrightarrow> config_ok (ip_config r)"
  "limiter_ok r t \<Longrightarrow> config_ok (global_config r)"
  by (simp_all add: limiter_ok_def)

lemma check_configs [simp, frame]:
  "agent_config (fst (check H r sc ident c clk)) = agent_config r"
  "ip_config (fst (check H r sc ident c clk)) = ip_config r"
  "global_config (fst (check H r sc ident c clk)) = global_config r"
  using check_spec [of H r sc ident c clk] by (metis prod.collapse)+

lemma limiter_ok_later: "limiter_ok r t \<Longrightarrow> t \<le> t' \<Longrightarrow> limiter_ok r t'"
  unfolding limiter_ok_def by (meson order_trans)

lemma limiter_ok_reset [invs]: "limiter_ok r t \<Longrightarrow> limiter_ok (reset_bucket H r sc ident) t"
  by (auto simp: limiter_ok_def reset_bucket_def dict_pop_def)

lemma limiter_ok_run:
  assumes "\<And>f r t clk. f \<in> set fs \<Longrightarrow> limiter_ok r t \<Longrightarrow> clock_from t clk \<Longrightarrow> limiter_ok (fst (f r clk)) (clk 2)"
  shows "limiter_ok r t \<Longrightarrow> clock_from t clk \<Longrightarrow> limiter_ok (fst (run_checks fs r clk)) (clk (3 * length fs))"
  using assms
proof (induction fs arbitrary: r t clk)
  case Nil
  then show ?case using limiter_ok_later clock_from_le by (metis fst_conv mult_0_right list.size(3) run_checks.simps(1))
next
  case (Cons f fs)
  obtain r1 res where r1: "f r clk = (r1, res)" by fastforce
  have ok1: "limiter_ok r1 (clk 2)" using Cons.prems(3) [of f r t clk] Cons.prems(1,2) r1 by simp
  have ck: "clock_from (clk 2) (\<lambda>i. clk (i + 3))" using Cons.prems(2) by (rule clock_from_shift)
  have IH: "limiter_ok (fst (run_checks fs r1 (\<lambda>i. clk (i + 3)))) (clk (3 * length fs + 3))"
    using Cons.IH [OF ok1 ck] Cons.prems(3) by auto
  show ?case
  proof (cases res)
    case (Inl x)
    have "clk 2 \<le> clk (3 * length (f # fs))" using Cons.prems(2) by (simp add: clock_from_def)
    with Inl ok1 limiter_ok_later show ?thesis by (auto simp: r1)
  next
    case (Inr x)
    obtain r2 out where "run_checks fs r1 (\<lambda>i. clk (i + 3)) = (r2, out)" by fastforce
    with IH Inr show ?thesis by (cases out) (simp_all add: r1 add.commute)
  qed
qed

lemma limiter_ok_scopes:
  "f \<in> set (scopes_of H agent ip) \<Longrightarrow> limiter_ok r t \<Longrightarrow> clock_from t clk \<Longrightarrow> limiter_ok (fst (f r clk)) (clk 2)"
  by (auto simp: scopes_of_def check_agent_def check_ip_def check_global_def
      split: option.splits if_splits intro!: limiter_ok_check dest: limiter_configs)

lemma scopes_length: "length (scopes_of H agent ip) \<le> 3"
  by (auto simp: scopes_of_def split: option.splits)

lemma limiter_ok_check_all [invs]:
  assumes "limiter_ok r t" and "clock_from t clk"
  shows "limiter_ok (fst (check_all H r agent ip clk)) (clk 9)"
proof -
  let ?fs = "scopes_of H agent ip"
  have "limiter_ok (fst (run_checks ?fs r clk)) (clk (3 * length ?fs))"
    using limiter_ok_run [where fs = ?fs, OF _ assms] limiter_ok_scopes by blast
  moreover have "clk (3 * length ?fs) \<le> clk 9"
    using assms(2) scopes_length [of H agent ip] by (auto simp: clock_from_def)
  ultimately have "limiter_ok (fst (run_checks ?fs r clk)) (clk 9)" by (rule limiter_ok_later)
  moreover obtain r1 out where "run_checks ?fs r clk = (r1, out)" by fastforce
  ultimately show ?thesis by (cases out) (simp_all add: check_all_def)
qed

text \<open>Limiters reached by any sequence of operations, with the time of the last reading.\<close>

inductive reach_limiter :: "hash_fun \<Rightarrow> RateLimiter \<Rightarrow> pyfloat \<Rightarrow> bool" for H where
  fresh: "r = new_limiter d a i g cb \<Longrightarrow> config_ok (agent_config r) \<Longrightarrow> config_ok (ip_config r) \<Longrightarrow>
    config_ok (global_config r) \<Longrightarrow> reach_limiter H r t"
| agent: "reach_limiter H r t \<Longrightarrow> clock_from t clk \<Longrightarrow> reach_limiter H (fst (check_agent H r x clk)) (clk 2)"
| ip: "reach_limiter H r t \<Longrightarrow> clock_from t clk \<Longrightarrow> reach_limiter H (fst (check_ip H r x clk)) (clk 2)"
| global: "reach_limiter H r t \<Longrightarrow> clock_from t clk \<Longrightarrow> reach_limiter H (fst (check_global H r clk)) (clk 2)"
| all: "reach_limiter H r t \<Longrightarrow> clock_from t clk \<Longrightarrow> reach_limiter H (fst (check_all H r x y clk)) (clk 9)"
| reset: "reach_limiter H r t \<Longrightarrow> reach_limiter H (reset_bucket H r sc ident) t"

lemma reach_limiter_ok: "reach_limiter H r t \<Longrightarrow> limiter_ok r t"
proof (induction rule: reach_limiter.induct)
  case (fresh r d a i g cb t)
  then show ?case by (simp add: limiter_ok_def new_limiter_def Let_def)
qed (auto simp: check_agent_def check_ip_def check_global_def
    intro!: limiter_ok_check limiter_ok_check_all limiter_ok_reset dest: limiter_configs)

subsection \<open>Independence of the buckets\<close>

lemma check_other:
  assumes "k \<noteq> bucket_key H sc ident" and "length (buckets r) < 10000"
  shows "dict_get (buckets (fst (check H r sc ident c clk))) k = dict_get (buckets r) k"
proof -
  let ?key = "bucket_key H sc ident"
  have "length (dict_set ?key (new_bucket c (clk 0)) (buckets r)) \<le> 10000"
    using assms(2) by (simp add: length_dict_set)
  then have g: "\<exists>ob. get_bucket r ?key c clk =
      (if dict_mem ?key (buckets r) then r else r\<lparr>buckets := dict_set ?key (new_bucket c (clk 0)) (buckets r)\<rparr>, ob)"
    by (auto simp: get_bucket_def Let_def)
  obtain r1 ob where r1: "get_bucket r ?key c clk = (r1, ob)" by fastforce
  have same: "dict_get (buckets r1) k = dict_get (buckets r) k"
    using g r1 assms(1) by (auto split: if_splits)
  show ?thesis
  proof (cases ob)
    case (Inl x)
    with r1 same show ?thesis by (simp add: check_def Let_def)
  next
    case (Inr b)
    obtain b1 a where "consume b (clk 2) = (b1, a)" by fastforce
    with Inr r1 same assms(1) show ?thesis by (cases a) (simp_all add: check_def Let_def)
  qed
qed

lemma check_first:
  assumes "\<not> dict_mem (bucket_key H sc ident) (buckets r)" and "length (buckets r) < 10000"
  shows "\<exists>r' res. check H r sc ident c clk = (r', Ret res)
    \<and> allowed res = snd (consume (new_bucket c (clk 0)) (clk 2)) \<and> scope res = sc"
proof -
  let ?key = "bucket_key H sc ident" and ?b = "new_bucket c (clk 0)"
  have "length (dict_set ?key ?b (buckets r)) \<le> 10000" using assms(2) by (simp add: length_dict_set)
  then have g: "get_bucket r ?key c clk = (r\<lparr>buckets := dict_set ?key ?b (buckets r)\<rparr>, Ret ?b)"
    using assms(1) by (simp add: get_bucket_def Let_def)
  obtain b1 a where "consume ?b (clk 2) = (b1, a)" by fastforce
  with g show ?thesis by (cases a) (simp_all add: check_def Let_def)
qed

lemma most_restrictive_spec:
  assumes "rs \<noteq> []"
  shows "\<exists>x. most_restrictive rs = Ret x \<and> x \<in> set rs \<and> (allowed x \<longleftrightarrow> (\<forall>y \<in> set rs. allowed y))
    \<and> (allowed x \<longrightarrow> (\<forall>y \<in> set rs. remaining x \<le> remaining y))"
proof (cases "filter (\<lambda>r. \<not> allowed r) rs")
  case Nil
  then have all: "\<forall>y \<in> set rs. allowed y" by (auto simp: filter_empty_conv)
  obtain m where m: "py_min_by remaining rs = Some m" using assms by fastforce
  from py_min_by_SomeD [OF m] all show ?thesis by (simp add: most_restrictive_def Nil m)
next
  case (Cons b bs)
  then have "b \<in> set (filter (\<lambda>r. \<not> allowed r) rs)" by simp
  then have "b \<in> set rs" "\<not> allowed b" by (simp_all del: Cons)
  moreover have "most_restrictive rs = Ret b" by (simp add: most_restrictive_def Cons)
  ultimately show ?thesis by blast
qed

lemma run_checks_length: "run_checks fs r clk = (r', Inr rs) \<Longrightarrow> length rs = length fs"
  by (induction fs r clk arbitrary: r' rs rule: run_checks.induct)
    (auto split: prod.splits sum.splits)

lemma run_checks_last:
  "run_checks (fs @ [g]) r clk = (r', Inr rs) \<Longrightarrow> \<exists>r0 clk0. g r0 clk0 = (r', Ret (last rs))"
proof (induction fs arbitrary: r clk r' rs)
  case Nil
  then show ?case by (fastforce split: prod.splits sum.splits)
next
  case (Cons f fs)
  then obtain r1 x r2 ys where ys: "f r clk = (r1, Inr x)"
    "run_checks (fs @ [g]) r1 (\<lambda>i. clk (i + 3)) = (r2, Inr ys)" "rs = x # ys" "r' = r2"
    by (auto split: prod.splits sum.splits)
  have "ys \<noteq> []" using run_checks_length [OF ys(2)] by auto
  with Cons.IH [OF ys(2)] ys(3,4) show ?case by simp
qed

section \<open>Properties\<close>

text \<open>
  C25: in every limiter reached by checks and resets under a clock that does not run backwards,
  each bucket holds between 0 and its burst size of tokens (in floating point, with rounding), its
  last refill is not in the future, and the table of sliding windows is empty: no operation ever
  fills it.
\<close>

theorem limiter_reachable_ok:
  assumes "reach_limiter H r t"
  shows "windows r = [] \<and> (\<forall>k b. dict_get (buckets r) k = Some b \<longrightarrow>
    0 \<le> tokens b \<and> tokens b \<le> F (of_int (burst_size (tb_config b))) \<and> last_refill b \<le> t)"
proof -
  have ok: "limiter_ok r t" by (rule reach_limiter_ok [OF assms])
  have "bucket_ok b \<and> last_refill b \<le> t" if "dict_get (buckets r) k = Some b" for k b
    using ok dict_getD [OF that] unfolding limiter_ok_def by blast
  with bucket_okD ok show ?thesis by (auto simp: limiter_ok_def)
qed

theorem limiter_reachable_ok_witness:
  "windows (fst (check_all (\<lambda>s. s) (new_limiter None None None None False) (Some ''a'') None (\<lambda>_. 0))) = []"
proof -
  have r: "reach_limiter (\<lambda>s. s) (new_limiter None None None None False) 0"
    by (rule reach_limiter.fresh [OF refl])
      (simp_all add: new_limiter_def config_ok_def default_agent_config_def Let_def)
  have "clock_from 0 (\<lambda>_. 0)" by (simp add: clock_from_def)
  from limiter_reachable_ok [OF reach_limiter.all [OF r this]] show ?thesis by blast
qed

text \<open>
  C9: admission bound. Over any sequence of requests at non-decreasing times, a bucket admits at
  most its burst size plus rate times the elapsed time, up to the rounding of floating point: a
  factor \<open>(1 + 2 ^ -53) ^ 3\<close> on the refill and a relative \<open>2 ^ -52\<close> of the burst size per request.
\<close>

theorem bucket_admission_bound:
  assumes "bucket_ok b" and "sorted (last_refill b # ts)"
  shows "of_nat (admitted (snd (run_bucket b ts)))
    \<le> rat_of (max_tokens b) * (1 + of_nat (length ts) / 2 ^ 52)
      + (1 + 1 / 2 ^ 53) ^ 3 * rat_of (rate b) * (rat_of (last (last_refill b # ts)) - rat_of (last_refill b))"
proof -
  obtain b' oks where r: "run_bucket b ts = (b', oks)" by fastforce
  note p = run_bucket_potential [OF assms r]
  have "0 \<le> rat_of (tokens b')" using p by (auto simp: bucket_ok_def rat_of_le)
  moreover have "tokens b \<le> max_tokens b" by (rule bucket_okD [OF assms(1)])
  then have "rat_of (tokens b) \<le> rat_of (max_tokens b)" by (simp add: rat_of_le)
  moreover have "of_nat (length ts) * (2 * ulp_half * rat_of (max_tokens b))
      = rat_of (max_tokens b) * (of_nat (length ts) / 2 ^ 52)" by (simp add: ulp_half_def)
  ultimately show ?thesis using p unfolding r snd_conv ulp_half_def by (simp only: distrib_left mult_1_right) linarith
qed

theorem bucket_admission_bound_witness:
  "of_nat (admitted (snd (run_bucket (new_bucket default_agent_config 0) [0, 1])))
    \<le> rat_of (F 10) * (1 + 2 / 2 ^ 52) + (1 + 1 / 2 ^ 53) ^ 3 * rat_of (F 5) * (1 - 0)"
proof -
  have "bucket_ok (new_bucket default_agent_config 0)"
    by (rule new_bucket_ok) (simp add: config_ok_def default_agent_config_def)
  from bucket_admission_bound [OF this, of "[0, 1]"] show ?thesis
    by (simp add: new_bucket_def default_agent_config_def)
qed

text \<open>
  Burst. Of \<open>n\<close> requests that arrive at the same instant on a fresh bucket, exactly the first
  \<open>burst_size\<close> are admitted.
\<close>

theorem bucket_burst:
  assumes "0 \<le> burst_size c" and "burst_size c \<le> 2 ^ 53"
  shows "snd (run_bucket (new_bucket c now) (replicate n now)) =
    replicate (min n (nat (burst_size c))) True @ replicate (n - nat (burst_size c)) False"
  by (rule run_same_instant [where m = "burst_size c"]) (use assms in \<open>simp_all add: new_bucket_def\<close>)

theorem bucket_burst_witness:
  "snd (run_bucket (new_bucket default_agent_config (F 7)) (replicate 12 (F 7))) = replicate 10 True @ replicate 2 False"
  using bucket_burst [of default_agent_config "F 7" 12] by (simp add: default_agent_config_def)

text \<open>
  Sliding window. After any requests at non-decreasing times, the accepted ones that fall into
  the window ending at the last request number at most \<open>max_requests\<close>, and the counter keeps
  exactly those.
\<close>

theorem window_bound:
  assumes "sorted ts" and "ts \<noteq> []" and "0 \<le> w"
  shows "timestamps (fst (run_window (new_window n w) ts))
      = filter (\<lambda>a. last ts - w \<le> a) (snd (run_window (new_window n w) ts))
    \<and> int (length (filter (\<lambda>a. last ts - w \<le> a) (snd (run_window (new_window n w) ts)))) \<le> max 0 n"
proof -
  obtain c acc where r: "run_window (new_window n w) ts = (c, acc)" by fastforce
  from run_window_inv [OF assms r] show ?thesis unfolding r fst_conv snd_conv by metis
qed

theorem window_bound_witness:
  "int (length (filter (\<lambda>a. 1 - F 60 \<le> a) (snd (run_window (new_window 1 (F 60)) [0, 1])))) \<le> 1"
  using window_bound [of "[0, 1]" "F 60" 1] by simp

text \<open>
  \<open>check_all\<close> answers with one of the individual results; it allows exactly when every scope
  allows, then with the smallest remaining count, and otherwise it reports the first refusing
  scope. The global bucket is always charged, whichever scope refuses.
\<close>

theorem check_all_spec:
  assumes "run_checks (scopes_of H agent ip) r clk = (r', Ret rs)"
  shows "case check_all H r agent ip clk of
      (r2, Inr x) \<Rightarrow> r2 = r' \<and> x \<in> set rs \<and> (allowed x \<longleftrightarrow> (\<forall>y \<in> set rs. allowed y))
        \<and> (if allowed x then \<forall>y \<in> set rs. remaining x \<le> remaining y
           else x = hd (filter (\<lambda>y. \<not> allowed y) rs))
        \<and> (\<exists>r0 clk0. check_global H r0 clk0 = (r', Ret (last rs)))
    | (r2, Inl _) \<Rightarrow> False"
proof -
  have len: "length rs = length (scopes_of H agent ip)" by (rule run_checks_length [OF assms])
  then have ne: "rs \<noteq> []" by (auto simp: scopes_of_def)
  from most_restrictive_spec [OF ne] obtain x where x: "most_restrictive rs = Ret x" "x \<in> set rs"
    "allowed x \<longleftrightarrow> (\<forall>y \<in> set rs. allowed y)" "allowed x \<longrightarrow> (\<forall>y \<in> set rs. remaining x \<le> remaining y)" by blast
  have first: "\<not> allowed x \<Longrightarrow> x = hd (filter (\<lambda>y. \<not> allowed y) rs)"
    using x(1) py_min_by_SomeD [of remaining rs] x(3)
    by (auto simp: most_restrictive_def filter_empty_conv split: list.splits option.splits)
  have "\<exists>r0 clk0. check_global H r0 clk0 = (r', Ret (last rs))"
    using run_checks_last [of _ "\<lambda>r clk. check_global H r clk"] assms unfolding scopes_of_def append_assoc [symmetric] by blast
  then show ?thesis using x first by (simp add: check_all_def assms)
qed

theorem check_all_spec_witness:
  "\<exists>r' rs. run_checks (scopes_of (\<lambda>s. s) None None) (new_limiter None None None None False) (\<lambda>_. 0) = (r', Ret rs)
    \<and> (case check_all (\<lambda>s. s) (new_limiter None None None None False) None None (\<lambda>_. 0) of
         (r2, Inr x) \<Rightarrow> r2 = r' \<and> x \<in> set rs | _ \<Rightarrow> False)"
proof -
  let ?r = "new_limiter None None None None False"
  obtain r' res where "check (\<lambda>s. s) ?r ''global'' ''_'' (global_config ?r) (\<lambda>_. 0) = (r', Ret res)"
    using check_first [of "\<lambda>s. s" "''global''" "''_''" ?r "global_config ?r" "\<lambda>_. 0"]
    by (auto simp: new_limiter_def dict_mem_def Let_def)
  then have "run_checks (scopes_of (\<lambda>s. s) None None) ?r (\<lambda>_. 0) = (r', Ret [res])"
    by (simp add: scopes_of_def check_global_def)
  with check_all_spec [OF this] show ?thesis by (auto split: prod.splits sum.splits)
qed

text \<open>
  Buckets are independent: a check for one key leaves the bucket of every other key as it was
  (below 10000 buckets, where no cleanup runs), and after a reset the next request is judged by a
  fresh bucket.
\<close>

theorem limiter_isolation:
  assumes "length (buckets r) < 10000"
  shows "(k \<noteq> bucket_key H sc ident \<longrightarrow>
        dict_get (buckets (fst (check H r sc ident c clk))) k = dict_get (buckets r) k)
    \<and> (case check H (reset_bucket H r sc ident) sc ident c clk of
        (_, Inr res) \<Rightarrow> allowed res = snd (consume (new_bucket c (clk 0)) (clk 2))
      | _ \<Rightarrow> False)"
proof -
  have "\<not> dict_mem (bucket_key H sc ident) (buckets (reset_bucket H r sc ident))"
    by (simp add: dict_mem_def reset_bucket_def)
  moreover have "length (buckets (reset_bucket H r sc ident)) < 10000"
    using assms length_dict_pop_le [of "bucket_key H sc ident" "buckets r"] by (simp add: reset_bucket_def)
  ultimately show ?thesis using check_first [of H sc ident "reset_bucket H r sc ident" c clk] check_other assms
    by fastforce
qed

theorem limiter_isolation_witness:
  "dict_get (buckets (fst (check (\<lambda>s. s) (new_limiter None None None None False) ''ip'' ''1'' default_agent_config (\<lambda>_. 0)))) ''x'' = None"
  using limiter_isolation [of "new_limiter None None None None False" "''x''" "\<lambda>s. s" "''ip''" "''1''"
      default_agent_config "\<lambda>_. 0"]
  by (simp add: new_limiter_def bucket_key_def py_encode_def utf8_char_def Let_def)

end
