(* ===== verification/Egress.thy ===== *)
theory Egress
  imports PyNumber
begin

text \<open>
  The egress proxy: \<open>src/core/security/egress.py\<close>.

  Hosts and patterns are strings, times are floats; \<open>clk i\<close> is the \<open>i\<close>-th clock reading of one
  call. \<open>fnmatch\<close> is the standard library's \<open>fnmatch.fnmatch\<close> on a POSIX system (no case
  folding): \<open>*\<close>, \<open>?\<close> and bracket classes with ranges and negation; an unclosed bracket is a
  literal.

  Groups: wildcard patterns; the proxy and its operations; then the lemmas on matching, rate
  limiting and the event buffer. The bound on allowed requests per minute is proved for every
  sequence of operations.
\<close>

section \<open>Wildcard patterns\<close>

datatype glob_tok = Star | AnyChar | OneOf bool "(char \<times> char) list" | Lit char

text \<open>The text after an opening bracket: the class body and what follows the closing bracket.\<close>

definition split_class :: "string \<Rightarrow> (bool \<times> string \<times> string) option" where
  "split_class s =
     (let neg = (s \<noteq> [] \<and> hd s = CHR ''!'');
          t = (if neg then tl s else s);
          pre = (if t \<noteq> [] \<and> hd t = CHR '']'' then '']'' else []);
          u = drop (length pre) t
      in if CHR '']'' \<in> set u
         then Some (neg, pre @ takeWhile (\<lambda>c. c \<noteq> CHR '']'') u, tl (dropWhile (\<lambda>c. c \<noteq> CHR '']'') u))
         else None)"

fun class_items :: "string \<Rightarrow> (char \<times> char) list" where
  "class_items [] = []"
| "class_items [c] = [(c, c)]"
| "class_items [c, d] = [(c, c), (d, d)]"
| "class_items (c # d # e # s) =
     (if d = CHR ''-'' then (c, e) # class_items s else (c, c) # class_items (d # e # s))"

lemma split_class_length: "split_class s = Some (n, b, r) \<Longrightarrow> length r < length s"
proof -
  assume a: "split_class s = Some (n, b, r)"
  define t where "t = (if s \<noteq> [] \<and> hd s = CHR ''!'' then tl s else s)"
  define u where "u = drop (length (if t \<noteq> [] \<and> hd t = CHR '']'' then '']'' else [])) t"
  have r: "CHR '']'' \<in> set u" "r = tl (dropWhile (\<lambda>c. c \<noteq> CHR '']'') u)"
    using a by (auto simp: split_class_def Let_def t_def u_def split: if_splits)
  have "dropWhile (\<lambda>c. c \<noteq> CHR '']'') u \<noteq> []" using r(1) by auto
  then have "length r < length (dropWhile (\<lambda>c. c \<noteq> CHR '']'') u)" by (simp add: r(2))
  also have "\<dots> \<le> length u" by (rule length_dropWhile_le)
  also have "length u \<le> length t" by (simp add: u_def)
  also have "length t \<le> length s" by (simp add: t_def)
  finally show "length r < length s" .
qed

function glob_toks :: "string \<Rightarrow> glob_tok list" where
  "glob_toks [] = []"
| "glob_toks (c # s) =
     (if c = CHR ''*'' then Star # glob_toks s
      else if c = CHR ''?'' then AnyChar # glob_toks s
      else if c = CHR ''['' then
        (case split_class s of
           None \<Rightarrow> Lit c # glob_toks s
         | Some (neg, body, rest) \<Rightarrow> OneOf neg (class_items body) # glob_toks rest)
      else Lit c # glob_toks s)"
  by pat_completeness auto
termination
  by (relation "measure length") (auto dest: split_class_length)

definition in_class :: "(char \<times> char) list \<Rightarrow> char \<Rightarrow> bool" where
  "in_class rs c = list_ex (\<lambda>(lo, hi). (of_char lo :: int) \<le> of_char c \<and> (of_char c :: int) \<le> of_char hi) rs"

fun glob_match :: "glob_tok list \<Rightarrow> string \<Rightarrow> bool" where
  "glob_match [] s = (s = [])"
| "glob_match (Star # ts) [] = glob_match ts []"
| "glob_match (Star # ts) (c # s) = (glob_match ts (c # s) \<or> glob_match (Star # ts) s)"
| "glob_match (AnyChar # ts) s = (case s of [] \<Rightarrow> False | c # s' \<Rightarrow> glob_match ts s')"
| "glob_match (OneOf neg rs # ts) s =
     (case s of [] \<Rightarrow> False | c # s' \<Rightarrow> in_class rs c \<noteq> neg \<and> glob_match ts s')"
| "glob_match (Lit d # ts) s = (case s of [] \<Rightarrow> False | c # s' \<Rightarrow> c = d \<and> glob_match ts s')"

definition fnmatch :: "string \<Rightarrow> string \<Rightarrow> bool" where
  "fnmatch name pat = glob_match (glob_toks pat) name"

section \<open>The proxy\<close>

datatype Protocol = HTTPS | WSS | HTTP

fun protocol_value :: "Protocol \<Rightarrow> string" where
  "protocol_value HTTPS = ''https''"
| "protocol_value WSS = ''wss''"
| "protocol_value HTTP = ''http''"

datatype EgressDecision =
  ALLOW | DENY_DOMAIN | DENY_PROTOCOL | DENY_RATE_LIMIT | DENY_SIZE_LIMIT | DENY_OFFLINE

fun decision_value :: "EgressDecision \<Rightarrow> string" where
  "decision_value ALLOW = ''allow''"
| "decision_value DENY_DOMAIN = ''deny_domain''"
| "decision_value DENY_PROTOCOL = ''deny_protocol''"
| "decision_value DENY_RATE_LIMIT = ''deny_rate_limit''"
| "decision_value DENY_SIZE_LIMIT = ''deny_size_limit''"
| "decision_value DENY_OFFLINE = ''deny_offline''"

record EgressRule =
  r_host :: string
  r_port :: int
  r_protocol :: Protocol
  max_request_size_bytes :: int
  max_requests_per_minute :: int
  description :: string

record EgressEvent =
  ev_timestamp :: pyfloat
  ev_agent_id :: string
  ev_task_id :: string
  ev_host :: string
  ev_port :: int
  ev_protocol :: string
  ev_decision :: string
  ev_reason :: string
  bytes_sent :: int
  bytes_received :: int

record EgressProxy =
  allowed_domains :: "(string, EgressRule) dict"
  domain_patterns :: "string list"
  request_history :: "(string, pyfloat list) dict"
  events :: "EgressEvent list"
  default_max_request_size :: int
  default_rate_limit :: int
  strict_mode :: bool

definition new_proxy :: "int \<Rightarrow> int \<Rightarrow> bool \<Rightarrow> EgressProxy" where
  "new_proxy sz rl strict =
     \<lparr>allowed_domains = [], domain_patterns = [], request_history = [], events = [],
      default_max_request_size = sz, default_rate_limit = rl, strict_mode = strict\<rparr>"

definition TRUSTED_AI_APIS :: "(string \<times> int) list" where
  "TRUSTED_AI_APIS =
     [(''api.openai.com'', 443), (''api.anthropic.com'', 443), (''generativelanguage.googleapis.com'', 443),
      (''api.cohere.ai'', 443), (''api.mistral.ai'', 443)]"

text \<open>\<open>x or default\<close> for an optional integer: \<open>None\<close> and 0 take the default.\<close>

definition or_default :: "int option \<Rightarrow> int \<Rightarrow> int" where
  "or_default x d = (case x of None \<Rightarrow> d | Some n \<Rightarrow> if n = 0 then d else n)"

definition add_domain ::
    "EgressProxy \<Rightarrow> string \<Rightarrow> int \<Rightarrow> Protocol \<Rightarrow> int option \<Rightarrow> int option \<Rightarrow> string \<Rightarrow> EgressProxy" where
  "add_domain p host port proto sz rl desc =
     p\<lparr>allowed_domains := dict_set host
         \<lparr>r_host = host, r_port = port, r_protocol = proto,
          max_request_size_bytes = or_default sz (default_max_request_size p),
          max_requests_per_minute = or_default rl (default_rate_limit p), description = desc\<rparr>
         (allowed_domains p)\<rparr>"

definition add_wildcard :: "EgressProxy \<Rightarrow> string \<Rightarrow> int \<Rightarrow> EgressProxy" where
  "add_wildcard p pat port = p\<lparr>domain_patterns := domain_patterns p @ [pat]\<rparr>"

definition add_trusted_apis :: "EgressProxy \<Rightarrow> EgressProxy" where
  "add_trusted_apis p =
     foldl (\<lambda>p (host, port). add_domain p host port HTTPS None None ''Trusted AI API'') p TRUSTED_AI_APIS"

definition remove_domain :: "EgressProxy \<Rightarrow> string \<Rightarrow> EgressProxy" where
  "remove_domain p host =
     p\<lparr>allowed_domains := dict_pop host (allowed_domains p),
       domain_patterns := filter (\<lambda>q. q \<noteq> host) (domain_patterns p)\<rparr>"

definition history_of :: "EgressProxy \<Rightarrow> string \<Rightarrow> pyfloat list" where
  "history_of p agent = (case dict_get (request_history p) agent of None \<Rightarrow> [] | Some ts \<Rightarrow> ts)"

definition record_request :: "EgressProxy \<Rightarrow> string \<Rightarrow> pyfloat \<Rightarrow> EgressProxy" where
  "record_request p agent now =
     p\<lparr>request_history := dict_set agent (history_of p agent @ [now]) (request_history p)\<rparr>"

definition check_rate_limit :: "EgressProxy \<Rightarrow> string \<Rightarrow> EgressRule \<Rightarrow> pyfloat \<Rightarrow> EgressProxy \<times> bool" where
  "check_rate_limit p agent rule now =
     (let recent = filter (\<lambda>t. now - F 60 < t) (history_of p agent)
      in (p\<lparr>request_history := dict_set agent recent (request_history p)\<rparr>,
          int (length recent) < max_requests_per_minute rule))"

definition record_event ::
    "EgressProxy \<Rightarrow> string \<Rightarrow> string \<Rightarrow> string \<Rightarrow> int \<Rightarrow> string \<Rightarrow> EgressDecision \<Rightarrow> string \<Rightarrow> pyfloat \<Rightarrow> EgressProxy" where
  "record_event p agent task host port proto d why now =
     (let es = events p @ [\<lparr>ev_timestamp = now, ev_agent_id = agent, ev_task_id = task, ev_host = host,
                ev_port = port, ev_protocol = proto, ev_decision = decision_value d, ev_reason = why,
                bytes_sent = 0, bytes_received = 0\<rparr>]
      in p\<lparr>events := if 10000 < length es then drop (length es - 5000) es else es\<rparr>)"

text \<open>The rule that applies to a host: its own, or a default one when a wildcard matches.\<close>

definition effective_rule :: "EgressProxy \<Rightarrow> string \<Rightarrow> EgressRule option" where
  "effective_rule p host =
     (case dict_get (allowed_domains p) host of
        Some r \<Rightarrow> Some r
      | None \<Rightarrow>
          if list_ex (fnmatch host) (domain_patterns p)
          then Some \<lparr>r_host = host, r_port = 443, r_protocol = HTTPS,
                     max_request_size_bytes = default_max_request_size p,
                     max_requests_per_minute = default_rate_limit p, description = []\<rparr>
          else None)"

text \<open>Readings: 0 when the request is recorded, 1 in the rate check, 2 in the event.\<close>

definition evaluate ::
    "EgressProxy \<Rightarrow> string \<Rightarrow> string \<Rightarrow> string \<Rightarrow> int \<Rightarrow> string \<Rightarrow> int \<Rightarrow> (nat \<Rightarrow> pyfloat)
      \<Rightarrow> EgressProxy \<times> EgressDecision" where
  "evaluate p agent task host port proto sz clk =
     (case effective_rule p host of
        None \<Rightarrow> (record_event p agent task host port proto DENY_DOMAIN (''Domain not allowed: '' @ host) (clk 2),
                 DENY_DOMAIN)
      | Some rule \<Rightarrow>
          let p1 = record_request p agent (clk 0);
              want = protocol_value (r_protocol rule)
          in if py_lower proto \<noteq> want
             then (record_event p1 agent task host port proto DENY_PROTOCOL
                     (''Protocol not allowed: '' @ proto @ '' (expected '' @ want @ '')'') (clk 2), DENY_PROTOCOL)
             else case check_rate_limit p1 agent rule (clk 1) of
                 (p2, False) \<Rightarrow>
                   (record_event p2 agent task host port proto DENY_RATE_LIMIT ''Rate limit exceeded'' (clk 2),
                    DENY_RATE_LIMIT)
               | (p2, True) \<Rightarrow>
                   if max_request_size_bytes rule < sz
                   then (record_event p2 agent task host port proto DENY_SIZE_LIMIT
                           (''Request too large: '' @ show_int sz @ '' bytes'') (clk 2), DENY_SIZE_LIMIT)
                   else (record_event p2 agent task host port proto ALLOW [] (clk 2), ALLOW))"

definition log_connection ::
    "EgressProxy \<Rightarrow> string \<Rightarrow> string \<Rightarrow> int \<Rightarrow> int \<Rightarrow> int \<Rightarrow> string \<Rightarrow> (nat \<Rightarrow> pyfloat) \<Rightarrow> EgressProxy" where
  "log_connection p agent host port sent recv task clk =
     record_event (record_request p agent (clk 0)) agent task host port ''https'' ALLOW
       (''sent='' @ show_int sent @ '', recv='' @ show_int recv) (clk 2)"

text \<open>A filter argument counts unless it is \<open>None\<close> or empty.\<close>

definition wanted :: "string option \<Rightarrow> string \<Rightarrow> bool" where
  "wanted f s = (case f of None \<Rightarrow> True | Some x \<Rightarrow> x = [] \<or> s = x)"

fun collect_events ::
    "string option \<Rightarrow> string option \<Rightarrow> int \<Rightarrow> EgressEvent list \<Rightarrow> EgressEvent list \<Rightarrow> EgressEvent list" where
  "collect_events a d limit [] results = results"
| "collect_events a d limit (e # es) results =
     (if limit \<le> int (length results) then results
      else if \<not> wanted a (ev_agent_id e) then collect_events a d limit es results
      else if \<not> wanted d (ev_decision e) then collect_events a d limit es results
      else collect_events a d limit es (results @ [e]))"

definition get_events :: "EgressProxy \<Rightarrow> string option \<Rightarrow> string option \<Rightarrow> int \<Rightarrow> EgressEvent list" where
  "get_events p a d limit = collect_events a d limit (rev (events p)) []"

record egress_stats =
  total_events :: nat
  es_allowed :: nat
  es_denied :: nat
  denial_reasons :: "(string, int) dict"
  n_allowed_domains :: nat
  n_wildcards :: nat
  active_agents :: nat

definition bump_reason :: "(string, int) dict \<Rightarrow> string \<Rightarrow> (string, int) dict" where
  "bump_reason d k = dict_set k ((case dict_get d k of None \<Rightarrow> 0 | Some n \<Rightarrow> n) + 1) d"

definition get_statistics :: "EgressProxy \<Rightarrow> egress_stats" where
  "get_statistics p =
     \<lparr>total_events = length (events p),
      es_allowed = length (filter (\<lambda>e. ev_decision e = ''allow'') (events p)),
      es_denied = length (filter (\<lambda>e. ev_decision e \<noteq> ''allow'') (events p)),
      denial_reasons = foldl bump_reason [] (map ev_decision (filter (\<lambda>e. ev_decision e \<noteq> ''allow'') (events p))),
      n_allowed_domains = length (allowed_domains p),
      n_wildcards = length (domain_patterns p),
      active_agents = length (request_history p)\<rparr>"

section \<open>Matching\<close>

definition plain_pat :: "string \<Rightarrow> bool" where
  "plain_pat s = list_all (\<lambda>c. c \<noteq> CHR ''*'' \<and> c \<noteq> CHR ''?'' \<and> c \<noteq> CHR ''['') s"

lemma glob_toks_plain: "plain_pat s \<Longrightarrow> glob_toks s = map Lit s"
  by (induction s) (auto simp: plain_pat_def)

lemma glob_match_lits: "glob_match (map Lit t) s \<longleftrightarrow> s = t"
  by (induction t arbitrary: s) (auto split: list.splits)

lemma glob_match_Star: "glob_match (Star # ts) s \<longleftrightarrow> (\<exists>a b. s = a @ b \<and> glob_match ts b)"
proof (induction s)
  case (Cons c s)
  show ?case
  proof
    assume "glob_match (Star # ts) (c # s)"
    then consider "glob_match ts (c # s)" | "glob_match (Star # ts) s" by auto
    then show "\<exists>a b. c # s = a @ b \<and> glob_match ts b"
    proof cases
      case 1
      then have "c # s = [] @ (c # s) \<and> glob_match ts (c # s)" by simp
      then show ?thesis by blast
    next
      case 2
      with Cons.IH obtain a b where "s = a @ b" "glob_match ts b" by blast
      then have "c # s = (c # a) @ b \<and> glob_match ts b" by simp
      then show ?thesis by blast
    qed
  next
    assume "\<exists>a b. c # s = a @ b \<and> glob_match ts b"
    then obtain a b where ab: "c # s = a @ b" "glob_match ts b" by blast
    then show "glob_match (Star # ts) (c # s)" using Cons.IH by (cases a) auto
  qed
qed simp

section \<open>Rate limiting over a run\<close>

definition domain_known :: "EgressProxy \<Rightarrow> string \<Rightarrow> bool" where
  "domain_known p host = (effective_rule p host \<noteq> None)"

lemma record_event_sel [simp]:
  "request_history (record_event p a t h port pr d w n) = request_history p"
  "allowed_domains (record_event p a t h port pr d w n) = allowed_domains p"
  "domain_patterns (record_event p a t h port pr d w n) = domain_patterns p"
  "default_rate_limit (record_event p a t h port pr d w n) = default_rate_limit p"
  "default_max_request_size (record_event p a t h port pr d w n) = default_max_request_size p"
  by (simp_all add: record_event_def Let_def)

lemma history_record_event [simp]: "history_of (record_event p a t h port pr d w n) x = history_of p x"
  by (simp add: history_of_def)

lemma history_record_request [simp]:
  "history_of (record_request p a now) x = (if x = a then history_of p a @ [now] else history_of p x)"
  by (simp add: history_of_def record_request_def)

lemma history_check:
  "check_rate_limit p a rule now = (p2, ok) \<Longrightarrow>
   history_of p2 x = (if x = a then filter (\<lambda>t. now - F 60 < t) (history_of p a) else history_of p x)
   \<and> ok = (int (length (filter (\<lambda>t. now - F 60 < t) (history_of p a))) < max_requests_per_minute rule)
   \<and> events p2 = events p"
  by (auto simp: check_rate_limit_def history_of_def Let_def)

text \<open>What one evaluation does, by cases of its decision.\<close>

lemma evaluate_cases:
  assumes "evaluate p a task host port proto sz clk = (p', d)"
  obtains (domain) "effective_rule p host = None" "d = DENY_DOMAIN" "\<And>x. history_of p' x = history_of p x"
  | (protocol) rule where "effective_rule p host = Some rule" "d = DENY_PROTOCOL"
      "py_lower proto \<noteq> protocol_value (r_protocol rule)"
      "\<And>x. history_of p' x = (if x = a then history_of p a @ [clk 0] else history_of p x)"
  | (checked) rule where "effective_rule p host = Some rule" "py_lower proto = protocol_value (r_protocol rule)"
      "\<And>x. history_of p' x = (if x = a then filter (\<lambda>t. clk 1 - F 60 < t) (history_of p a @ [clk 0]) else history_of p x)"
      "d = (if \<not> int (length (history_of p' a)) < max_requests_per_minute rule then DENY_RATE_LIMIT
            else if max_request_size_bytes rule < sz then DENY_SIZE_LIMIT else ALLOW)"
proof (cases "effective_rule p host")
  case None
  with assms domain show thesis by (auto simp: evaluate_def)
next
  case (Some rule)
  show thesis
  proof (cases "py_lower proto = protocol_value (r_protocol rule)")
    case False
    with Some assms protocol show thesis by (auto simp: evaluate_def Let_def)
  next
    case True
    obtain p2 ok where c: "check_rate_limit (record_request p a (clk 0)) a rule (clk 1) = (p2, ok)" by fastforce
    note h = history_check [OF c]
    have "(\<forall>x. history_of p' x = history_of p2 x) \<and>
      d = (if \<not> ok then DENY_RATE_LIMIT else if max_request_size_bytes rule < sz then DENY_SIZE_LIMIT else ALLOW)"
      using assms Some True c by (auto simp: evaluate_def Let_def split: bool.splits if_splits)
    then show thesis using checked [OF Some True] h by auto
  qed
qed

lemma evaluate_decision:
  "snd (evaluate p a task host port proto sz clk) =
    (case effective_rule p host of
       None \<Rightarrow> DENY_DOMAIN
     | Some rule \<Rightarrow>
         if py_lower proto \<noteq> protocol_value (r_protocol rule) then DENY_PROTOCOL
         else if \<not> int (length (filter (\<lambda>t. clk 1 - F 60 < t) (history_of p a @ [clk 0]))) < max_requests_per_minute rule
         then DENY_RATE_LIMIT
         else if max_request_size_bytes rule < sz then DENY_SIZE_LIMIT else ALLOW)"
proof -
  obtain p' d where e: "evaluate p a task host port proto sz clk = (p', d)" by fastforce
  from e show ?thesis by (cases rule: evaluate_cases) (simp_all add: e)
qed

lemma evaluate_history:
  "request_history (fst (evaluate p a task host port proto sz clk)) =
    (case effective_rule p host of
       None \<Rightarrow> request_history p
     | Some rule \<Rightarrow>
         if py_lower proto \<noteq> protocol_value (r_protocol rule) then request_history (record_request p a (clk 0))
         else request_history (fst (check_rate_limit (record_request p a (clk 0)) a rule (clk 1))))"
  by (simp add: evaluate_def Let_def split: option.split prod.split bool.split)

text \<open>Operations on a proxy; a run collects the agent and record time of every allowed request.\<close>

datatype egress_op =
    Evaluate string string string int string int
  | AddDomain string int Protocol "int option" "int option" string
  | AddWildcard string int
  | AddTrusted
  | RemoveDomain string
  | LogConnection string string int int int string

fun egress_step :: "EgressProxy \<Rightarrow> egress_op \<Rightarrow> (nat \<Rightarrow> pyfloat) \<Rightarrow> EgressProxy \<times> (string \<times> pyfloat) list" where
  "egress_step p (Evaluate a task host port proto sz) clk =
     (case evaluate p a task host port proto sz clk of
        (p', d) \<Rightarrow> (p', if d = ALLOW then [(a, clk 0)] else []))"
| "egress_step p (AddDomain h port pr sz rl desc) clk = (add_domain p h port pr sz rl desc, [])"
| "egress_step p (AddWildcard pat port) clk = (add_wildcard p pat port, [])"
| "egress_step p AddTrusted clk = (add_trusted_apis p, [])"
| "egress_step p (RemoveDomain h) clk = (remove_domain p h, [])"
| "egress_step p (LogConnection a h port s r task) clk = (log_connection p a h port s r task clk, [])"

definition ticks :: "pyfloat \<Rightarrow> (nat \<Rightarrow> pyfloat) \<Rightarrow> bool" where
  "ticks t clk \<longleftrightarrow> t \<le> clk 0 \<and> clk 0 \<le> clk 1 \<and> clk 1 \<le> clk 2"

inductive reach_egress :: "EgressProxy \<Rightarrow> (string \<times> pyfloat) list \<Rightarrow> pyfloat \<Rightarrow> bool" where
  fresh: "reach_egress (new_proxy sz rl strict) [] t"
| step: "reach_egress p acc t \<Longrightarrow> ticks t clk \<Longrightarrow> egress_step p op clk = (p', new) \<Longrightarrow>
    reach_egress p' (acc @ new) (clk 2)"

definition times_of :: "string \<Rightarrow> (string \<times> pyfloat) list \<Rightarrow> pyfloat list" where
  "times_of a acc = map snd (filter (\<lambda>(b, _). b = a) acc)"

definition after :: "pyfloat \<Rightarrow> pyfloat list \<Rightarrow> nat" where
  "after x ts = length (filter (\<lambda>t. x < t) ts)"

lemma after_simps [simp]:
  "after x [] = 0" "after x (ts @ us) = after x ts + after x us"
  "after x [t] = (if x < t then 1 else 0)"
  by (simp_all add: after_def)

lemma after_filter: "c \<le> x \<Longrightarrow> after x (filter (\<lambda>t. c < t) ts) = after x ts"
  unfolding after_def filter_filter by (rule arg_cong [where f = length], rule filter_cong) auto

lemma times_of_simps [simp]:
  "times_of a [] = []" "times_of a (xs @ ys) = times_of a xs @ times_of a ys"
  "times_of a [(b, t)] = (if b = a then [t] else [])"
  by (simp_all add: times_of_def)

definition history_covers :: "EgressProxy \<Rightarrow> (string \<times> pyfloat) list \<Rightarrow> pyfloat \<Rightarrow> bool" where
  "history_covers p acc t \<longleftrightarrow> (\<forall>a x. t - F 60 \<le> x \<longrightarrow> after x (times_of a acc) \<le> after x (history_of p a))"

lemma history_other_ops [simp]:
  "history_of (add_domain p h port pr sz rl desc) a = history_of p a"
  "history_of (add_wildcard p pat port) a = history_of p a"
  "history_of (remove_domain p h) a = history_of p a"
  "history_of (add_trusted_apis p) a = history_of p a"
  by (simp_all add: add_domain_def add_wildcard_def remove_domain_def history_of_def add_trusted_apis_def TRUSTED_AI_APIS_def)

lemma covers_later:
  "history_covers p acc t \<Longrightarrow> t \<le> t' \<Longrightarrow> (\<And>a. history_of p' a = history_of p a) \<Longrightarrow> history_covers p' acc t'"
  unfolding history_covers_def by (metis float_diff_mono order_refl order_trans)

lemma covers_evaluate:
  assumes h: "history_covers p acc t" and clk: "ticks t clk"
    and e: "evaluate p a task host port proto sz clk = (p', d)"
  shows "history_covers p' (acc @ (if d = ALLOW then [(a, clk 0)] else [])) (clk 2)"
proof -
  have t: "t \<le> clk 2" using clk by (auto simp: ticks_def)
  have c1: "clk 1 - F 60 \<le> clk 2 - F 60" using clk by (intro float_diff_mono) (auto simp: ticks_def)
  have t60: "t - F 60 \<le> clk 2 - F 60" using t by (intro float_diff_mono) auto
  have old: "after x (times_of b acc) \<le> after x (history_of p b)" if "clk 2 - F 60 \<le> x" for b x
    using h that t60 by (auto simp: history_covers_def intro: order_trans)
  from e show ?thesis
  proof (cases rule: evaluate_cases)
    case domain
    with old show ?thesis by (simp add: history_covers_def)
  next
    case (protocol rule)
    with old show ?thesis by (auto simp: history_covers_def intro: le_SucI)
  next
    case (checked rule)
    have "after x (history_of p' b) = after x (history_of p b) + (if b = a \<and> x < clk 0 then 1 else 0)"
      if "clk 2 - F 60 \<le> x" for b x
      using checked(3) [of b] that c1 after_filter [of "clk 1 - F 60" x "history_of p a @ [clk 0]"]
      by (cases "b = a") auto
    with old show ?thesis by (auto simp: history_covers_def intro: le_SucI)
  qed
qed

lemma reach_covers: "reach_egress p acc t \<Longrightarrow> history_covers p acc t"
proof (induction rule: reach_egress.induct)
  case (fresh sz rl strict t)
  then show ?case by (simp add: history_covers_def)
next
  case (step p acc t clk op p' new)
  have t: "t \<le> clk 2" using step.hyps(2) by (auto simp: ticks_def)
  show ?case
  proof (cases op)
    case (Evaluate a task host port proto sz)
    obtain d where "evaluate p a task host port proto sz clk = (p', d)" "new = (if d = ALLOW then [(a, clk 0)] else [])"
      using step.hyps(3) Evaluate by (auto split: prod.splits)
    with covers_evaluate [OF step.IH step.hyps(2)] show ?thesis by blast
  next
    case (LogConnection a h port s r task)
    then have p': "p' = log_connection p a h port s r task clk" "new = []" using step.hyps(3) by auto
    have c: "history_covers p acc (clk 2)" by (rule covers_later [OF step.IH t]) simp
    then show ?thesis unfolding p' log_connection_def history_covers_def by (auto intro: le_SucI)
  qed (use step.hyps(3) covers_later [OF step.IH t] in auto)
qed

lemma evaluate_allow_rate:
  assumes r: "reach_egress p acc t" and clk: "ticks t clk"
    and e: "evaluate p a task host port proto sz clk = (p', ALLOW)"
  shows "\<exists>rule. effective_rule p host = Some rule \<and> py_lower proto = protocol_value (r_protocol rule)
    \<and> sz \<le> max_request_size_bytes rule
    \<and> int (after (clk 1 - F 60) (times_of a acc @ [clk 0])) < max_requests_per_minute rule"
  using e
proof (cases rule: evaluate_cases)
  case (checked rule)
  have "t - F 60 \<le> clk 1 - F 60" using clk by (intro float_diff_mono) (auto simp: ticks_def)
  then have "after (clk 1 - F 60) (times_of a acc) \<le> after (clk 1 - F 60) (history_of p a)"
    using reach_covers [OF r] by (simp add: history_covers_def)
  moreover have "length (history_of p' a) = after (clk 1 - F 60) (history_of p a @ [clk 0])"
    using checked(3) [of a] by (simp add: after_def)
  ultimately have "int (after (clk 1 - F 60) (times_of a acc @ [clk 0])) < max_requests_per_minute rule"
    using checked(4) by (simp split: if_splits)
  with checked show ?thesis by (intro exI [of _ rule]) (auto split: if_splits)
qed simp_all

section \<open>The event buffer\<close>

lemma events_record:
  "\<exists>k e. events (record_event p a t h port pr d w n) = drop k (events p) @ [e]
     \<and> ev_decision e = decision_value d \<and> ev_agent_id e = a
     \<and> (length (events p) \<le> 10000 \<longrightarrow> length (events (record_event p a t h port pr d w n)) \<le> 10000)"
proof (cases "10000 < Suc (length (events p))")
  case True
  then show ?thesis
    by (intro exI [of _ "Suc (length (events p)) - 5000"]) (auto simp: record_event_def Let_def)
next
  case False
  then show ?thesis by (intro exI [of _ 0]) (auto simp: record_event_def Let_def)
qed

lemma record_request_events [simp]: "events (record_request p a n) = events p"
  by (simp add: record_request_def)

lemma evaluate_events:
  assumes "evaluate p a task host port proto sz clk = (p', d)"
  shows "\<exists>k e. events p' = drop k (events p) @ [e] \<and> ev_decision e = decision_value d \<and> ev_agent_id e = a
    \<and> (length (events p) \<le> 10000 \<longrightarrow> length (events p') \<le> 10000)"
proof -
  have "\<exists>q w. p' = record_event q a task host port proto d w (clk 2) \<and> events q = events p"
  proof (cases "effective_rule p host")
    case None
    with assms show ?thesis by (auto simp: evaluate_def)
  next
    case (Some rule)
    obtain p2 ok where c: "check_rate_limit (record_request p a (clk 0)) a rule (clk 1) = (p2, ok)" by fastforce
    then have "events p2 = events p" using history_check [OF c] by simp
    with Some c assms show ?thesis
      by (cases ok) (auto simp: evaluate_def Let_def split: if_splits)
  qed
  then obtain q w where "p' = record_event q a task host port proto d w (clk 2)" "events q = events p" by blast
  then show ?thesis using events_record [of q a task host port proto d w "clk 2"] by metis
qed

lemma reach_events: "reach_egress p acc t \<Longrightarrow> length (events p) \<le> 10000"
proof (induction rule: reach_egress.induct)
  case (step p acc t clk op p' new)
  show ?case
  proof (cases op)
    case (Evaluate a task host port proto sz)
    then show ?thesis using step evaluate_events by (fastforce split: prod.splits)
  next
    case (LogConnection a h port s r task)
    then show ?thesis using step events_record [of "record_request p a (clk 0)"]
      by (fastforce simp: log_connection_def)
  qed (use step in \<open>auto simp: add_domain_def add_wildcard_def add_trusted_apis_def TRUSTED_AI_APIS_def remove_domain_def\<close>)
qed (simp add: new_proxy_def)

lemma collect_events_ref:
  "collect_events a d limit es res =
     res @ take (nat (limit - int (length res)))
       (filter (\<lambda>e. wanted a (ev_agent_id e) \<and> wanted d (ev_decision e)) es)"
proof (induction a d limit es res rule: collect_events.induct)
  case (2 a d limit e es res)
  show ?case
  proof (cases "limit \<le> int (length res)")
    case False
    then have "nat (limit - int (length res)) = Suc (nat (limit - int (length (res @ [e]))))" by simp
    with False 2 show ?thesis by auto
  qed simp
qed simp

section \<open>Properties\<close>

text \<open>
  C8: default deny. A request is allowed only if its host has a rule or matches a wildcard, its
  protocol is the rule's and its size is within the rule's limit; and over any sequence of
  operations under a clock that does not run backwards, the requests of the agent allowed in the
  minute before the rate check, this one included, are fewer than \<open>max_requests_per_minute\<close>: the
  request is recorded before the strict comparison, so a limit of n admits at most n - 1.
\<close>

theorem egress_allow_bound:
  assumes "reach_egress p acc t" and "ticks t clk"
    and "evaluate p a task host port proto sz clk = (p', ALLOW)"
  shows "\<exists>rule. effective_rule p host = Some rule \<and> py_lower proto = protocol_value (r_protocol rule)
    \<and> sz \<le> max_request_size_bytes rule
    \<and> int (length (filter (\<lambda>s. clk 1 - F 60 < s) (times_of a acc @ [clk 0]))) < max_requests_per_minute rule"
  using evaluate_allow_rate [OF assms] by (simp add: after_def)

theorem egress_allow_bound_witness:
  "let p = add_domain (new_proxy 10 2 True) ''h'' 443 HTTPS None None []
   in snd (evaluate p ''a'' [] ''h'' 80 ''HTTPS'' 5 (\<lambda>_. 0)) = ALLOW
      \<and> (\<exists>rule. effective_rule p ''h'' = Some rule \<and> 5 \<le> max_request_size_bytes rule)"
proof -
  let ?p = "add_domain (new_proxy 10 2 True) ''h'' 443 HTTPS None None []"
  have r: "reach_egress ?p ([] @ []) 0"
    by (rule reach_egress.step [OF reach_egress.fresh [where t = 0], where clk = "\<lambda>_. 0" and op = "AddDomain ''h'' 443 HTTPS None None []"])
      (simp_all add: ticks_def)
  have t: "ticks 0 (\<lambda>_. 0)" by (simp add: ticks_def)
  have "snd (evaluate ?p ''a'' [] ''h'' 80 ''HTTPS'' 5 (\<lambda>_. 0)) = ALLOW" by code_simp
  then obtain p' where e: "evaluate ?p ''a'' [] ''h'' 80 ''HTTPS'' 5 (\<lambda>_. 0) = (p', ALLOW)"
    by (metis prod.collapse)
  from egress_allow_bound [OF r t e] e show ?thesis by auto
qed

text \<open>
  A rule whose limit is 1 (or less) allows nothing at all.
\<close>

theorem egress_limit_one:
  assumes "effective_rule p host = Some rule" and "max_requests_per_minute rule \<le> 1"
    and "clk 1 - F 60 < clk 0"
  shows "snd (evaluate p a task host port proto sz clk) \<noteq> ALLOW"
proof -
  obtain p' d where e: "evaluate p a task host port proto sz clk = (p', d)" by fastforce
  from e show ?thesis
  proof (cases rule: evaluate_cases)
    case (checked r)
    then have "1 \<le> length (history_of p' a)" "r = rule" using assms by auto
    with checked(4) assms(2) show ?thesis by (simp add: e)
  qed (simp_all add: e)
qed

theorem egress_limit_one_witness:
  "snd (evaluate (add_domain (new_proxy 10 60 True) ''h'' 443 HTTPS None (Some 1) []) ''a'' [] ''h'' 443 ''https'' 5 (\<lambda>_. 0)) \<noteq> ALLOW"
proof -
  have "0 - F 60 < 0" by code_simp
  then show ?thesis
    by (intro egress_limit_one [where rule = "\<lparr>r_host = ''h'', r_port = 443, r_protocol = HTTPS,
          max_request_size_bytes = 10, max_requests_per_minute = 1, description = []\<rparr>"])
      (simp_all add: effective_rule_def add_domain_def new_proxy_def or_default_def)
qed

text \<open>
  The port plays no part in a decision, neither the requested one nor the one of the rule, and
  neither does \<open>strict_mode\<close>: requests that differ only there get the same decision and leave the
  same request history.
\<close>

theorem egress_port_ignored:
  "snd (evaluate p a task host port proto sz clk) = snd (evaluate (p\<lparr>strict_mode := s\<rparr>) a task host port' proto sz clk)
   \<and> request_history (fst (evaluate p a task host port proto sz clk))
       = request_history (fst (evaluate (p\<lparr>strict_mode := s\<rparr>) a task host port' proto sz clk))
   \<and> snd (evaluate (add_domain q host pt pr m n desc) a task host port proto sz clk)
       = snd (evaluate (add_domain q host pt' pr m n desc) a task host port proto sz clk)"
proof -
  have "effective_rule (p\<lparr>strict_mode := s\<rparr>) host = effective_rule p host"
    by (simp add: effective_rule_def split: option.split)
  moreover have "history_of (p\<lparr>strict_mode := s\<rparr>) a = history_of p a" by (simp add: history_of_def)
  moreover have "request_history (fst (check_rate_limit (record_request (p\<lparr>strict_mode := s\<rparr>) a t0) a r t1))
      = request_history (fst (check_rate_limit (record_request p a t0) a r t1))"
    "request_history (record_request (p\<lparr>strict_mode := s\<rparr>) a t0) = request_history (record_request p a t0)" for r t0 t1
    by (simp_all add: check_rate_limit_def record_request_def history_of_def Let_def)
  ultimately have 1: "snd (evaluate p a task host port proto sz clk) = snd (evaluate (p\<lparr>strict_mode := s\<rparr>) a task host port' proto sz clk)"
   "request_history (fst (evaluate p a task host port proto sz clk))
       = request_history (fst (evaluate (p\<lparr>strict_mode := s\<rparr>) a task host port' proto sz clk))"
    unfolding evaluate_decision evaluate_history by (simp_all split: option.split)
  have "snd (evaluate (add_domain q host pt pr m n desc) a task host port proto sz clk)
       = snd (evaluate (add_domain q host pt' pr m n desc) a task host port proto sz clk)"
    unfolding evaluate_decision history_other_ops by (simp add: effective_rule_def add_domain_def)
  with 1 show ?thesis by blast
qed

text \<open>
  A pattern \<open>*.suffix\<close> without further special characters matches exactly the hosts that end
  in \<open>.suffix\<close>, at any depth and never the bare suffix; a pattern without special characters
  matches only itself.
\<close>

theorem fnmatch_suffix:
  assumes "plain_pat s"
  shows "(fnmatch host (CHR ''*'' # CHR ''.'' # s) \<longleftrightarrow> (\<exists>p. host = p @ CHR ''.'' # s)) \<and> (fnmatch host s \<longleftrightarrow> host = s)"
proof -
  have p: "plain_pat (CHR ''.'' # s)" using assms by (simp add: plain_pat_def)
  have "fnmatch host (CHR ''*'' # CHR ''.'' # s) \<longleftrightarrow> (\<exists>p. host = p @ CHR ''.'' # s)"
    using glob_toks_plain [OF p] glob_match_lits [of "CHR ''.'' # s"]
    by (simp add: fnmatch_def glob_match_Star del: glob_match.simps)
  moreover have "fnmatch host s \<longleftrightarrow> host = s"
    by (simp add: fnmatch_def glob_toks_plain [OF assms] glob_match_lits)
  ultimately show ?thesis ..
qed

theorem fnmatch_suffix_witness:
  "fnmatch ''a.b.googleapis.com'' ''*.googleapis.com'' \<and> \<not> fnmatch ''googleapis.com'' ''*.googleapis.com''"
proof -
  have "plain_pat ''googleapis.com''" by code_simp
  note f = fnmatch_suffix [OF this]
  have "''a.b.googleapis.com'' = ''a.b'' @ CHR ''.'' # ''googleapis.com''" by simp
  then have "fnmatch ''a.b.googleapis.com'' ''*.googleapis.com''" using f by blast
  moreover have "''googleapis.com'' \<noteq> p @ CHR ''.'' # ''googleapis.com''" for p
  proof
    assume "''googleapis.com'' = p @ CHR ''.'' # ''googleapis.com''"
    from arg_cong [OF this, of length] show False by simp
  qed
  then have "\<not> fnmatch ''googleapis.com'' ''*.googleapis.com''" using f by blast
  ultimately show ?thesis ..
qed

text \<open>
  C24: the event buffer never exceeds 10000 entries, every evaluation appends exactly one event
  carrying its decision and agent (older ones may be dropped from the front), and \<open>get_events\<close>
  returns the newest \<open>limit\<close> events that pass both filters.
\<close>

theorem egress_events:
  assumes "reach_egress p acc t"
  shows "length (events p) \<le> 10000
    \<and> (\<exists>k e. events (fst (evaluate p a task host port proto sz clk)) = drop k (events p) @ [e]
        \<and> ev_decision e = decision_value (snd (evaluate p a task host port proto sz clk)) \<and> ev_agent_id e = a)
    \<and> get_events p x y limit = take (nat limit)
        (filter (\<lambda>e. wanted x (ev_agent_id e) \<and> wanted y (ev_decision e)) (rev (events p)))"
proof -
  obtain p' d where e: "evaluate p a task host port proto sz clk = (p', d)" by fastforce
  show ?thesis
    using reach_events [OF assms] evaluate_events [OF e] by (auto simp: e get_events_def collect_events_ref)
qed

theorem egress_events_witness: "get_events (new_proxy 1 1 True) None None 5 = [] \<and> length (events (new_proxy 1 1 True)) \<le> 10000"
  using egress_events [OF reach_egress.fresh, of 1 1 True _ _ _ _ _ _ _ None None 5] by (simp add: new_proxy_def)

lemma bump_reason_sum: "sum_list (map snd (bump_reason d k)) = sum_list (map snd d) + 1"
proof -
  have "sum_list (map snd (dict_set k v d)) = sum_list (map snd d) + v - (case dict_get d k of None \<Rightarrow> 0 | Some n \<Rightarrow> n)"
    for v :: int by (induction k v d rule: dict_set.induct) auto
  then show ?thesis by (simp add: bump_reason_def)
qed

text \<open>
  \<open>get_statistics\<close> is consistent: allowed and denied events add up to the total, and the
  counts per denial reason add up to the denied events.
\<close>

theorem egress_statistics:
  "es_allowed (get_statistics p) + es_denied (get_statistics p) = total_events (get_statistics p)
   \<and> sum_list (map snd (denial_reasons (get_statistics p))) = int (es_denied (get_statistics p))"
proof -
  have "sum_list (map snd (foldl bump_reason d ks)) = sum_list (map snd d) + int (length ks)" for d ks
    by (induction ks arbitrary: d) (simp_all add: bump_reason_sum)
  then show ?thesis
    using sum_length_filter_compl [of "\<lambda>e. ev_decision e = ''allow''" "events p"] by (simp add: get_statistics_def)
qed

end
