(* ===== verification/Seccomp.thy ===== *)
theory Seccomp
  imports PyJson Utils
begin

text \<open>
  Seccomp profiles: \<open>src/core/security/seccomp.py\<close>.

  A profile is written as JSON, so rules are \<open>json\<close> objects as the code builds them, and the base
  profile of the hardened mode is whatever JSON the installed container tools ship. The iteration
  order of the frozen block list is arbitrary in Python: it is the argument \<open>ord\<close> of the
  default-deny profile. Allowed names are a set, sorted where the code sorts.

  What a profile does to a syscall is stated with \<open>first_action\<close>, the action of the first rule that
  names it: the comments of the code call earlier rules the ones of highest priority.
\<close>

section \<open>Syscall lists\<close>

definition AGENT_MINIMAL_SYSCALLS :: "string list" where
  "AGENT_MINIMAL_SYSCALLS =
     [''read'', ''write'', ''close'', ''fstat'', ''fstat64'', ''lseek'', ''lseek64'', ''mmap'',
      ''mmap2'', ''munmap'', ''brk'', ''sbrk'', ''open'', ''openat'', ''open64'', ''openat64'',
      ''readlink'', ''readlinkat'', ''faccessat'', ''faccessat2'', ''stat'', ''stat64'',
      ''lstat'', ''lstat64'', ''newfstatat'', ''getdents'', ''getdents64'', ''mprotect'',
      ''mremap'', ''mincore'', ''rt_sigaction'', ''rt_sigprocmask'', ''rt_sigreturn'',
      ''sigaltstack'', ''socket'', ''connect'', ''sendto'', ''recvfrom'', ''recvmsg'',
      ''sendmsg'', ''shutdown'', ''getsockname'', ''getpeername'', ''poll'', ''ppoll'',
      ''select'', ''pselect6'', ''epoll_create'', ''epoll_create1'', ''epoll_ctl'',
      ''epoll_wait'', ''futex'', ''clone'', ''clone3'', ''set_tid_address'', ''gettid'',
      ''sched_yield'', ''sched_getaffinity'', ''clock_gettime'', ''clock_getres'',
      ''gettimeofday'', ''nanosleep'', ''getrlimit'', ''getrusage'', ''uname'', ''getpid'',
      ''getppid'', ''getuid'', ''getgid'', ''geteuid'', ''getegid'', ''getgroups'', ''exit'',
      ''exit_group'', ''pipe'', ''pipe2'', ''eventfd'', ''eventfd2'', ''dup'', ''dup2'',
      ''dup3'', ''statx'']"

definition BLOCKLIST_SYSCALLS :: "string list" where
  "BLOCKLIST_SYSCALLS =
     [''ptrace'', ''process_vm_readv'', ''process_vm_writev'', ''userfaultfd'', ''mount'',
      ''umount'', ''umount2'', ''pivot_root'', ''kexec_load'', ''kexec_file_load'', ''reboot'',
      ''sethostname'', ''setdomainname'', ''init_module'', ''finit_module'', ''delete_module'',
      ''keyctl'', ''add_key'', ''request_key'', ''capset'', ''capget'', ''unshare'', ''setns'',
      ''bpf'', ''perf_event_open'', ''iopl'', ''ioperm'', ''syslog'', ''acct'', ''personality'',
      ''io_uring_setup'', ''io_uring_enter'', ''io_uring_register'', ''landlock_create_ruleset'',
      ''landlock_add_rule'', ''landlock_restrict_self'', ''restart_syscall'', ''nfsservctl'',
      ''_sysctl'', ''lookup_dcookie'', ''vmsplice'']"

definition HARDEN_KILL_SYSCALLS :: "string list" where
  "HARDEN_KILL_SYSCALLS =
     [''init_module'', ''finit_module'', ''delete_module'', ''ptrace'', ''process_vm_readv'',
      ''process_vm_writev'', ''keyctl'', ''request_key'', ''add_key'', ''bpf'',
      ''perf_event_open'', ''reboot'', ''mount'', ''mount_setattr'', ''move_mount'', ''umount2'',
      ''pivot_root'', ''open_tree'', ''fspick'', ''fsopen'', ''fsconfig'', ''fsmount'',
      ''swapon'', ''swapoff'', ''kexec_load'', ''kexec_file_load'']"


definition network_syscalls :: "string list" where
  "network_syscalls =
     [''socket'', ''connect'', ''sendto'', ''recvfrom'',
      ''recvmsg'', ''sendmsg'', ''shutdown'',
      ''getsockname'', ''getpeername'',
      ''bind'', ''listen'', ''accept'', ''accept4'',
      ''setsockopt'', ''getsockopt'']"

section \<open>Profiles\<close>

datatype SeccompAction = SCMP_ACT_KILL | SCMP_ACT_ERRNO | SCMP_ACT_TRACE | SCMP_ACT_ALLOW | SCMP_ACT_LOG

fun action_value :: "SeccompAction \<Rightarrow> string" where
  "action_value SCMP_ACT_KILL = ''SCMP_ACT_KILL''"
| "action_value SCMP_ACT_ERRNO = ''SCMP_ACT_ERRNO''"
| "action_value SCMP_ACT_TRACE = ''SCMP_ACT_TRACE''"
| "action_value SCMP_ACT_ALLOW = ''SCMP_ACT_ALLOW''"
| "action_value SCMP_ACT_LOG = ''SCMP_ACT_LOG''"

text \<open>\<open>SeccompAction(v)\<close>: the member with that value, or ValueError.\<close>

definition action_of :: "json \<Rightarrow> SeccompAction outcome" where
  "action_of j =
     (case find (\<lambda>a. j = JStr (action_value a)) [SCMP_ACT_KILL, SCMP_ACT_ERRNO, SCMP_ACT_TRACE, SCMP_ACT_ALLOW, SCMP_ACT_LOG] of
        None \<Rightarrow> Raise ValueError | Some a \<Rightarrow> Ret a)"

datatype SeccompArch = SCMP_ARCH_X86_64 | SCMP_ARCH_AARCH64 | SCMP_ARCH_X86 | SCMP_ARCH_X32

fun arch_value :: "SeccompArch \<Rightarrow> string" where
  "arch_value SCMP_ARCH_X86_64 = ''SCMP_ARCH_X86_64''"
| "arch_value SCMP_ARCH_AARCH64 = ''SCMP_ARCH_AARCH64''"
| "arch_value SCMP_ARCH_X86 = ''SCMP_ARCH_X86''"
| "arch_value SCMP_ARCH_X32 = ''SCMP_ARCH_X32''"

definition ARCH_MAP :: json where
  "ARCH_MAP =
     JList
       [JObj [(''architecture'', JStr ''SCMP_ARCH_X86_64''),
              (''subArchitectures'', JList [JStr ''SCMP_ARCH_X86'', JStr ''SCMP_ARCH_X32''])],
        JObj [(''architecture'', JStr ''SCMP_ARCH_AARCH64''),
              (''subArchitectures'', JList [JStr ''SCMP_ARCH_ARM''])]]"

record block_rule =
  br_action :: string
  br_comment :: string
  br_errno :: "int option"

text \<open>\<open>base_profile\<close> is set exactly in the hardened mode.\<close>

record SeccompProfile =
  profile_name :: string
  default_action :: SeccompAction
  audit_mode :: bool
  allowed_syscalls :: "string set"
  blocked_specific :: "(string, block_rule) dict"
  architectures :: "SeccompArch list"
  arch_map :: json
  base_profile :: "(string, json) dict option"

definition new_profile ::
    "string \<Rightarrow> SeccompAction \<Rightarrow> SeccompArch list option \<Rightarrow> bool \<Rightarrow> SeccompProfile" where
  "new_profile name act archs audit =
     \<lparr>profile_name = name, default_action = act, audit_mode = audit, allowed_syscalls = {},
      blocked_specific = [],
      architectures = (case archs of Some (a # as) \<Rightarrow> a # as | _ \<Rightarrow> [SCMP_ARCH_X86_64, SCMP_ARCH_AARCH64]),
      arch_map = ARCH_MAP, base_profile = None\<rparr>"

text \<open>The argument \<open>text\<close> is the content of the default profile of the container tools, if the file exists.\<close>

definition from_podman_default :: "string option \<Rightarrow> string \<Rightarrow> SeccompProfile outcome" where
  "from_podman_default text name =
     (case text of
        None \<Rightarrow> Raise FileNotFoundError
      | Some s \<Rightarrow>
          (case loads s of
             None \<Rightarrow> Raise (decode_error s)
           | Some (JObj d) \<Rightarrow>
               (case dict_get d ''defaultAction'' of
                  None \<Rightarrow> Raise KeyError
                | Some j \<Rightarrow>
                    (case action_of j of
                       Inl x \<Rightarrow> Raise x
                     | Inr a \<Rightarrow>
                         Ret ((new_profile name a None False)
                               \<lparr>base_profile := Some d,
                                arch_map := (case dict_get d ''archMap'' of None \<Rightarrow> ARCH_MAP | Some m \<Rightarrow> m)\<rparr>)))
           | Some _ \<Rightarrow> Raise TypeError))"

definition add_syscalls :: "SeccompProfile \<Rightarrow> string list \<Rightarrow> SeccompProfile" where
  "add_syscalls p names =
     foldl (\<lambda>p s. if s \<in> set BLOCKLIST_SYSCALLS then p
                  else p\<lparr>allowed_syscalls := insert s (allowed_syscalls p)\<rparr>) p names"

definition block_syscall :: "SeccompProfile \<Rightarrow> string \<Rightarrow> int \<Rightarrow> string \<Rightarrow> SeccompProfile" where
  "block_syscall p s errno act =
     p\<lparr>blocked_specific := dict_set s
         \<lparr>br_action = act, br_comment = ''Blocked by VibeShield: '' @ s,
          br_errno = (if act = ''SCMP_ACT_ERRNO'' then Some errno else None)\<rparr>
         (blocked_specific p)\<rparr>"

definition allow_network :: "SeccompProfile \<Rightarrow> SeccompProfile" where
  "allow_network p = add_syscalls p network_syscalls"

definition scmp_rule :: "string list \<Rightarrow> string \<Rightarrow> string option \<Rightarrow> json" where
  "scmp_rule names act comment =
     JObj ([(''names'', JList (map JStr names)), (''action'', JStr act), (''args'', JList [])]
           @ (case comment of None \<Rightarrow> [] | Some c \<Rightarrow> [(''comment'', JStr c)])
           @ [(''includes'', JObj []), (''excludes'', JObj [])])"

definition blocked_entry :: "string \<Rightarrow> block_rule \<Rightarrow> json" where
  "blocked_entry s r =
     (case scmp_rule [s] (br_action r) (Some (br_comment r)) of
        JObj ms \<Rightarrow> JObj (ms @ (case br_errno r of None \<Rightarrow> [] | Some n \<Rightarrow> [(''errnoRet'', JInt n)]))
      | j \<Rightarrow> j)"

definition visible_syscalls :: "SeccompProfile \<Rightarrow> string list" where
  "visible_syscalls p = sorted_list_of_set (allowed_syscalls p - set BLOCKLIST_SYSCALLS)"

definition default_deny_rules :: "string list \<Rightarrow> SeccompProfile \<Rightarrow> json list" where
  "default_deny_rules ord p =
     map (\<lambda>s. scmp_rule [s] ''SCMP_ACT_KILL'' (Some (''Always-blocked: '' @ s))) ord
     @ map (\<lambda>(s, r). blocked_entry s r) (blocked_specific p)
     @ map (\<lambda>s. scmp_rule [s] (if audit_mode p then ''SCMP_ACT_LOG'' else ''SCMP_ACT_ALLOW'') None)
         (filter (\<lambda>s. \<not> dict_mem s (blocked_specific p)) (visible_syscalls p))"

definition to_dict_default_deny :: "string list \<Rightarrow> SeccompProfile \<Rightarrow> (string, json) dict" where
  "to_dict_default_deny ord p =
     [(''defaultAction'', JStr (if audit_mode p then ''SCMP_ACT_LOG'' else action_value (default_action p))),
      (''defaultErrnoRet'', JInt 1),
      (''architectures'', JList (map (\<lambda>a. JStr (arch_value a)) (architectures p))),
      (''syscalls'', JList (default_deny_rules ord p))]"

definition kill_names :: "SeccompProfile \<Rightarrow> string set" where
  "kill_names p =
     set HARDEN_KILL_SYSCALLS
     \<union> set (map fst (filter (\<lambda>(s, r). br_action r = ''SCMP_ACT_KILL'') (blocked_specific p)))"

definition errno_entry :: "string \<Rightarrow> block_rule \<Rightarrow> json" where
  "errno_entry s r =
     JObj [(''names'', JList [JStr s]), (''action'', JStr ''SCMP_ACT_ERRNO''), (''args'', JList []),
           (''comment'', JStr (br_comment r)),
           (''errnoRet'', JInt (case br_errno r of None \<Rightarrow> 1 | Some n \<Rightarrow> n)),
           (''includes'', JObj []), (''excludes'', JObj [])]"

text \<open>Each errno rule is inserted at position 1, so the last one comes first.\<close>

definition harden_rules :: "SeccompProfile \<Rightarrow> json list \<Rightarrow> json list" where
  "harden_rules p base =
     scmp_rule (sorted_list_of_set (kill_names p)) ''SCMP_ACT_KILL''
       (Some ''VibeShield: dangerous syscalls blocked'')
     # rev (map (\<lambda>(s, r). errno_entry s r)
             (filter (\<lambda>(s, r). br_action r = ''SCMP_ACT_ERRNO'') (blocked_specific p)))
     @ base"

definition to_dict_harden :: "SeccompProfile \<Rightarrow> (string, json) dict \<Rightarrow> (string, json) dict outcome" where
  "to_dict_harden p d =
     (case dict_get d ''syscalls'' of
        None \<Rightarrow> Raise KeyError
      | Some (JList base) \<Rightarrow> Ret (dict_set ''syscalls'' (JList (harden_rules p base)) d)
      | Some _ \<Rightarrow> Raise AttributeError)"

definition to_dict :: "string list \<Rightarrow> SeccompProfile \<Rightarrow> (string, json) dict outcome" where
  "to_dict ord p =
     (case base_profile p of
        Some d \<Rightarrow> to_dict_harden p d
      | None \<Rightarrow> Ret (to_dict_default_deny ord p))"

definition to_json :: "string list \<Rightarrow> SeccompProfile \<Rightarrow> nat \<Rightarrow> string outcome" where
  "to_json ord p indent =
     (case to_dict ord p of Inl x \<Rightarrow> Raise x | Inr d \<Rightarrow> Ret (dumps_indent indent 0 (JObj d)))"

text \<open>\<open>save\<close>: the files after the call and the path written. The path is checked first.\<close>

definition save ::
    "(string \<Rightarrow> string) \<Rightarrow> string list \<Rightarrow> SeccompProfile \<Rightarrow> (string, string) dict \<Rightarrow> string \<Rightarrow> string
      \<Rightarrow> (string, string) dict \<times> string outcome" where
  "save rp ord p fs path base_dir =
     (case validate_path rp (\<lambda>q. dict_mem q fs) base_dir path True of
        Inl x \<Rightarrow> (fs, Raise x)
      | Inr vp \<Rightarrow>
          (case to_json ord p 2 of
             Inl x \<Rightarrow> (fs, Raise x)
           | Inr s \<Rightarrow> (dict_set vp s fs, Ret vp)))"

definition syscall_count :: "SeccompProfile \<Rightarrow> nat" where
  "syscall_count p = card (allowed_syscalls p - set BLOCKLIST_SYSCALLS)"

definition blocked_count :: "SeccompProfile \<Rightarrow> nat" where
  "blocked_count p =
     (if base_profile p \<noteq> None
      then card (set HARDEN_KILL_SYSCALLS \<union> set (dict_keys (blocked_specific p)))
      else card (set BLOCKLIST_SYSCALLS \<union> set (dict_keys (blocked_specific p))))"

definition audit_diff :: "SeccompProfile \<Rightarrow> SeccompProfile \<Rightarrow> string list \<times> string list \<times> string list" where
  "audit_diff p q =
     (sorted_list_of_set (allowed_syscalls q - allowed_syscalls p),
      sorted_list_of_set (allowed_syscalls p - allowed_syscalls q),
      sorted_list_of_set (allowed_syscalls p \<inter> allowed_syscalls q))"

subsection \<open>Validation\<close>

text \<open>\<open>rule.get("names", ["?"])[0]\<close> as text, on whatever JSON the rule holds.\<close>

definition first_name :: "(string, json) dict \<Rightarrow> string outcome" where
  "first_name r =
     (case dict_get r ''names'' of
        None \<Rightarrow> Ret ''?''
      | Some (JList (n # _)) \<Rightarrow> Ret (py_str n)
      | Some (JList []) \<Rightarrow> Raise IndexError
      | Some (JStr (c # _)) \<Rightarrow> Ret [c]
      | Some (JStr []) \<Rightarrow> Raise IndexError
      | Some (JObj _) \<Rightarrow> Raise KeyError
      | Some _ \<Rightarrow> Raise TypeError)"

definition suspicious_value :: "json \<Rightarrow> bool" where
  "suspicious_value v = (json_num v \<in> {Some 1, Some 2, Some 13, Some 38})"

definition arg_field :: "(string, json) dict \<Rightarrow> string \<Rightarrow> json \<Rightarrow> json" where
  "arg_field d k dflt = (case dict_get d k of None \<Rightarrow> dflt | Some v \<Rightarrow> v)"

fun arg_issues :: "(string, json) dict \<Rightarrow> json list \<Rightarrow> string list outcome" where
  "arg_issues r [] = Ret []"
| "arg_issues r (JObj a # as) =
     (if arg_field a ''op'' JNull = JStr ''SCMP_CMP_EQ'' \<and> suspicious_value (arg_field a ''value'' (JInt 0))
      then (case first_name r of
              Inl x \<Rightarrow> Raise x
            | Inr n \<Rightarrow>
                (case arg_issues r as of
                   Inl x \<Rightarrow> Raise x
                 | Inr is \<Rightarrow>
                     Ret ((''Rule for '' @ [CHR 0x27] @ n @ [CHR 0x27] @ '': suspicious arg comparison (value=''
                           @ py_str (arg_field a ''value'' JNull)
                           @ ''). If this was intended as an errno return, use ''
                           @ [CHR 0x27] @ ''errnoRet'' @ [CHR 0x27] @ '' field instead of args.'') # is)))
      else arg_issues r as)"
| "arg_issues r (a # as) = Raise AttributeError"

definition rule_issues :: "nat \<Rightarrow> json \<Rightarrow> string list outcome" where
  "rule_issues i rule =
     (case rule of
        JObj r \<Rightarrow>
          (let missing = \<not> dict_mem ''includes'' r \<or> \<not> dict_mem ''excludes'' r
           in case (if missing then first_name r else Ret []) of
                Inl x \<Rightarrow> Raise x
              | Inr n \<Rightarrow>
                  (let head = (if missing
                       then [''Rule '' @ show_int (int i) @ '' ('' @ n @ ''): missing ''
                             @ [CHR 0x27] @ ''includes'' @ [CHR 0x27, CHR ''/'', CHR 0x27] @ ''excludes''
                             @ [CHR 0x27] @ '' fields'']
                       else [])
                   in case arg_field r ''args'' (JList []) of
                        JList as \<Rightarrow> (case arg_issues r as of Inl x \<Rightarrow> Raise x | Inr is \<Rightarrow> Ret (head @ is))
                      | JStr [] \<Rightarrow> Ret head
                      | JStr _ \<Rightarrow> Raise AttributeError
                      | JObj [] \<Rightarrow> Ret head
                      | JObj _ \<Rightarrow> Raise AttributeError
                      | _ \<Rightarrow> Raise TypeError))
      | JStr _ \<Rightarrow> Raise AttributeError
      | JList _ \<Rightarrow> Raise AttributeError
      | _ \<Rightarrow> Raise TypeError)"

fun rules_issues :: "nat \<Rightarrow> json list \<Rightarrow> string list outcome" where
  "rules_issues i [] = Ret []"
| "rules_issues i (r # rs) =
     (case rule_issues i r of
        Inl x \<Rightarrow> Raise x
      | Inr is \<Rightarrow> (case rules_issues (Suc i) rs of Inl x \<Rightarrow> Raise x | Inr js \<Rightarrow> Ret (is @ js)))"

text \<open>The message holds a dash outside the model's alphabet, written here by its UTF-8 bytes.\<close>

definition no_rules_warning :: string where
  "no_rules_warning =
     ''WARNING: No syscall rules defined '' @ [char_of (226::nat), char_of (128::nat), char_of (148::nat)]
     @ '' all syscalls will use default action''"

definition validate :: "string list \<Rightarrow> SeccompProfile \<Rightarrow> string list outcome" where
  "validate ord p =
     (case to_dict ord p of
        Inl x \<Rightarrow> Raise x
      | Inr d \<Rightarrow>
          (case dict_get d ''syscalls'' of
             Some (JList rs) \<Rightarrow>
               (case rules_issues 0 rs of
                  Inl x \<Rightarrow> Raise x
                | Inr is \<Rightarrow> Ret ((if rs = [] then [no_rules_warning] else []) @ is))
           | _ \<Rightarrow> Raise TypeError))"

subsection \<open>Presets\<close>

definition minimal_profile :: SeccompProfile where
  "minimal_profile =
     add_syscalls (new_profile ''vibeshield-minimal'' SCMP_ACT_ERRNO None False)
       (filter (\<lambda>s. s \<notin> set network_syscalls \<union> {''poll'', ''ppoll'', ''select'', ''pselect6'',
                  ''epoll_create'', ''epoll_create1'', ''epoll_ctl'', ''epoll_wait''})
         AGENT_MINIMAL_SYSCALLS)"

definition compute_profile :: SeccompProfile where
  "compute_profile = add_syscalls minimal_profile [''sched_setaffinity'', ''getcpu'']"

definition network_profile :: SeccompProfile where
  "network_profile =
     allow_network (add_syscalls (new_profile ''vibeshield-network'' SCMP_ACT_ERRNO None False) AGENT_MINIMAL_SYSCALLS)"

definition hardened_profile :: "string option \<Rightarrow> SeccompProfile outcome" where
  "hardened_profile text = from_podman_default text ''vibeshield-hardened''"

section \<open>What a list of rules does\<close>

definition rule_names :: "json \<Rightarrow> string list" where
  "rule_names r =
     (case r of
        JObj ms \<Rightarrow>
          (case dict_get ms ''names'' of
             Some (JList ns) \<Rightarrow> concat (map (\<lambda>n. case n of JStr s \<Rightarrow> [s] | _ \<Rightarrow> []) ns)
           | _ \<Rightarrow> [])
      | _ \<Rightarrow> [])"

definition rule_action :: "json \<Rightarrow> json option" where
  "rule_action r = (case r of JObj ms \<Rightarrow> dict_get ms ''action'' | _ \<Rightarrow> None)"

definition first_action :: "json list \<Rightarrow> string \<Rightarrow> json option" where
  "first_action rs s = (case find (\<lambda>r. s \<in> set (rule_names r)) rs of None \<Rightarrow> None | Some r \<Rightarrow> rule_action r)"

lemma find_append: "find P (xs @ ys) = (case find P xs of None \<Rightarrow> find P ys | Some x \<Rightarrow> Some x)"
  by (induction xs) auto

lemma first_action_append:
  "first_action (xs @ ys) s =
     (if \<exists>r \<in> set xs. s \<in> set (rule_names r) then first_action xs s else first_action ys s)"
  by (induction xs) (auto simp: first_action_def)

lemma first_action_Cons:
  "first_action (r # rs) s = (if s \<in> set (rule_names r) then rule_action r else first_action rs s)"
  by (simp add: first_action_def)

lemma scmp_rule_sel [simp]:
  "rule_names (scmp_rule ns act c) = ns" "rule_action (scmp_rule ns act c) = Some (JStr act)"
proof -
  have "concat (map (\<lambda>x. case x of JStr s \<Rightarrow> [s] | _ \<Rightarrow> []) (map JStr ns)) = ns" by (induction ns) auto
  then show "rule_names (scmp_rule ns act c) = ns" by (simp add: rule_names_def scmp_rule_def)
  show "rule_action (scmp_rule ns act c) = Some (JStr act)" by (simp add: rule_action_def scmp_rule_def)
qed

lemma blocked_entry_sel [simp]:
  "rule_names (blocked_entry s r) = [s]" "rule_action (blocked_entry s r) = Some (JStr (br_action r))"
  by (simp_all add: blocked_entry_def scmp_rule_def rule_names_def rule_action_def)

lemma errno_entry_sel [simp]:
  "rule_names (errno_entry s r) = [s]" "rule_action (errno_entry s r) = Some (JStr ''SCMP_ACT_ERRNO'')"
  by (simp_all add: errno_entry_def rule_names_def rule_action_def)

lemma first_action_map:
  assumes "\<And>x. x \<in> set xs \<Longrightarrow> rule_names (f x) = [g x]"
  shows "first_action (map f xs) s =
    (case find (\<lambda>x. g x = s) xs of None \<Rightarrow> None | Some x \<Rightarrow> rule_action (f x))"
  using assms by (induction xs) (auto simp: first_action_def)

lemma find_dict: "find (\<lambda>x. fst x = s) d = (case dict_get d s of None \<Rightarrow> None | Some v \<Rightarrow> Some (s, v))"
  by (induction d) auto

lemma find_mem: "find (\<lambda>x. x = s) xs = (if s \<in> set xs then Some s else None)"
  by (induction xs) auto

lemma first_action_blocked:
  "first_action (map (\<lambda>(k, r). blocked_entry k r) d) s = map_option (\<lambda>r. JStr (br_action r)) (dict_get d s)"
proof -
  have "first_action (map (\<lambda>x. case x of (k, r) \<Rightarrow> blocked_entry k r) d) s =
      (case find (\<lambda>x. fst x = s) d of None \<Rightarrow> None | Some x \<Rightarrow> rule_action (case x of (k, r) \<Rightarrow> blocked_entry k r))"
    by (rule first_action_map) (auto split: prod.splits)
  then show ?thesis by (simp add: find_dict split: option.splits)
qed

lemma finite_visible: "finite (allowed_syscalls p) \<Longrightarrow> set (visible_syscalls p) = allowed_syscalls p - set BLOCKLIST_SYSCALLS"
  by (simp add: visible_syscalls_def)

definition default_effect :: "SeccompProfile \<Rightarrow> string \<Rightarrow> json option" where
  "default_effect p s =
     (if s \<in> set BLOCKLIST_SYSCALLS then Some (JStr ''SCMP_ACT_KILL'')
      else case dict_get (blocked_specific p) s of
          Some r \<Rightarrow> Some (JStr (br_action r))
        | None \<Rightarrow> if s \<in> allowed_syscalls p
                  then Some (JStr (if audit_mode p then ''SCMP_ACT_LOG'' else ''SCMP_ACT_ALLOW''))
                  else None)"

lemma default_deny_effect:
  assumes "set ord = set BLOCKLIST_SYSCALLS" and "finite (allowed_syscalls p)"
  shows "first_action (default_deny_rules ord p) s = default_effect p s"
proof -
  let ?A = "map (\<lambda>s. scmp_rule [s] ''SCMP_ACT_KILL'' (Some (''Always-blocked: '' @ s))) ord"
  let ?B = "map (\<lambda>(s, r). blocked_entry s r) (blocked_specific p)"
  let ?c = "if audit_mode p then ''SCMP_ACT_LOG'' else ''SCMP_ACT_ALLOW''"
  let ?C = "map (\<lambda>s. scmp_rule [s] ?c None) (filter (\<lambda>s. \<not> dict_mem s (blocked_specific p)) (visible_syscalls p))"
  have A: "first_action ?A s = (if s \<in> set ord then Some (JStr ''SCMP_ACT_KILL'') else None)"
    by (subst first_action_map [where g = "\<lambda>x. x"]) (simp_all add: find_mem)
  have C: "first_action ?C s = (if s \<in> set (visible_syscalls p) \<and> \<not> dict_mem s (blocked_specific p) then Some (JStr ?c) else None)"
    by (subst first_action_map [where g = "\<lambda>x. x"]) (simp_all add: find_mem)
  have inA: "(\<exists>r \<in> set ?A. s \<in> set (rule_names r)) \<longleftrightarrow> s \<in> set ord" by auto
  have inB: "(\<exists>r \<in> set ?B. s \<in> set (rule_names r)) \<longleftrightarrow> dict_mem s (blocked_specific p)"
    by (force simp: dict_mem_iff)
  show ?thesis
    unfolding default_deny_rules_def first_action_append inA inB A C first_action_blocked default_effect_def
    using assms by (auto simp: dict_mem_def finite_visible split: option.splits)
qed

lemma first_action_const:
  "\<forall>r \<in> set xs. rule_action r = a \<Longrightarrow> \<exists>r \<in> set xs. s \<in> set (rule_names r) \<Longrightarrow> first_action xs s = a"
  by (induction xs) (auto simp: first_action_Cons)

lemma finite_kill_names [simp]: "finite (kill_names p)"
  by (simp add: kill_names_def)

definition harden_effect :: "SeccompProfile \<Rightarrow> json list \<Rightarrow> string \<Rightarrow> json option" where
  "harden_effect p base s =
     (if s \<in> set HARDEN_KILL_SYSCALLS then Some (JStr ''SCMP_ACT_KILL'')
      else case dict_get (blocked_specific p) s of
          Some r \<Rightarrow>
            if br_action r = ''SCMP_ACT_KILL'' \<or> br_action r = ''SCMP_ACT_ERRNO'' then Some (JStr (br_action r))
            else first_action base s
        | None \<Rightarrow> first_action base s)"

lemma harden_rules_effect:
  assumes "wf_dict (blocked_specific p)"
  shows "first_action (harden_rules p base) s = harden_effect p base s"
proof -
  let ?er = "filter (\<lambda>(s, r). br_action r = ''SCMP_ACT_ERRNO'') (blocked_specific p)"
  let ?E = "rev (map (\<lambda>(s, r). errno_entry s r) ?er)"
  have E: "?E = map (\<lambda>(s, r). errno_entry s r) (rev ?er)" by (simp add: rev_map)
  have inE: "(\<exists>r \<in> set ?E. s \<in> set (rule_names r)) \<longleftrightarrow>
      (\<exists>r. dict_get (blocked_specific p) s = Some r \<and> br_action r = ''SCMP_ACT_ERRNO'')"
    using assms by (force dest: in_dict_getI dict_getD)
  have fE: "first_action ?E s = Some (JStr ''SCMP_ACT_ERRNO'')" if "\<exists>r \<in> set ?E. s \<in> set (rule_names r)"
  proof -
    have "\<forall>r \<in> set ?E. rule_action r = Some (JStr ''SCMP_ACT_ERRNO'')" by auto
    then show ?thesis using that by (rule first_action_const)
  qed
  have kill: "s \<in> kill_names p \<longleftrightarrow> s \<in> set HARDEN_KILL_SYSCALLS
      \<or> (\<exists>r. dict_get (blocked_specific p) s = Some r \<and> br_action r = ''SCMP_ACT_KILL'')"
    using assms by (force simp: kill_names_def dest: in_dict_getI dict_getD)
  show ?thesis
    unfolding harden_rules_def first_action_Cons first_action_append scmp_rule_sel inE
    using fE unfolding inE
    by (auto simp: kill harden_effect_def split: option.splits)
qed

section \<open>Profiles built by the operations\<close>

inductive built :: "SeccompProfile \<Rightarrow> bool" where
  scratch: "built (new_profile name act archs audit)"
| podman: "from_podman_default text name = Ret p \<Longrightarrow> built p"
| add: "built p \<Longrightarrow> built (add_syscalls p names)"
| block: "built p \<Longrightarrow> built (block_syscall p s errno act)"

lemma add_syscalls_eq:
  "add_syscalls p names = p\<lparr>allowed_syscalls := allowed_syscalls p \<union> (set names - set BLOCKLIST_SYSCALLS)\<rparr>"
proof -
  have "foldl (\<lambda>p s. if s \<in> B then p else p\<lparr>allowed_syscalls := insert s (allowed_syscalls p)\<rparr>) p names
      = p\<lparr>allowed_syscalls := allowed_syscalls p \<union> (set names - B)\<rparr>" for B
    by (induction names arbitrary: p) (auto simp: insert_Diff_if)
  then show ?thesis by (simp only: add_syscalls_def)
qed

lemma add_syscalls_sel [simp]:
  "allowed_syscalls (add_syscalls p names) = allowed_syscalls p \<union> (set names - set BLOCKLIST_SYSCALLS)"
  "blocked_specific (add_syscalls p names) = blocked_specific p"
  "base_profile (add_syscalls p names) = base_profile p"
  by (simp_all add: add_syscalls_eq)

lemma built_ok: "built p \<Longrightarrow> wf_dict (blocked_specific p) \<and> finite (allowed_syscalls p)
    \<and> allowed_syscalls p \<inter> set BLOCKLIST_SYSCALLS = {}"
proof (induction rule: built.induct)
  case (podman t name p)
  then show ?case
    by (auto simp: from_podman_default_def new_profile_def split: option.splits json.splits sum.splits)
next
  case (block p s errno act)
  then show ?case by (simp add: block_syscall_def)
qed (auto simp: new_profile_def)

section \<open>Properties\<close>

text \<open>
  C11: what a default-deny profile does to each syscall, by its first rule: every block-listed
  syscall is killed, whatever was added, blocked or overridden; otherwise an explicit block
  decides, then the allow list (logged in audit mode); a syscall named nowhere has no rule and
  falls to the default action. The result does not depend on the order in which the frozen block
  list is iterated.
\<close>

theorem seccomp_default_deny:
  assumes "built p" and "base_profile p = None" and "set ord = set BLOCKLIST_SYSCALLS"
  shows "\<exists>d rs. to_dict ord p = Ret d \<and> dict_get d ''syscalls'' = Some (JList rs)
    \<and> (\<forall>s. first_action rs s = default_effect p s)
    \<and> (\<forall>s \<in> set BLOCKLIST_SYSCALLS. first_action rs s = Some (JStr ''SCMP_ACT_KILL''))"
  using default_deny_effect [OF assms(3)] built_ok [OF assms(1)] assms(2)
  by (simp add: to_dict_def to_dict_default_deny_def default_effect_def)

theorem seccomp_default_deny_witness:
  "\<exists>d rs. to_dict BLOCKLIST_SYSCALLS (block_syscall network_profile ''ptrace'' 1 ''SCMP_ACT_ALLOW'') = Ret d
    \<and> dict_get d ''syscalls'' = Some (JList rs) \<and> first_action rs ''ptrace'' = Some (JStr ''SCMP_ACT_KILL'')"
proof -
  let ?p = "block_syscall network_profile ''ptrace'' 1 ''SCMP_ACT_ALLOW''"
  have b: "built ?p" unfolding network_profile_def allow_network_def by (intro built.intros)
  have "base_profile ?p = None"
    by (simp add: block_syscall_def network_profile_def allow_network_def new_profile_def)
  from seccomp_default_deny [OF b this refl] show ?thesis
    by (auto simp: BLOCKLIST_SYSCALLS_def)
qed

text \<open>
  What a hardened profile does: the syscalls of the kill list and those blocked with KILL are
  killed, those blocked with ERRNO return an error, and every other syscall is treated as by the
  base profile, whose rules are kept in order; a block with any other action has no effect here.
\<close>

theorem seccomp_harden:
  assumes "built p" and "base_profile p = Some d" and "dict_get d ''syscalls'' = Some (JList base)"
  shows "\<exists>d' rs. to_dict ord p = Ret d' \<and> dict_get d' ''syscalls'' = Some (JList rs)
    \<and> (\<forall>s. first_action rs s = harden_effect p base s)
    \<and> drop (length rs - length base) rs = base
    \<and> (\<forall>k. k = ''syscalls'' \<or> dict_get d' k = dict_get d k)"
proof -
  have "drop (length (harden_rules p base) - length base) (harden_rules p base) = base"
    by (simp add: harden_rules_def)
  then show ?thesis
    using harden_rules_effect built_ok [OF assms(1)] assms(2,3)
    by (auto simp: to_dict_def to_dict_harden_def)
qed

definition sample_base :: string where
  "sample_base = dumps '', '' '': '' (JObj [(''defaultAction'', JStr ''SCMP_ACT_ERRNO''),
     (''syscalls'', JList [scmp_rule [''unshare'', ''mount''] ''SCMP_ACT_ALLOW'' None])])"

lemma sample_base_loads:
  "from_podman_default (Some sample_base) n = Ret ((new_profile n SCMP_ACT_ERRNO None False)
     \<lparr>base_profile := Some [(''defaultAction'', JStr ''SCMP_ACT_ERRNO''),
       (''syscalls'', JList [scmp_rule [''unshare'', ''mount''] ''SCMP_ACT_ALLOW'' None])]\<rparr>)"
proof -
  let ?j = "JObj [(''defaultAction'', JStr ''SCMP_ACT_ERRNO''),
     (''syscalls'', JList [scmp_rule [''unshare'', ''mount''] ''SCMP_ACT_ALLOW'' None])]"
  have "loads (dumps '', '' '': '' ?j) = Some ?j"
    by (rule loads_dumps) (simp_all add: wf_sep_def is_ws_def scmp_rule_def wf_dict_def)
  then show ?thesis
    by (simp add: from_podman_default_def sample_base_def action_of_def new_profile_def)
qed

text \<open>A hardened profile kills \<open>mount\<close>, but leaves the block-listed \<open>unshare\<close> to the base profile.\<close>

theorem seccomp_harden_witness:
  "\<exists>p d rs. hardened_profile (Some sample_base) = Ret p \<and> to_dict [] p = Ret d
    \<and> dict_get d ''syscalls'' = Some (JList rs)
    \<and> first_action rs ''mount'' = Some (JStr ''SCMP_ACT_KILL'')
    \<and> first_action rs ''unshare'' = Some (JStr ''SCMP_ACT_ALLOW'') \<and> ''unshare'' \<in> set BLOCKLIST_SYSCALLS"
proof -
  let ?b = "[scmp_rule [''unshare'', ''mount''] ''SCMP_ACT_ALLOW'' None]"
  let ?d = "[(''defaultAction'', JStr ''SCMP_ACT_ERRNO''), (''syscalls'', JList ?b)]"
  let ?p = "(new_profile ''vibeshield-hardened'' SCMP_ACT_ERRNO None False)\<lparr>base_profile := Some ?d\<rparr>"
  have h: "hardened_profile (Some sample_base) = Ret ?p"
    by (simp add: hardened_profile_def sample_base_loads)
  have b: "built ?p" by (rule built.podman [OF sample_base_loads])
  have s: "dict_get ?d ''syscalls'' = Some (JList ?b)" by simp
  have bp: "base_profile ?p = Some ?d" by simp
  obtain d' rs where d': "to_dict [] ?p = Ret d'" "dict_get d' ''syscalls'' = Some (JList rs)"
    "\<forall>s. first_action rs s = harden_effect ?p ?b s"
    using seccomp_harden [OF b bp s, of "[]"] by blast
  have "harden_effect ?p ?b ''mount'' = Some (JStr ''SCMP_ACT_KILL'')"
    by (simp add: harden_effect_def HARDEN_KILL_SYSCALLS_def)
  moreover have "harden_effect ?p ?b ''unshare'' = Some (JStr ''SCMP_ACT_ALLOW'')"
    by (simp add: harden_effect_def HARDEN_KILL_SYSCALLS_def new_profile_def first_action_Cons)
  moreover have "''unshare'' \<in> set BLOCKLIST_SYSCALLS" by (simp add: BLOCKLIST_SYSCALLS_def)
  ultimately show ?thesis using h d' by fastforce
qed

text \<open>
  The presets. None of them allows a block-listed syscall; the minimal and the compute profile
  allow no syscall that opens or uses a socket, the network profile allows all of them; the
  compute profile adds exactly \<open>sched_setaffinity\<close> and \<open>getcpu\<close> to the minimal one.
\<close>

theorem seccomp_presets:
  "allowed_syscalls minimal_profile \<inter> set BLOCKLIST_SYSCALLS = {}
   \<and> allowed_syscalls compute_profile \<inter> set BLOCKLIST_SYSCALLS = {}
   \<and> allowed_syscalls network_profile \<inter> set BLOCKLIST_SYSCALLS = {}
   \<and> allowed_syscalls compute_profile \<inter> set network_syscalls = {}
   \<and> set network_syscalls \<subseteq> allowed_syscalls network_profile
   \<and> audit_diff minimal_profile compute_profile = ([''getcpu'', ''sched_setaffinity''], [], sorted_list_of_set (allowed_syscalls minimal_profile))
   \<and> allowed_syscalls minimal_profile \<subseteq> allowed_syscalls network_profile"
proof -
  have bl: "\<forall>s \<in> set network_syscalls. s \<notin> set BLOCKLIST_SYSCALLS"
    "''getcpu'' \<notin> set BLOCKLIST_SYSCALLS" "''sched_setaffinity'' \<notin> set BLOCKLIST_SYSCALLS"
    "''getcpu'' \<notin> set AGENT_MINIMAL_SYSCALLS" "''sched_setaffinity'' \<notin> set AGENT_MINIMAL_SYSCALLS"
    "''getcpu'' \<notin> set network_syscalls" "''sched_setaffinity'' \<notin> set network_syscalls"
    by (code_simp, code_simp, code_simp, code_simp, code_simp, code_simp, code_simp)
  have lt: "sorted_list_of_set {''getcpu'', ''sched_setaffinity''} = [''getcpu'', ''sched_setaffinity'']"
    by (simp add: less_eq_char_def less_char_def)
  have d: "(allowed_syscalls compute_profile) - (allowed_syscalls minimal_profile) = {''getcpu'', ''sched_setaffinity''}"
    "allowed_syscalls minimal_profile - allowed_syscalls compute_profile = {}"
    "allowed_syscalls minimal_profile \<inter> allowed_syscalls compute_profile = allowed_syscalls minimal_profile"
    using bl by (auto simp: compute_profile_def minimal_profile_def new_profile_def)
  show ?thesis
    using bl d lt
    by (auto simp: minimal_profile_def compute_profile_def network_profile_def allow_network_def new_profile_def audit_diff_def)
qed

lemma rules_issues_clean:
  "(\<And>r i. r \<in> set rs \<Longrightarrow> rule_issues i r = Ret []) \<Longrightarrow> rules_issues i rs = Ret []"
  by (induction rs arbitrary: i) auto

text \<open>
  \<open>validate\<close> reports nothing for a default-deny profile, whatever was added or blocked and
  in whatever order the block list is iterated.
\<close>

theorem seccomp_validate_clean:
  assumes "base_profile p = None" and "ord \<noteq> []"
  shows "validate ord p = Ret []"
proof -
  have clean: "rule_issues i r = Ret []" if "r \<in> set (default_deny_rules ord p)" for r i
    using that
    by (auto simp: default_deny_rules_def rule_issues_def blocked_entry_def scmp_rule_def dict_mem_def
        arg_field_def Let_def split: option.splits)
  have "default_deny_rules ord p \<noteq> []" using assms(2) by (simp add: default_deny_rules_def)
  then show ?thesis
    using rules_issues_clean [OF clean, where i = 0] assms(1)
    by (simp add: validate_def to_dict_def to_dict_default_deny_def)
qed

theorem seccomp_validate_clean_witness: "validate BLOCKLIST_SYSCALLS minimal_profile = Ret []"
  by (rule seccomp_validate_clean) (simp_all add: minimal_profile_def new_profile_def BLOCKLIST_SYSCALLS_def)

end
