(* ===== verification/Http.thy ===== *)
theory Http
  imports PyJson
begin

text \<open>
  The HTTP exchange of the heartbeat, as \<open>urllib.request.urlopen\<close> offers it: a request, and what
  the call gives, a response with its status and body or one of the exceptions the callers
  handle. The network is a function from requests to results, a parameter of the operations that
  use it; \<open>Http_error\<close> and \<open>Url_error\<close> carry what the callers read of the exception.
\<close>

record http_request =
  rq_url :: string
  rq_body :: string
  rq_headers :: "(string \<times> string) list"
  rq_method :: string

datatype http_result =
    Http_ok int string
  | Http_error int string string
  | Url_error string
  | Os_error string

type_synonym network = "http_request \<Rightarrow> http_result"

text \<open>\<open>s.rstrip("/")\<close>.\<close>

definition rstrip_slash :: "string \<Rightarrow> string" where
  "rstrip_slash s = rev (dropWhile (\<lambda>c. c = CHR ''/'') (rev s))"

text \<open>\<open>json.loads(body).get("detail", dflt)\<close>, where a body that is no JSON object gives \<open>None\<close>;
  so does a foreign body (see PyJson), of which only the text of a message depends.\<close>

definition error_detail :: "string \<Rightarrow> json \<Rightarrow> json option" where
  "error_detail body dflt =
     (case loads body of
        Some (JObj d) \<Rightarrow> Some (case dict_get d ''detail'' of None \<Rightarrow> dflt | Some v \<Rightarrow> v)
      | _ \<Rightarrow> None)"

lemma rstrip_slash_no_slash: "rstrip_slash s = [] \<or> last (rstrip_slash s) \<noteq> CHR ''/''"
proof (cases "dropWhile (\<lambda>c. c = CHR ''/'') (rev s)")
  case Nil
  then show ?thesis by (simp add: rstrip_slash_def)
next
  case (Cons c cs)
  then have "c \<noteq> CHR ''/''" using hd_dropWhile [of "\<lambda>c. c = CHR ''/''" "rev s"] by simp
  with Cons show ?thesis by (simp add: rstrip_slash_def)
qed

lemma rstrip_slash_idem: "rstrip_slash (rstrip_slash s) = rstrip_slash s"
proof (cases "rstrip_slash s = []")
  case True
  then show ?thesis by (simp add: rstrip_slash_def)
next
  case False
  then obtain a c where a: "rstrip_slash s = a @ [c]" by (cases "rstrip_slash s" rule: rev_cases) auto
  with rstrip_slash_no_slash [of s] have "c \<noteq> CHR ''/''" by simp
  then show ?thesis unfolding a by (simp add: rstrip_slash_def)
qed

end
