(* ===== verification/Orchestrator.thy ===== *)
theory Orchestrator
  imports Config Http
begin

text \<open>
  Layer 2, the heartbeat engine: \<open>src/core/layer2_orchestrator.py\<close>.

  The state is the engine's table of last heartbeats and the module's nonce cache. The network,
  the random nonce and the clock readings (\<open>clk 0\<close> when the heartbeat is stored, \<open>clk 1\<close> for the
  nonce, \<open>clk 2\<close> in the cleanup, \<open>clk 3\<close> for the result) are arguments. An exception other than
  those the code handles (a response that is no JSON, or no JSON object) leaves \<open>send_heartbeat\<close>.
\<close>

datatype HeartbeatStatus = LIVE | STALE | OFFLINE | HB_ERROR

fun heartbeat_value :: "HeartbeatStatus \<Rightarrow> string" where
  "heartbeat_value LIVE = ''LIVE''"
| "heartbeat_value STALE = ''STALE''"
| "heartbeat_value OFFLINE = ''OFFLINE''"
| "heartbeat_value HB_ERROR = ''ERROR''"

record HeartbeatResult =
  hb_agent_id :: string
  hb_status :: HeartbeatStatus
  hb_api_key :: string
  hb_api_url :: string
  http_status :: int
  hb_message :: string
  hb_timestamp :: pyfloat

definition passed :: "HeartbeatResult \<Rightarrow> bool" where
  "passed r = (hb_status r = LIVE)"

record orchestrator =
  orc_config :: orchestrator_config
  last_heartbeat :: "(string, pyfloat) dict"
  nonce_cache :: "(string, pyfloat) dict"

definition new_orchestrator :: "orchestrator_config option \<Rightarrow> (string, pyfloat) dict \<Rightarrow> orchestrator" where
  "new_orchestrator c cache =
     \<lparr>orc_config = (case c of None \<Rightarrow> default_orchestrator_config | Some x \<Rightarrow> x),
      last_heartbeat = [], nonce_cache = cache\<rparr>"

definition cleanup_nonces :: "(string, pyfloat) dict \<Rightarrow> pyfloat \<Rightarrow> pyfloat \<Rightarrow> (string, pyfloat) dict \<times> nat" where
  "cleanup_nonces cache max_age now =
     (let cutoff = now - max_age;
          stale = filter (\<lambda>(k, v). v < cutoff) cache
      in (filter (\<lambda>(k, v). \<not> v < cutoff) cache, length stale))"

definition heartbeat_url :: "orchestrator \<Rightarrow> string \<Rightarrow> string" where
  "heartbeat_url o1 agent = rstrip_slash (api_base (orc_config o1)) @ ''/api/v1/agents/'' @ agent @ ''/heartbeat''"

definition heartbeat_body :: "string \<Rightarrow> string \<Rightarrow> int option \<Rightarrow> string option \<Rightarrow> json" where
  "heartbeat_body status nonce heat model =
     JObj ([(''status'', JStr status), (''nonce'', JStr nonce)]
           @ (case heat of None \<Rightarrow> [] | Some h \<Rightarrow> [(''heat_current'', JInt h)])
           @ (case model of None \<Rightarrow> [] | Some m \<Rightarrow> if m = [] then [] else [(''local_llm_model'', JStr m)]))"

definition heartbeat_request ::
    "orchestrator \<Rightarrow> string \<Rightarrow> string \<Rightarrow> string \<Rightarrow> string \<Rightarrow> int option \<Rightarrow> string option \<Rightarrow> http_request" where
  "heartbeat_request o1 agent key status nonce heat model =
     \<lparr>rq_url = heartbeat_url o1 agent,
      rq_body = py_encode (dumps '', '' '': '' (heartbeat_body status nonce heat model)),
      rq_headers = [(''X-API-Key'', key), (''Content-Type'', ''application/json''),
                    (''User-Agent'', ''VibeShield/2.0''), (''X-Nonce'', nonce)],
      rq_method = ''POST''\<rparr>"

text \<open>The status the server reports, from the body of a successful response.\<close>

definition server_status :: "string \<Rightarrow> json outcome" where
  "server_status body =
     (case (if body = [] then Some (JObj []) else loads body) of
        None \<Rightarrow> Raise (decode_error body)
      | Some (JObj d) \<Rightarrow> Ret (case dict_get d ''status'' of None \<Rightarrow> JStr ''ONLINE'' | Some s \<Rightarrow> s)
      | Some _ \<Rightarrow> Raise AttributeError)"

definition status_enum :: "json \<Rightarrow> HeartbeatStatus" where
  "status_enum s =
     (if s = JStr ''ONLINE'' then LIVE
      else if s = JStr ''BUSY'' \<or> s = JStr ''COOLDOWN'' then LIVE
      else STALE)"

definition http_failure :: "int \<Rightarrow> string \<Rightarrow> HeartbeatStatus \<times> string" where
  "http_failure code detail =
     (if code = 401 then (HB_ERROR, ''Authentication failed '' @ em_dash @ '' invalid API key: '' @ detail)
      else if code = 404 then (OFFLINE, ''Agent not found on ClawMolt: '' @ detail)
      else (HB_ERROR, ''HTTP '' @ show_int code @ '': '' @ detail))"

definition send_heartbeat ::
    "network \<Rightarrow> orchestrator \<Rightarrow> string \<Rightarrow> string \<Rightarrow> string \<Rightarrow> int option \<Rightarrow> string option \<Rightarrow> string
      \<Rightarrow> (nat \<Rightarrow> pyfloat) \<Rightarrow> orchestrator \<times> HeartbeatResult outcome" where
  "send_heartbeat net o1 agent key status heat model nonce clk =
     (let url = heartbeat_url o1 agent;
          result = (\<lambda>st code msg. \<lparr>hb_agent_id = agent, hb_status = st, hb_api_key = key, hb_api_url = url,
                      http_status = code, hb_message = msg, hb_timestamp = clk 3\<rparr>)
      in case net (heartbeat_request o1 agent key status nonce heat model) of
           Http_ok code body \<Rightarrow>
             (case server_status body of
                Inl x \<Rightarrow> (o1, Raise x)
              | Inr s \<Rightarrow>
                  (o1\<lparr>last_heartbeat := dict_set agent (clk 0) (last_heartbeat o1),
                      nonce_cache := fst (cleanup_nonces (dict_set nonce (clk 1) (nonce_cache o1)) (F 300) (clk 2))\<rparr>,
                   Ret (result (status_enum s) code
                     (''Heartbeat acknowledged '' @ em_dash @ '' server status: '' @ py_str s))))
         | Http_error code body descr \<Rightarrow>
             (let detail = (case error_detail body (JStr descr) of None \<Rightarrow> descr | Some d \<Rightarrow> py_str d);
                  (st, msg) = http_failure code detail
              in (o1, Ret (result st code msg)))
         | Url_error why \<Rightarrow> (o1, Ret (result HB_ERROR 0 (''Connection failed '' @ em_dash @ '' '' @ why)))
         | Os_error descr \<Rightarrow> (o1, Ret (result HB_ERROR 0 (''Network error: '' @ descr))))"

definition check_agent_health :: "orchestrator \<Rightarrow> string \<Rightarrow> pyfloat \<Rightarrow> HeartbeatStatus" where
  "check_agent_health o1 agent now =
     (case dict_get (last_heartbeat o1) agent of
        None \<Rightarrow> OFFLINE
      | Some t0 \<Rightarrow>
          (let elapsed = now - t0
           in if rat_of elapsed < of_int (heartbeat_interval (orc_config o1) * 2) then LIVE
              else if rat_of elapsed < of_int (offline_threshold (orc_config o1)) then STALE
              else OFFLINE))"

definition get_uptime :: "orchestrator \<Rightarrow> string \<Rightarrow> pyfloat \<Rightarrow> pyfloat option" where
  "get_uptime o1 agent now =
     (case dict_get (last_heartbeat o1) agent of None \<Rightarrow> None | Some t0 \<Rightarrow> Some (now - t0))"

text \<open>One element of the argument of \<open>batch_heartbeat\<close>; a missing required key is \<open>None\<close>.\<close>

record batch_agent =
  ba_agent_id :: "string option"
  ba_api_key :: "string option"
  ba_status :: "string option"
  ba_heat :: "int option"
  ba_model :: "string option"

text \<open>\<open>nonces\<close> and \<open>clks\<close> give the nonce and the readings of the \<open>i\<close>-th heartbeat.\<close>

fun batch_heartbeat ::
    "network \<Rightarrow> orchestrator \<Rightarrow> batch_agent list \<Rightarrow> (nat \<Rightarrow> string) \<Rightarrow> (nat \<Rightarrow> nat \<Rightarrow> pyfloat)
      \<Rightarrow> orchestrator \<times> HeartbeatResult list outcome" where
  "batch_heartbeat net o1 [] nonces clks = (o1, Ret [])"
| "batch_heartbeat net o1 (a # as) nonces clks =
     (case (ba_agent_id a, ba_api_key a) of
        (Some agent, Some key) \<Rightarrow>
          (case send_heartbeat net o1 agent key (case ba_status a of None \<Rightarrow> ''ONLINE'' | Some s \<Rightarrow> s)
                  (ba_heat a) (ba_model a) (nonces 0) (clks 0) of
             (o2, Inl x) \<Rightarrow> (o2, Raise x)
           | (o2, Inr r) \<Rightarrow>
               (case batch_heartbeat net o2 as (\<lambda>i. nonces (Suc i)) (\<lambda>i. clks (Suc i)) of
                  (o3, Inl x) \<Rightarrow> (o3, Raise x)
                | (o3, Inr rs) \<Rightarrow> (o3, Ret (r # rs))))
      | _ \<Rightarrow> (o1, Raise KeyError))"

section \<open>Lemmas\<close>

lemma cleanup_keeps: "(k, v) \<in> set (fst (cleanup_nonces c a now)) \<longleftrightarrow> (k, v) \<in> set c \<and> now - a \<le> v"
  by (auto simp: cleanup_nonces_def Let_def)

lemma send_heartbeat_ok:
  assumes "net (heartbeat_request o1 agent key status nonce heat model) = Http_ok code body"
    and "server_status body = Ret s"
  shows "\<exists>r. send_heartbeat net o1 agent key status heat model nonce clk =
      (o1\<lparr>last_heartbeat := dict_set agent (clk 0) (last_heartbeat o1),
          nonce_cache := fst (cleanup_nonces (dict_set nonce (clk 1) (nonce_cache o1)) (F 300) (clk 2))\<rparr>, Ret r)
    \<and> hb_status r = status_enum s \<and> http_status r = code"
  using assms by (simp add: send_heartbeat_def Let_def)

lemma send_heartbeat_fails:
  assumes "\<not> (\<exists>code body s. net (heartbeat_request o1 agent key status nonce heat model) = Http_ok code body
      \<and> server_status body = Ret s)"
  shows "fst (send_heartbeat net o1 agent key status heat model nonce clk) = o1
    \<and> (case snd (send_heartbeat net o1 agent key status heat model nonce clk) of
         Inr r \<Rightarrow> \<not> passed r | Inl x \<Rightarrow> x \<in> {ValueError, AttributeError, Unmodelled})"
proof (cases "net (heartbeat_request o1 agent key status nonce heat model)")
  case (Http_ok code body)
  with assms obtain x where x: "server_status body = Inl x" by (cases "server_status body") auto
  then have "x \<in> {ValueError, AttributeError, Unmodelled}"
    by (auto simp: server_status_def decode_error_def split: option.splits json.splits if_splits)
  with Http_ok x show ?thesis by (simp add: send_heartbeat_def Let_def)
next
  case (Http_error code body descr)
  then show ?thesis by (simp add: send_heartbeat_def Let_def http_failure_def passed_def)
qed (simp_all add: send_heartbeat_def Let_def passed_def)

definition rank :: "HeartbeatStatus \<Rightarrow> nat" where
  "rank s = (case s of LIVE \<Rightarrow> 2 | STALE \<Rightarrow> 1 | _ \<Rightarrow> 0)"

lemma health_antimono:
  assumes "now \<le> later"
  shows "rank (check_agent_health o1 agent later) \<le> rank (check_agent_health o1 agent now)"
proof (cases "dict_get (last_heartbeat o1) agent")
  case (Some t0)
  have "now - t0 \<le> later - t0" using assms by (intro float_diff_mono) auto
  then have "rat_of (now - t0) \<le> rat_of (later - t0)" by (simp add: rat_of_le)
  with Some show ?thesis by (auto simp: check_agent_health_def Let_def rank_def)
qed (simp add: check_agent_health_def)

section \<open>Properties\<close>

text \<open>
  C38: a heartbeat is recorded exactly when the server answered with a readable status. Then the
  agent's last heartbeat is the time of the answer, every other agent's is unchanged, and the
  result passes unless the status is an unknown one. In every other case, an HTTP error, a
  connection error or an unreadable answer, the engine is unchanged and no result passes. An answer
  is read as far as the model reads JSON: for a foreign body, which holds escapes above 255 or
  numbers that are not finite, the outcome is \<open>Unmodelled\<close> and nothing is said of the code.
\<close>

theorem heartbeat_recorded:
  "case send_heartbeat net o1 agent key status heat model nonce clk of (o2, answer) \<Rightarrow>
     (case net (heartbeat_request o1 agent key status nonce heat model) of
        Http_ok code body \<Rightarrow>
          (case server_status body of
             Inr s \<Rightarrow>
               (\<forall>b. dict_get (last_heartbeat o2) b = (if b = agent then Some (clk 0) else dict_get (last_heartbeat o1) b))
               \<and> (case answer of
                    Inr r \<Rightarrow> passed r = (s \<in> {JStr ''ONLINE'', JStr ''BUSY'', JStr ''COOLDOWN''})
                  | Inl _ \<Rightarrow> False)
           | Inl x \<Rightarrow> o2 = o1 \<and> answer = Raise x)
      | _ \<Rightarrow> o2 = o1 \<and> (case answer of Inr r \<Rightarrow> \<not> passed r | Inl _ \<Rightarrow> False))"
proof (cases "net (heartbeat_request o1 agent key status nonce heat model)")
  case (Http_ok code body)
  then show ?thesis
    by (cases "server_status body") (auto simp: send_heartbeat_def Let_def passed_def status_enum_def)
next
  case (Http_error code body descr)
  then show ?thesis by (simp add: send_heartbeat_def Let_def http_failure_def passed_def)
qed (simp_all add: send_heartbeat_def Let_def passed_def)

text \<open>
  Health. Without a recorded heartbeat an agent is offline. After a heartbeat at time t it is
  live while less than twice the interval has passed, then stale below the offline threshold,
  then offline (with a threshold below twice the interval, never stale); as time goes by and no
  heartbeat arrives, the health never improves.
\<close>

theorem agent_health:
  assumes "now \<le> later"
  shows "(dict_get (last_heartbeat o1) agent = None \<longrightarrow> check_agent_health o1 agent now = OFFLINE)
    \<and> (\<forall>t. dict_get (last_heartbeat o1) agent = Some t \<longrightarrow>
         (check_agent_health o1 agent now = LIVE \<longleftrightarrow> rat_of (now - t) < of_int (2 * heartbeat_interval (orc_config o1)))
         \<and> (check_agent_health o1 agent now = OFFLINE \<longleftrightarrow>
              of_int (max (2 * heartbeat_interval (orc_config o1)) (offline_threshold (orc_config o1))) \<le> rat_of (now - t)))
    \<and> rank (check_agent_health o1 agent later) \<le> rank (check_agent_health o1 agent now)"
  using health_antimono [OF assms, of o1 agent]
  by (auto simp: check_agent_health_def Let_def mult.commute not_less max_def)

theorem agent_health_witness:
  "check_agent_health (new_orchestrator None []) ''a'' 0 = OFFLINE"
  using agent_health [of 0 1 "new_orchestrator None []" "''a''"] by (simp add: new_orchestrator_def)

text \<open>
  The nonce cache gives no replay protection. The outcome of a heartbeat and the recorded
  heartbeats do not depend on the cache, so a nonce that is already cached is sent and accepted
  again; the cache only forgets entries older than 300 seconds.
\<close>

theorem nonce_never_checked:
  "snd (send_heartbeat net (o1\<lparr>nonce_cache := c\<rparr>) agent key status heat model nonce clk)
     = snd (send_heartbeat net o1 agent key status heat model nonce clk)
   \<and> last_heartbeat (fst (send_heartbeat net (o1\<lparr>nonce_cache := c\<rparr>) agent key status heat model nonce clk))
     = last_heartbeat (fst (send_heartbeat net o1 agent key status heat model nonce clk))
   \<and> ((k, v) \<in> set (fst (cleanup_nonces c (F 300) now)) \<longleftrightarrow> (k, v) \<in> set c \<and> now - F 300 \<le> v)"
proof -
  have rq: "heartbeat_request (o1\<lparr>nonce_cache := c\<rparr>) agent key status nonce heat model
      = heartbeat_request o1 agent key status nonce heat model"
    "heartbeat_url (o1\<lparr>nonce_cache := c\<rparr>) agent = heartbeat_url o1 agent"
    by (simp_all add: heartbeat_request_def heartbeat_url_def)
  show ?thesis
    unfolding send_heartbeat_def Let_def rq cleanup_keeps
    by (auto split: http_result.split sum.split prod.split)
qed

text \<open>
  \<open>batch_heartbeat\<close> answers in the order of its argument: when it returns, there is one result
  per agent, about that agent.
\<close>

theorem batch_heartbeat_agents:
  "batch_heartbeat net o1 as nonces clks = (o2, Ret rs) \<Longrightarrow> map (Some \<circ> hb_agent_id) rs = map ba_agent_id as"
proof (induction net o1 as nonces clks arbitrary: o2 rs rule: batch_heartbeat.induct)
  case (2 net o1 a as nonces clks)
  obtain agent key where ak: "ba_agent_id a = Some agent" "ba_api_key a = Some key"
    using "2.prems" by (auto split: option.splits)
  let ?send = "send_heartbeat net o1 agent key (case ba_status a of None \<Rightarrow> ''ONLINE'' | Some s \<Rightarrow> s)
    (ba_heat a) (ba_model a) (nonces 0) (clks 0)"
  obtain o3 r where r: "?send = (o3, Inr r)" using "2.prems" ak by (auto split: prod.splits sum.splits)
  obtain o4 rs' where rs': "batch_heartbeat net o3 as (\<lambda>i. nonces (Suc i)) (\<lambda>i. clks (Suc i)) = (o4, Inr rs')" "rs = r # rs'"
    using "2.prems" ak r by (auto split: prod.splits sum.splits)
  have "hb_agent_id r = agent"
    using r by (auto simp: send_heartbeat_def Let_def split: http_result.splits sum.splits prod.splits)
  with "2.IH" [OF refl ak r [symmetric] refl rs'(1)] show ?case by (simp add: rs'(2) ak)
qed simp

end
