(* ===== verification/Commands.thy ===== *)
theory Commands
  imports Http
begin

text \<open>
  The agent command protocol: \<open>src/api/commands.py\<close>.

  A handler is a function on a state \<open>'w\<close> of its own (the layers it calls) that returns the
  response data or raises; the router's state is its handler table and its command log. Clock
  readings are arguments. Of a raw message the parsed task id and payload are any JSON values, as
  in the code, which does not check them. The logger is not modelled.
\<close>

datatype CommandStatus = OK | DENIED | TIMEOUT | UNKNOWN

fun status_value :: "CommandStatus \<Rightarrow> string" where
  "status_value OK = ''ok''"
| "status_value DENIED = ''denied''"
| "status_value TIMEOUT = ''timeout''"
| "status_value UNKNOWN = ''unknown''"

datatype CommandType =
    HEARTBEAT | SIGNAL_COMPLETE | REQUEST_MEMORY | WEB_SEARCH | REQUEST_DATA
  | ESCROW_RELEASE | STATE_SYNC

fun command_value :: "CommandType \<Rightarrow> string" where
  "command_value HEARTBEAT = ''HEARTBEAT''"
| "command_value SIGNAL_COMPLETE = ''SIGNAL_COMPLETE''"
| "command_value REQUEST_MEMORY = ''REQUEST_MEMORY''"
| "command_value WEB_SEARCH = ''WEB_SEARCH''"
| "command_value REQUEST_DATA = ''REQUEST_DATA''"
| "command_value ESCROW_RELEASE = ''ESCROW_RELEASE''"
| "command_value STATE_SYNC = ''STATE_SYNC''"

definition all_commands :: "CommandType list" where
  "all_commands =
     [HEARTBEAT, SIGNAL_COMPLETE, REQUEST_MEMORY, WEB_SEARCH, REQUEST_DATA, ESCROW_RELEASE, STATE_SYNC]"

text \<open>\<open>CommandType(s)\<close>; \<open>None\<close> where Python raises ValueError.\<close>

definition command_of :: "string \<Rightarrow> CommandType option" where
  "command_of s = List.find (\<lambda>c. command_value c = s) all_commands"

record AgentCommand =
  command_type :: CommandType
  cmd_agent_id :: string
  payload :: json
  cmd_timestamp :: pyfloat
  cmd_task_id :: json

definition cmd_to_dict :: "AgentCommand \<Rightarrow> json" where
  "cmd_to_dict c = JObj [(''command'', JStr (command_value (command_type c))), (''agent_id'', JStr (cmd_agent_id c)),
     (''task_id'', cmd_task_id c), (''payload'', payload c), (''timestamp'', JFloat (cmd_timestamp c))]"

definition cmd_to_json :: "AgentCommand \<Rightarrow> string" where
  "cmd_to_json c = dumps '', '' '': '' (cmd_to_dict c)"

record CommandResponse =
  rsp_status :: CommandStatus
  rsp_type :: CommandType
  rsp_agent_id :: string
  rsp_data :: json
  rsp_message :: string
  rsp_timestamp :: pyfloat

definition rsp_to_dict :: "CommandResponse \<Rightarrow> json" where
  "rsp_to_dict r = JObj [(''status'', JStr (status_value (rsp_status r))), (''command'', JStr (command_value (rsp_type r))),
     (''agent_id'', JStr (rsp_agent_id r)), (''data'', rsp_data r), (''message'', JStr (rsp_message r)),
     (''timestamp'', JFloat (rsp_timestamp r))]"

definition rsp_to_json :: "CommandResponse \<Rightarrow> string" where
  "rsp_to_json r = dumps '', '' '': '' (rsp_to_dict r)"

type_synonym 'w handler = "'w \<Rightarrow> AgentCommand \<Rightarrow> 'w \<times> json outcome"

record 'w CommandRouter =
  handlers :: "(CommandType, 'w handler) dict"
  command_log :: "json list"

definition new_router :: "'w CommandRouter" where
  "new_router = \<lparr>handlers = [], command_log = []\<rparr>"

definition register_handler :: "'w CommandRouter \<Rightarrow> CommandType \<Rightarrow> 'w handler \<Rightarrow> 'w CommandRouter" where
  "register_handler r t h = r\<lparr>handlers := dict_set t h (handlers r)\<rparr>"

definition log_record :: "AgentCommand \<Rightarrow> json" where
  "log_record c = JObj [(''command'', JStr (command_value (command_type c))), (''agent_id'', JStr (cmd_agent_id c)),
     (''task_id'', cmd_task_id c), (''timestamp'', JFloat (cmd_timestamp c))]"

definition log_command :: "'w CommandRouter \<Rightarrow> AgentCommand \<Rightarrow> 'w CommandRouter" where
  "log_command r c = r\<lparr>command_log := command_log r @ [log_record c]\<rparr>"

definition respond :: "AgentCommand \<Rightarrow> pyfloat \<Rightarrow> CommandStatus \<Rightarrow> json \<Rightarrow> string \<Rightarrow> CommandResponse" where
  "respond c now st data msg =
     \<lparr>rsp_status = st, rsp_type = command_type c, rsp_agent_id = cmd_agent_id c, rsp_data = data,
      rsp_message = msg, rsp_timestamp = now\<rparr>"

definition route ::
    "'w CommandRouter \<Rightarrow> 'w \<Rightarrow> AgentCommand \<Rightarrow> pyfloat \<Rightarrow> 'w CommandRouter \<times> 'w \<times> CommandResponse" where
  "route r w c now =
     (let r' = log_command r c
      in case dict_get (handlers r') (command_type c) of
           None \<Rightarrow> (r', w, respond c now UNKNOWN (JObj []) (''Unknown command: '' @ command_value (command_type c)))
         | Some handler \<Rightarrow>
             (case handler w c of
                (w', Inr result) \<Rightarrow> (r', w', respond c now OK result ''Command executed successfully'')
              | (w', Inl e) \<Rightarrow>
                  (r', w',
                   if e = PermissionError then respond c now DENIED (JObj []) ''Permission denied''
                   else if e = TimeoutError then respond c now TIMEOUT (JObj []) ''Operation timed out''
                   else respond c now DENIED (JObj []) ''Internal error'')))"

text \<open>
  \<open>str.upper\<close> for code points below 256. The capitals of the micro sign (181) and of y with
  diaeresis (255) lie above and stand for themselves here; no command name holds either.
\<close>

definition upper_char :: "char \<Rightarrow> string" where
  "upper_char c =
     (let n = of_char c :: nat
      in if (97 \<le> n \<and> n \<le> 122) \<or> (224 \<le> n \<and> n \<le> 254 \<and> n \<noteq> 247) then [char_of (n - 32)]
         else if n = 223 then ''SS'' else [c])"

definition py_upper :: "string \<Rightarrow> string" where
  "py_upper s = concat (map upper_char s)"

text \<open>\<open>parse\<close> catches JSONDecodeError, ValueError and KeyError; anything else leaves it.\<close>

definition parse :: "string \<Rightarrow> string \<Rightarrow> pyfloat \<Rightarrow> AgentCommand option outcome" where
  "parse raw agent_id now =
     (case loads raw of
        None \<Rightarrow> if foreign raw then Raise Unmodelled else Ret None
      | Some (JObj d) \<Rightarrow>
          (case (case dict_get d ''command'' of None \<Rightarrow> JStr [] | Some v \<Rightarrow> v) of
             JStr s \<Rightarrow>
               (case command_of (py_upper s) of
                  None \<Rightarrow> Ret None
                | Some t \<Rightarrow>
                    Ret (Some \<lparr>command_type = t, cmd_agent_id = agent_id,
                      payload = (case dict_get d ''payload'' of None \<Rightarrow> JObj [] | Some p \<Rightarrow> p),
                      cmd_timestamp = now,
                      cmd_task_id = (case dict_get d ''task_id'' of None \<Rightarrow> JNull | Some t \<Rightarrow> t)\<rparr>))
           | _ \<Rightarrow> Raise AttributeError)
      | Some _ \<Rightarrow> Raise AttributeError)"

section \<open>The agent's side\<close>

text \<open>The state is the module variable \<open>_HEARTBEAT_URL\<close>.\<close>

definition configure :: "string \<Rightarrow> string option" where
  "configure api_url = Some (rstrip_slash api_url)"

definition agent_url :: "string option \<Rightarrow> string \<Rightarrow> string" where
  "agent_url base agent =
     (case base of None \<Rightarrow> ''https://api.clawmolt.ai'' | Some b \<Rightarrow> if b = [] then ''https://api.clawmolt.ai'' else b)
     @ ''/api/v1/agents/'' @ agent @ ''/heartbeat''"

definition agent_request ::
    "string option \<Rightarrow> string \<Rightarrow> string \<Rightarrow> string \<Rightarrow> int option \<Rightarrow> string option \<Rightarrow> http_request" where
  "agent_request base agent key status heat model =
     \<lparr>rq_url = agent_url base agent,
      rq_body = py_encode (dumps '', '' '': '' (JObj ([(''status'', JStr status)]
        @ (case heat of None \<Rightarrow> [] | Some h \<Rightarrow> [(''heat_current'', JInt h)])
        @ (case model of None \<Rightarrow> [] | Some m \<Rightarrow> if m = [] then [] else [(''local_llm_model'', JStr m)])))),
      rq_headers = [(''X-API-Key'', key), (''Content-Type'', ''application/json''), (''User-Agent'', ''VibeShield/2.0'')],
      rq_method = ''POST''\<rparr>"

definition heartbeat ::
    "network \<Rightarrow> string option \<Rightarrow> string \<Rightarrow> string \<Rightarrow> string \<Rightarrow> int option \<Rightarrow> string option \<Rightarrow> json outcome" where
  "heartbeat net base agent key status heat model =
     (case net (agent_request base agent key status heat model) of
        Http_ok code body \<Rightarrow>
          (case loads body of
             None \<Rightarrow> Raise (decode_error body)
           | Some data \<Rightarrow> Ret (JObj [(''ok'', JBool True), (''status'', JInt code), (''data'', data)]))
      | Http_error code body descr \<Rightarrow>
          Ret (JObj [(''ok'', JBool False), (''status'', JInt code),
            (''error'', case error_detail body (JStr descr) of None \<Rightarrow> JStr descr | Some d \<Rightarrow> d)])
      | Url_error why \<Rightarrow>
          Ret (JObj [(''ok'', JBool False), (''status'', JInt 0), (''error'', JStr (''Connection failed: '' @ why))])
      | Os_error _ \<Rightarrow> Raise OSError)"

definition signal_complete :: "string \<Rightarrow> string \<Rightarrow> string \<Rightarrow> string" where
  "signal_complete agent_id task_id output_hash =
     dumps '', '' '': '' (JObj [(''command'', JStr ''SIGNAL_COMPLETE''), (''task_id'', JStr task_id),
       (''payload'', JObj [(''output_hash'', JStr output_hash)])])"

definition request_memory :: "string \<Rightarrow> string \<Rightarrow> int \<Rightarrow> string \<Rightarrow> string" where
  "request_memory agent_id task_id bytes_needed reason =
     dumps '', '' '': '' (JObj [(''command'', JStr ''REQUEST_MEMORY''), (''task_id'', JStr task_id),
       (''payload'', JObj [(''bytes_needed'', JInt bytes_needed), (''reason'', JStr reason)])])"

definition web_search :: "string \<Rightarrow> string \<Rightarrow> string \<Rightarrow> string" where
  "web_search agent_id task_id query =
     dumps '', '' '': '' (JObj [(''command'', JStr ''WEB_SEARCH''), (''task_id'', JStr task_id),
       (''payload'', JObj [(''query'', JStr query)])])"

definition request_data :: "string \<Rightarrow> string \<Rightarrow> string \<Rightarrow> string \<Rightarrow> string" where
  "request_data agent_id task_id api_url method =
     dumps '', '' '': '' (JObj [(''command'', JStr ''REQUEST_DATA''), (''task_id'', JStr task_id),
       (''payload'', JObj [(''url'', JStr api_url), (''method'', JStr method)])])"

definition escrow_release :: "string \<Rightarrow> string \<Rightarrow> string \<Rightarrow> string" where
  "escrow_release agent_id task_id bounty_id =
     dumps '', '' '': '' (JObj [(''command'', JStr ''ESCROW_RELEASE''), (''task_id'', JStr task_id),
       (''payload'', JObj [(''bounty_id'', JStr bounty_id)])])"

definition state_sync :: "string \<Rightarrow> string \<Rightarrow> (string \<times> json) list \<Rightarrow> string" where
  "state_sync agent_id task_id state =
     dumps '', '' '': '' (JObj [(''command'', JStr ''STATE_SYNC''), (''task_id'', JStr task_id),
       (''payload'', JObj [(''state'', JObj state)])])"

section \<open>Lemmas\<close>

lemma command_of_value [simp]: "command_of (command_value t) = Some t"
  by (cases t) (simp_all add: command_of_def all_commands_def)

lemma command_of_Some: "command_of s = Some t \<longleftrightarrow> s = command_value t"
proof
  assume "command_of s = Some t"
  then show "s = command_value t" unfolding command_of_def find_Some_iff by blast
qed simp

lemma upper_value [simp]: "py_upper (command_value t) = command_value t"
  by (cases t) (simp_all add: py_upper_def upper_char_def)

lemma wf_sep_default [simp]: "wf_sep '', '' '': ''"
  by (simp add: wf_sep_def is_ws_def)

definition task_of :: "CommandType \<Rightarrow> string \<Rightarrow> string \<Rightarrow> pyfloat \<Rightarrow> json \<Rightarrow> AgentCommand" where
  "task_of c agent task now p =
     \<lparr>command_type = c, cmd_agent_id = agent, payload = p, cmd_timestamp = now, cmd_task_id = JStr task\<rparr>"

lemma py_upper_Nil: "py_upper [] \<noteq> command_value t"
  by (cases t) (simp_all add: py_upper_def)

text \<open>A message with the three fields is parsed back into its command, task and payload.\<close>

lemma parse_message:
  assumes "wf_json p" "wf_json t" "command_value c = name"
  shows "parse (dumps '', '' '': '' (JObj [(''command'', JStr name), (''task_id'', t), (''payload'', p)])) agent now
    = Ret (Some \<lparr>command_type = c, cmd_agent_id = agent, payload = p, cmd_timestamp = now, cmd_task_id = t\<rparr>)"
proof -
  have "loads (dumps '', '' '': '' (JObj [(''command'', JStr name), (''task_id'', t), (''payload'', p)]))
      = Some (JObj [(''command'', JStr name), (''task_id'', t), (''payload'', p)])"
    using assms by (intro loads_dumps) (simp_all add: wf_dict_def)
  then show ?thesis unfolding assms(3) [symmetric] by (simp add: parse_def dict_get_def)
qed

lemma parse_to_json:
  assumes "wf_json (payload c)" "wf_json (cmd_task_id c)"
  shows "parse (cmd_to_json c) agent now = Ret (Some (c\<lparr>cmd_agent_id := agent, cmd_timestamp := now\<rparr>))"
proof -
  have "loads (cmd_to_json c) = Some (cmd_to_dict c)"
    unfolding cmd_to_json_def using assms by (intro loads_dumps) (simp_all add: cmd_to_dict_def wf_dict_def)
  then show ?thesis by (simp add: parse_def cmd_to_dict_def dict_get_def)
qed

text \<open>A run of the router: handlers are registered and commands submitted in any order.\<close>

datatype 'w router_op = Register CommandType "'w handler" | Submit AgentCommand pyfloat

fun router_step :: "'w router_op \<Rightarrow> 'w CommandRouter \<times> 'w \<Rightarrow> 'w CommandRouter \<times> 'w" where
  "router_step (Register t h) (r, w) = (register_handler r t h, w)"
| "router_step (Submit c now) (r, w) = (case route r w c now of (r', w', _) \<Rightarrow> (r', w'))"

definition submitted :: "'w router_op list \<Rightarrow> AgentCommand list" where
  "submitted ops = concat (map (\<lambda>x. case x of Register t h \<Rightarrow> [] | Submit c now \<Rightarrow> [c]) ops)"

definition registered :: "'w router_op list \<Rightarrow> CommandType \<Rightarrow> bool" where
  "registered ops t = list_ex (\<lambda>x. case x of Register t' h \<Rightarrow> t' = t | Submit c now \<Rightarrow> False) ops"

lemma route_router: "fst (route r w c now) = log_command r c"
  by (simp add: route_def Let_def split: option.split prod.split sum.split)

lemma route_silent: "dict_get (handlers r) (command_type c) = None \<Longrightarrow> fst (snd (route r w c now)) = w"
  by (simp add: route_def Let_def log_command_def)

lemma router_step_log:
  "command_log (fst (router_step x (r, w))) = command_log r @ map log_record (submitted [x])"
  using route_router [of r w]
  by (cases x) (simp_all add: register_handler_def submitted_def log_command_def split_beta)

lemma run_log: "command_log (fst (fold router_step ops (r, w))) = command_log r @ map log_record (submitted ops)"
proof (induction ops arbitrary: r w)
  case (Cons x ops)
  obtain r' w' where s: "router_step x (r, w) = (r', w')" by (cases "router_step x (r, w)")
  then show ?case using Cons [of r' w'] router_step_log [of x r w] by (simp add: submitted_def)
qed (simp add: submitted_def)

lemma run_silent:
  assumes "\<forall>c \<in> set (submitted ops). dict_get (handlers r) (command_type c) = None \<and> \<not> registered ops (command_type c)"
  shows "snd (fold router_step ops (r, w)) = w"
  using assms
proof (induction ops arbitrary: r)
  case (Cons x ops)
  show ?case
  proof (cases x)
    case (Register t h)
    with Cons.prems have "\<forall>c \<in> set (submitted ops). command_type c \<noteq> t \<and> dict_get (handlers r) (command_type c) = None
        \<and> \<not> registered ops (command_type c)"
      by (auto simp: submitted_def registered_def)
    then show ?thesis using Register Cons.IH [of "register_handler r t h"] by (auto simp: register_handler_def)
  next
    case (Submit c now)
    have "fst (snd (route r w c now)) = w" using Cons.prems Submit by (intro route_silent) (simp add: submitted_def)
    then have s: "router_step x (r, w) = (log_command r c, w)"
      using Submit route_router [of r w c now] by (simp add: split_beta)
    show ?thesis using Cons Submit s by (simp add: submitted_def registered_def log_command_def)
  qed
qed simp

section \<open>Properties\<close>

text \<open>
  Routing. Every command is logged, whatever becomes of it, and answered with its own agent
  and type. The answer is \<open>UNKNOWN\<close> exactly without a handler, \<open>OK\<close> with the handler's data
  exactly when it returns, \<open>TIMEOUT\<close> on a TimeoutError, \<open>DENIED\<close> on any other exception, and
  then it carries no data.
\<close>

theorem route_outcome:
  "case route r w c now of (r', w', a) \<Rightarrow>
     r' = r\<lparr>command_log := command_log r @ [log_record c]\<rparr>
     \<and> rsp_agent_id a = cmd_agent_id c \<and> rsp_type a = command_type c
     \<and> (case dict_get (handlers r) (command_type c) of
          None \<Rightarrow> w' = w \<and> rsp_status a = UNKNOWN \<and> rsp_data a = JObj []
        | Some h \<Rightarrow>
            w' = fst (h w c)
            \<and> (case snd (h w c) of
                 Inr d \<Rightarrow> rsp_status a = OK \<and> rsp_data a = d
               | Inl e \<Rightarrow> rsp_status a = (if e = TimeoutError then TIMEOUT else DENIED) \<and> rsp_data a = JObj []
                   \<and> (rsp_message a = ''Permission denied'' \<longleftrightarrow> e = PermissionError)))"
  by (simp add: route_def Let_def respond_def log_command_def split: option.split prod.split sum.split)

text \<open>
  Over any run that registers handlers and submits commands, the log of the router is
  exactly the submitted commands in their order, and commands of types no handler was
  registered for change nothing outside the router.
\<close>

theorem router_log_complete:
  "command_log (fst (fold router_step ops (new_router, w))) = map log_record (submitted ops)
   \<and> (list_all (\<lambda>c. \<not> registered ops (command_type c)) (submitted ops) \<longrightarrow> snd (fold router_step ops (new_router, w)) = w)"
  using run_log [of ops new_router w] run_silent [of ops new_router w]
  by (simp add: new_router_def list_all_iff)

theorem router_log_complete_witness:
  "snd (fold router_step [Register HEARTBEAT (\<lambda>w c. (w + 1, Ret JNull)), Submit (task_of WEB_SEARCH ''a'' ''t'' 0 JNull) 0]
     (new_router, 5 :: int)) = 5"
  using router_log_complete [of "[Register HEARTBEAT (\<lambda>w c. (w + 1, Ret JNull)), Submit (task_of WEB_SEARCH ''a'' ''t'' 0 JNull) 0]" "5 :: int"]
  by (simp add: submitted_def registered_def task_of_def)

text \<open>
  C39: parsing, for every message that is not foreign. It gives a command exactly when it is a JSON
  object whose command is a string and, in capitals, the name of a command; the command belongs to
  the caller's agent, whatever the message says, and takes task and payload from the message.
  \<open>parse\<close> raises AttributeError exactly for a JSON value that is no object and for an object whose
  command is present and no string. In every other case, a text that is no JSON, an object without
  a command or with an unknown name, it returns \<open>None\<close>.
\<close>

theorem parse_outcome:
  assumes "\<not> foreign raw"
  shows "(parse raw agent now = Ret (Some c) \<longleftrightarrow>
      (\<exists>d s. loads raw = Some (JObj d) \<and> dict_get d ''command'' = Some (JStr s) \<and> py_upper s = command_value (command_type c)
        \<and> cmd_agent_id c = agent \<and> cmd_timestamp c = now
        \<and> payload c = (case dict_get d ''payload'' of None \<Rightarrow> JObj [] | Some p \<Rightarrow> p)
        \<and> cmd_task_id c = (case dict_get d ''task_id'' of None \<Rightarrow> JNull | Some t \<Rightarrow> t)))
   \<and> (parse raw agent now = Raise x \<longleftrightarrow>
      x = AttributeError \<and> (\<exists>j. loads raw = Some j \<and> (case j of
          JObj d \<Rightarrow> (case dict_get d ''command'' of None \<Rightarrow> False | Some (JStr s) \<Rightarrow> False | Some _ \<Rightarrow> True)
        | _ \<Rightarrow> True)))
   \<and> (parse raw agent now = Ret None \<longleftrightarrow>
      loads raw = None \<or> (\<exists>d. loads raw = Some (JObj d) \<and> (case dict_get d ''command'' of
          None \<Rightarrow> True
        | Some (JStr s) \<Rightarrow> \<forall>t. py_upper s \<noteq> command_value t
        | Some _ \<Rightarrow> False)))"
proof (cases "\<exists>d. loads raw = Some (JObj d)")
  case False
  then show ?thesis using assms by (cases "loads raw") (auto simp: parse_def split: json.splits)
next
  case True
  then obtain d where d: "loads raw = Some (JObj d)" by blast
  show ?thesis
  proof (cases "dict_get d ''command''")
    case None
    have "command_of (py_upper []) = None"
      using py_upper_Nil command_of_Some [of "py_upper []"] by (cases "command_of (py_upper [])") auto
    with None d show ?thesis by (simp add: parse_def)
  next
    case (Some v)
    show ?thesis
    proof (cases v)
      case (JStr s)
      show ?thesis
      proof (cases "command_of (py_upper s)")
        case None
        then have "py_upper s \<noteq> command_value t" for t using command_of_value [of t] by auto
        with None show ?thesis by (simp add: parse_def d Some JStr)
      next
        case (Some t)
        then have "py_upper s = command_value t' \<longleftrightarrow> t' = t" for t'
          using command_of_Some [of "py_upper s" t'] by auto
        then show ?thesis
          using \<open>dict_get d ''command'' = Some v\<close> JStr d Some by (cases c) (auto simp: parse_def)
      qed
    qed (auto simp: parse_def d Some)
  qed
qed

definition unknown_message :: string where
  "unknown_message = dumps '', '' '': '' (JObj [(''command'', JStr ''NOPE'')])"

theorem parse_outcome_witness: "parse unknown_message ''a'' 0 = Ret None"
proof -
  have l: "loads unknown_message = Some (JObj [(''command'', JStr ''NOPE'')])"
    unfolding unknown_message_def by (rule loads_dumps) (simp_all add: wf_dict_def)
  have "py_upper ''NOPE'' \<noteq> command_value t" for t
    by (cases t) (simp_all add: py_upper_def upper_char_def)
  with parse_outcome [OF not_foreign [OF l], of "''a''" 0] show ?thesis by (simp add: l dict_get_def)
qed

text \<open>
  C40: what an agent builds is what the platform reads: every message builder, and
  \<open>AgentCommand.to_json\<close>, is parsed back to the command with its task and payload.
\<close>

theorem builders_parse:
  assumes "wf_json (JObj st)" "wf_json (payload c)" "wf_json (cmd_task_id c)"
  shows "parse (signal_complete a task hash) agent now
       = Ret (Some (task_of SIGNAL_COMPLETE agent task now (JObj [(''output_hash'', JStr hash)])))
    \<and> parse (request_memory a task n why) agent now
       = Ret (Some (task_of REQUEST_MEMORY agent task now (JObj [(''bytes_needed'', JInt n), (''reason'', JStr why)])))
    \<and> parse (web_search a task q) agent now = Ret (Some (task_of WEB_SEARCH agent task now (JObj [(''query'', JStr q)])))
    \<and> parse (request_data a task url meth) agent now
       = Ret (Some (task_of REQUEST_DATA agent task now (JObj [(''url'', JStr url), (''method'', JStr meth)])))
    \<and> parse (escrow_release a task bid) agent now
       = Ret (Some (task_of ESCROW_RELEASE agent task now (JObj [(''bounty_id'', JStr bid)])))
    \<and> parse (state_sync a task st) agent now = Ret (Some (task_of STATE_SYNC agent task now (JObj [(''state'', JObj st)])))
    \<and> parse (cmd_to_json c) agent now = Ret (Some (c\<lparr>cmd_agent_id := agent, cmd_timestamp := now\<rparr>))"
  using assms
  unfolding signal_complete_def request_memory_def web_search_def request_data_def escrow_release_def state_sync_def task_of_def
  by (intro conjI parse_message parse_to_json) (simp_all add: wf_dict_def)

theorem builders_parse_witness:
  "parse (signal_complete ''a'' ''t1'' ''ff'') ''a'' 0
     = Ret (Some (task_of SIGNAL_COMPLETE ''a'' ''t1'' 0 (JObj [(''output_hash'', JStr ''ff'')])))"
  using builders_parse [of "[]" "task_of SIGNAL_COMPLETE ''a'' ''t1'' 0 JNull" "''a''" "''t1''" "''ff''" "''a''" 0]
  by (simp add: task_of_def wf_dict_def)

end
