(* ===== verification/Process.thy ===== *)
theory Process
  imports Prelude
begin

text \<open>
  Subprocesses as \<open>subprocess.run\<close> offers them. What a command does is no part of the sources: a
  runner, a parameter of the operations, gives for each argument vector the return code and the
  captured text, or the exception that leaves \<open>subprocess.run\<close>.
\<close>

datatype proc_result =
    Done int string string
  | Timed_out
  | Not_found
  | Run_failed

type_synonym runner = "string list \<Rightarrow> proc_result"

end
