(* ===== verification/ImageVerify.thy ===== *)
theory ImageVerify
  imports Process PyJson
begin

text \<open>
  Container image verification: \<open>src/core/security/image_verify.py\<close>.

  The state is the table of trusted manifests and the flag \<open>require_signature\<close>; podman and cosign
  are the runner. The logger is not modelled.
\<close>

datatype VerificationStatus =
    VERIFIED | DIGEST_MISMATCH | SIGNATURE_INVALID | COSIGN_UNAVAILABLE | IMAGE_NOT_FOUND | STATUS_UNKNOWN

record ImageManifest =
  im_name :: string
  pinned_digest :: string
  cosign_key :: "string option"
  allowed_architectures :: "string list"

record VerificationResult =
  vr_status :: VerificationStatus
  vr_image :: string
  vr_digest :: string
  expected_digest :: string
  vr_details :: string

record ImageVerifier =
  trusted :: "(string, ImageManifest) dict"
  require_signature :: bool

definition new_verifier :: "bool \<Rightarrow> ImageVerifier" where
  "new_verifier req = \<lparr>trusted = [], require_signature = req\<rparr>"

definition add_trusted ::
    "ImageVerifier \<Rightarrow> string \<Rightarrow> string \<Rightarrow> string option \<Rightarrow> string list option \<Rightarrow> ImageVerifier" where
  "add_trusted v name digest key archs =
     v\<lparr>trusted := dict_set name
        \<lparr>im_name = name, pinned_digest = digest, cosign_key = key,
         allowed_architectures = (case archs of None \<Rightarrow> [''linux/amd64'', ''linux/arm64''] | Some a \<Rightarrow> a)\<rparr>
        (trusted v)\<rparr>"

definition remove_trusted :: "ImageVerifier \<Rightarrow> string \<Rightarrow> ImageVerifier" where
  "remove_trusted v name = v\<lparr>trusted := dict_pop name (trusted v)\<rparr>"

text \<open>
  \<open>re.sub(r'[:@].*', '', s)\<close>: a match runs to the end of its line (the dot stops at a newline), and
  every match is removed. The flag says whether the scan is inside a match.
\<close>

fun strip_tag :: "bool \<Rightarrow> string \<Rightarrow> string" where
  "strip_tag _ [] = []"
| "strip_tag True (c # s) = (if c = CHR 0x0A then c # strip_tag False s else strip_tag True s)"
| "strip_tag False (c # s) = (if c = CHR '':'' \<or> c = CHR 0x40 then strip_tag True s else c # strip_tag False s)"

definition inspect_digest :: "runner \<Rightarrow> string \<Rightarrow> string option" where
  "inspect_digest run ref =
     (case run [''podman'', ''image'', ''inspect'', ref, ''--format'', ''{{.Digest}}''] of
        Done rc out err \<Rightarrow> if rc = 0 \<and> py_strip out \<noteq> [] then Some (py_strip out) else None
      | _ \<Rightarrow> None)"

definition verify_cosign :: "runner \<Rightarrow> string \<Rightarrow> string \<Rightarrow> VerificationStatus" where
  "verify_cosign run ref key =
     (case run [''cosign'', ''verify'', ''--key'', key, ref] of
        Done rc out err \<Rightarrow> if rc = 0 then VERIFIED else SIGNATURE_INVALID
      | Not_found \<Rightarrow> COSIGN_UNAVAILABLE
      | _ \<Rightarrow> STATUS_UNKNOWN)"

definition check_signature :: "runner \<Rightarrow> ImageVerifier \<Rightarrow> ImageManifest \<Rightarrow> string \<Rightarrow> VerificationStatus" where
  "check_signature run v m ref =
     (case cosign_key m of
        Some key \<Rightarrow> if key \<noteq> [] \<and> require_signature v then verify_cosign run ref key else VERIFIED
      | None \<Rightarrow> VERIFIED)"

definition verify :: "runner \<Rightarrow> ImageVerifier \<Rightarrow> string \<Rightarrow> VerificationResult" where
  "verify run v ref =
     (let name = strip_tag False ref
      in case dict_get (trusted v) name of
           None \<Rightarrow> \<lparr>vr_status = IMAGE_NOT_FOUND, vr_image = ref, vr_digest = [], expected_digest = [],
                    vr_details = ''Image '' @ [CHR 0x27] @ name @ [CHR 0x27] @ '' is not in the trusted manifest''\<rparr>
         | Some m \<Rightarrow>
             (let signed = (\<lambda>actual.
                  (let sig = check_signature run v m ref
                   in if sig \<noteq> VERIFIED
                      then \<lparr>vr_status = sig, vr_image = ref, vr_digest = actual, expected_digest = pinned_digest m,
                            vr_details = ''Cosign signature verification failed''\<rparr>
                      else \<lparr>vr_status = VERIFIED, vr_image = ref, vr_digest = actual, expected_digest = pinned_digest m,
                            vr_details = ''Image integrity verified''\<rparr>))
              in if CHR 0x40 \<in> set ref
                 then (let provided = split_on (CHR 0x40) ref ! 1
                       in if provided \<noteq> pinned_digest m
                          then \<lparr>vr_status = DIGEST_MISMATCH, vr_image = ref, vr_digest = provided,
                                expected_digest = pinned_digest m,
                                vr_details = ''Provided digest does not match pinned digest''\<rparr>
                          else signed provided)
                 else (case inspect_digest run ref of
                         None \<Rightarrow> \<lparr>vr_status = IMAGE_NOT_FOUND, vr_image = ref, vr_digest = [],
                                  expected_digest = pinned_digest m, vr_details = ''Could not inspect image digest''\<rparr>
                       | Some actual \<Rightarrow>
                           if actual \<noteq> pinned_digest m
                           then \<lparr>vr_status = DIGEST_MISMATCH, vr_image = ref, vr_digest = actual,
                                 expected_digest = pinned_digest m,
                                 vr_details = ''Image digest does not match pinned digest '' @ em_dash @ '' possible tampering''\<rparr>
                           else signed actual)))"

definition list_trusted :: "ImageVerifier \<Rightarrow> json list" where
  "list_trusted v = map (\<lambda>m. JObj [(''name'', JStr (im_name m)), (''digest'', JStr (pinned_digest m)),
     (''cosign_enabled'', JBool (cosign_key m \<noteq> None)),
     (''architectures'', JList (map JStr (allowed_architectures m)))]) (dict_values (trusted v))"

section \<open>Lemmas\<close>

text \<open>The digest the verifier compares: the one of the reference, or the inspected one.\<close>

definition digest_of :: "runner \<Rightarrow> string \<Rightarrow> string option" where
  "digest_of run ref =
     (if CHR 0x40 \<in> set ref then Some (split_on (CHR 0x40) ref ! 1) else inspect_digest run ref)"

lemma strip_tag_plain: "CHR '':'' \<notin> set (strip_tag b s) \<and> CHR 0x40 \<notin> set (strip_tag b s)"
  by (induction b s rule: strip_tag.induct) auto

lemma strip_tag_id: "CHR '':'' \<notin> set s \<Longrightarrow> CHR 0x40 \<notin> set s \<Longrightarrow> strip_tag False s = s"
  by (induction s) auto

lemma strip_tag_append:
  assumes "CHR '':'' \<notin> set s" "CHR 0x40 \<notin> set s" "c = CHR '':'' \<or> c = CHR 0x40" "CHR 0x0A \<notin> set t"
  shows "strip_tag False (s @ c # t) = s"
proof -
  have "strip_tag True t = []" using assms(4) by (induction t) auto
  then show ?thesis using assms(1-3) by (induction s) auto
qed

lemma verify_status:
  "vr_status (verify run v ref) =
     (case dict_get (trusted v) (strip_tag False ref) of
        None \<Rightarrow> IMAGE_NOT_FOUND
      | Some m \<Rightarrow>
          (case digest_of run ref of
             None \<Rightarrow> IMAGE_NOT_FOUND
           | Some d \<Rightarrow> if d \<noteq> pinned_digest m then DIGEST_MISMATCH else check_signature run v m ref))"
  by (simp add: verify_def digest_of_def Let_def split: option.split)

lemma signature_ok:
  "check_signature run v m ref = VERIFIED \<longleftrightarrow>
     (require_signature v \<longrightarrow> (\<forall>key. cosign_key m = Some key \<longrightarrow> key = [] \<or> (\<exists>out err.
        run [''cosign'', ''verify'', ''--key'', key, ref] = Done 0 out err)))"
  by (auto simp: check_signature_def verify_cosign_def split: option.splits proc_result.splits)

lemma digest_of_qualified:
  assumes "CHR 0x40 \<notin> set name" "CHR 0x40 \<notin> set d"
  shows "digest_of run (name @ CHR 0x40 # d) = Some d"
  using assms by (simp add: digest_of_def split_on_append_sep split_on_plain)

section \<open>Properties\<close>

text \<open>
  C37: an image is verified exactly when its name, the reference up to the first tag or digest
  mark, is trusted, its digest, the one of the reference or else the inspected one, is the
  pinned one, and, where signatures are required and a key is pinned, cosign accepted the
  reference under that key.
\<close>

theorem image_verified:
  "vr_status (verify run v ref) = VERIFIED \<longleftrightarrow>
     (\<exists>m. dict_get (trusted v) (strip_tag False ref) = Some m
       \<and> digest_of run ref = Some (pinned_digest m)
       \<and> (case (require_signature v, cosign_key m) of
            (True, Some key) \<Rightarrow> key = [] \<or> (\<exists>out err. run [''cosign'', ''verify'', ''--key'', key, ref] = Done 0 out err)
          | _ \<Rightarrow> True))"
  using signature_ok [of run v _ ref]
  by (auto simp: verify_status split: option.splits if_splits bool.splits)

text \<open>
  The life of a pin. A reference that names a digest is verified against it with no look at
  the image: with the pinned digest it is verified, with any other it is a mismatch, and after
  the name is removed no tag or digest of it is found.
\<close>

theorem image_pin:
  assumes "CHR '':'' \<notin> set name" "CHR 0x40 \<notin> set name" "CHR 0x40 \<notin> set d" "CHR 0x0A \<notin> set d"
  shows "vr_status (verify run (add_trusted v name pin None archs) (name @ CHR 0x40 # d)) = (if d = pin then VERIFIED else DIGEST_MISMATCH)
    \<and> vr_status (verify run (remove_trusted v name) (name @ CHR 0x40 # d)) = IMAGE_NOT_FOUND
    \<and> vr_status (verify run (remove_trusted v name) (name @ CHR '':'' # d)) = IMAGE_NOT_FOUND
    \<and> vr_status (verify run (remove_trusted v name) name) = IMAGE_NOT_FOUND"
  using assms
  by (simp add: verify_status add_trusted_def remove_trusted_def strip_tag_append strip_tag_id digest_of_qualified
      check_signature_def)

theorem image_pin_witness:
  "vr_status (verify (\<lambda>_. Not_found) (add_trusted (new_verifier True) ''base'' ''sha256:aa'' None None) (''base'' @ CHR 0x40 # ''sha256:aa''))
     = VERIFIED"
  using image_pin [of "''base''" "''sha256:aa''" "\<lambda>_. Not_found" "new_verifier True" "''sha256:aa''" None] by simp

text \<open>
  An image of a registry with a port cannot be trusted. A manifest whose name holds a colon
  is accepted, but no reference is ever compared with it.
\<close>

theorem image_port_untrusted:
  assumes "CHR '':'' \<in> set name"
  shows "verify run (add_trusted v name pin key archs) ref = verify run v ref"
proof -
  have "strip_tag False ref \<noteq> name" using strip_tag_plain [of False ref] assms by auto
  then show ?thesis
    by (simp add: verify_def check_signature_def add_trusted_def Let_def cong: option.case_cong)
qed

theorem image_port_untrusted_witness:
  "vr_status (verify run (add_trusted (new_verifier False) ''reg:5000/img'' ''sha256:aa'' None None) ''reg:5000/img'') = IMAGE_NOT_FOUND"
  using image_port_untrusted [of "''reg:5000/img''" run "new_verifier False" "''sha256:aa''" None None "''reg:5000/img''"]
  by (simp add: verify_status new_verifier_def)

end
