(* ===== verification/Workspace.thy ===== *)
theory Workspace
  imports Process Utils PyJson
begin

text \<open>
  Encrypted workspaces: \<open>src/core/security/workspace.py\<close>.

  The manager's operations act on the system: they create and remove directories and run \<open>mount\<close>
  and \<open>umount\<close>. Each returns, beside the new manager and the outcome, the list of those calls in
  order; what the system answers (the effective user, the commands, \<open>makedirs\<close>, \<open>ismount\<close>) is
  the record \<open>sys\<close>. \<open>shutil.rmtree\<close> with \<open>ignore_errors\<close> and \<open>os.rmdir\<close> inside its handler
  raise nothing. The overwriting of a directory is modelled on its tree (\<open>overwrite\<close>), which holds
  directories and regular files; symbolic links are not modelled. The random id, the random key
  and SHA-256 are arguments.
\<close>

datatype WorkspaceState = CREATED | MOUNTED | WIPED | DESTROYED

fun state_value :: "WorkspaceState \<Rightarrow> string" where
  "state_value CREATED = ''created''"
| "state_value MOUNTED = ''mounted''"
| "state_value WIPED = ''wiped''"
| "state_value DESTROYED = ''destroyed''"

record WorkspaceConfig =
  size_default :: int
  encryption_enabled :: bool
  wipe_passes :: int
  owner_uid :: int
  owner_gid :: int
  mount_base :: string

definition default_workspace_config :: WorkspaceConfig where
  "default_workspace_config =
     \<lparr>size_default = 100, encryption_enabled = True, wipe_passes = 3, owner_uid = 1000, owner_gid = 1000,
      mount_base = ''/run/vibeshield/workspaces''\<rparr>"

record Workspace =
  workspace_id :: string
  mount_path :: string
  size_mb :: int
  ws_state :: WorkspaceState
  encryption_key_hash :: string
  created_at :: pyfloat
  wiped_at :: "pyfloat option"

record WorkspaceManager =
  ws_config :: WorkspaceConfig
  workspaces :: "(string, Workspace) dict"

definition new_manager :: "WorkspaceConfig option \<Rightarrow> WorkspaceManager" where
  "new_manager c = \<lparr>ws_config = (case c of None \<Rightarrow> default_workspace_config | Some x \<Rightarrow> x), workspaces = []\<rparr>"

section \<open>The system\<close>

datatype sys_call =
    Makedirs string
  | Run "string list"
  | Overwrite string
  | Rmtree string
  | Rmdir string

record sys =
  euid_root :: bool
  run_cmd :: runner
  makedirs_ok :: "string \<Rightarrow> bool"
  is_mount :: "string \<Rightarrow> bool"

section \<open>Creation\<close>

definition mount_argv :: "WorkspaceConfig \<Rightarrow> string \<Rightarrow> int \<Rightarrow> string \<Rightarrow> string list" where
  "mount_argv c wid sz path =
     [''mount'', ''-t'', ''tmpfs'', ''-o'',
      ''size='' @ show_int sz @ ''M,mode=0700,uid='' @ show_int (owner_uid c) @ '',gid='' @ show_int (owner_gid c),
      ''vibeshield-'' @ wid, path]"

text \<open>The state after the attempt to mount; \<open>subprocess.run\<close> may also leave with an exception.\<close>

definition mount_state :: "sys \<Rightarrow> string list \<Rightarrow> WorkspaceState outcome" where
  "mount_state env argv =
     (if euid_root env
      then (case run_cmd env argv of
              Done rc out err \<Rightarrow> Ret (if rc \<noteq> 0 then CREATED else MOUNTED)
            | Timed_out \<Rightarrow> Ret CREATED
            | Not_found \<Rightarrow> Raise FileNotFoundError
            | Run_failed \<Rightarrow> Raise OSError)
      else Ret CREATED)"

definition create ::
    "hash_fun \<Rightarrow> sys \<Rightarrow> WorkspaceManager \<Rightarrow> string \<Rightarrow> int option \<Rightarrow> bool option \<Rightarrow> string \<Rightarrow> string \<Rightarrow> pyfloat
      \<Rightarrow> WorkspaceManager \<times> sys_call list \<times> Workspace outcome" where
  "create sha env m task_id sz_arg encryption uid key now =
     (let c = ws_config m;
          sz = (case sz_arg of None \<Rightarrow> size_default c | Some s \<Rightarrow> if s = 0 then size_default c else s)
      in if task_id = [] \<or> \<not> dollar_match (\<lambda>w. w \<noteq> [] \<and> list_all ident_char w) task_id
         then (m, [], Raise ValueError)
         else if sz < 1 \<or> size_default c * 5 < sz then (m, [], Raise ValueError)
         else
           (let wid = ''ws_'' @ task_id @ ''_'' @ uid;
                path = path_join (mount_base c) wid;
                argv = mount_argv c wid sz path;
                calls = Makedirs path # (if euid_root env then [Run argv] else [])
            in if \<not> makedirs_ok env path then (m, [Makedirs path], Raise OSError)
               else (case mount_state env argv of
                       Inl x \<Rightarrow> (m, calls, Raise x)
                     | Inr st \<Rightarrow>
                         (let w = \<lparr>workspace_id = wid, mount_path = path, size_mb = sz, ws_state = st,
                                   encryption_key_hash = sha key, created_at = now, wiped_at = None\<rparr>
                          in (m\<lparr>workspaces := dict_set wid w (workspaces m)\<rparr>, calls, Ret w)))))"

section \<open>Wiping\<close>

text \<open>The passes and the first unmounting; an exception other than the timeout leaves \<open>wipe\<close>.\<close>

definition shred :: "sys \<Rightarrow> WorkspaceConfig \<Rightarrow> Workspace \<Rightarrow> sys_call list \<times> unit outcome" where
  "shred env c w =
     (if ws_state w = MOUNTED
      then (let passes = replicate (nat (wipe_passes c)) (Overwrite (mount_path w));
                um = [''umount'', ''-l'', mount_path w]
            in if euid_root env
               then (passes @ [Run um],
                     case run_cmd env um of
                       Not_found \<Rightarrow> Raise FileNotFoundError | Run_failed \<Rightarrow> Raise OSError | _ \<Rightarrow> Ret ())
               else (passes, Ret ()))
      else ([], Ret ()))"

text \<open>The removal, inside its handler: an exception of the second unmounting skips the rest.\<close>

definition remove_path :: "sys \<Rightarrow> string \<Rightarrow> sys_call list" where
  "remove_path env p =
     (let um = [''umount'', ''-l'', p]; rest = [Rmtree p, Rmdir (py_dirname p)]
      in if is_mount env p \<and> euid_root env
         then Run um # (case run_cmd env um of Done rc out err \<Rightarrow> rest | _ \<Rightarrow> [])
         else rest)"

definition wipe :: "sys \<Rightarrow> WorkspaceManager \<Rightarrow> string \<Rightarrow> pyfloat \<Rightarrow> WorkspaceManager \<times> sys_call list \<times> bool outcome" where
  "wipe env m wid now =
     (case dict_get (workspaces m) wid of
        None \<Rightarrow> (m, [], Ret False)
      | Some w \<Rightarrow>
          (case shred env (ws_config m) w of
             (calls, Inl x) \<Rightarrow> (m, calls, Raise x)
           | (calls, Inr _) \<Rightarrow>
               (m\<lparr>workspaces := dict_set wid (w\<lparr>ws_state := WIPED, wiped_at := Some now\<rparr>) (workspaces m)\<rparr>,
                calls @ remove_path env (mount_path w), Ret True)))"

definition stale_ids :: "WorkspaceManager \<Rightarrow> int \<Rightarrow> pyfloat \<Rightarrow> string list" where
  "stale_ids m max_age now =
     map fst (filter (\<lambda>(k, w). ws_state w \<noteq> WIPED \<and> of_int max_age < rat_of (now - created_at w)) (workspaces m))"

text \<open>\<open>clk i\<close> is the reading of the \<open>i\<close>-th wipe.\<close>

fun wipe_all ::
    "sys \<Rightarrow> WorkspaceManager \<Rightarrow> string list \<Rightarrow> (nat \<Rightarrow> pyfloat) \<Rightarrow> WorkspaceManager \<times> sys_call list \<times> unit outcome" where
  "wipe_all env m [] clk = (m, [], Ret ())"
| "wipe_all env m (k # ks) clk =
     (case wipe env m k (clk 0) of
        (m1, calls, Inl x) \<Rightarrow> (m1, calls, Raise x)
      | (m1, calls, Inr _) \<Rightarrow>
          (case wipe_all env m1 ks (\<lambda>i. clk (Suc i)) of (m2, calls', r) \<Rightarrow> (m2, calls @ calls', r)))"

definition cleanup_stale ::
    "sys \<Rightarrow> WorkspaceManager \<Rightarrow> int \<Rightarrow> pyfloat \<Rightarrow> (nat \<Rightarrow> pyfloat) \<Rightarrow> WorkspaceManager \<times> sys_call list \<times> unit outcome" where
  "cleanup_stale env m max_age now clk = wipe_all env m (stale_ids m max_age now) clk"

definition get_workspace :: "WorkspaceManager \<Rightarrow> string \<Rightarrow> Workspace option" where
  "get_workspace m wid = dict_get (workspaces m) wid"

definition list_workspaces :: "WorkspaceManager \<Rightarrow> json list" where
  "list_workspaces m = map (\<lambda>w. JObj [(''workspace_id'', JStr (workspace_id w)), (''mount_path'', JStr (mount_path w)),
     (''size_mb'', JInt (size_mb w)), (''state'', JStr (state_value (ws_state w))),
     (''encrypted'', JBool (encryption_key_hash w \<noteq> [])), (''created_at'', JFloat (created_at w)),
     (''wiped_at'', case wiped_at w of None \<Rightarrow> JNull | Some t \<Rightarrow> JFloat t)]) (dict_values (workspaces m))"

section \<open>Overwriting a directory\<close>

text \<open>
  One pass over a directory tree, top-down as \<open>os.walk\<close>. \<open>opens p\<close> says whether \<open>p\<close> can be opened
  for writing, \<open>rnd p n\<close> are the random bytes drawn for it. Opening truncates, and at most 10 MB are
  written. In every subdirectory a file \<open>.wipe\<close> is written and removed before the walk gets there,
  so one that exists is gone; the flag \<open>hit\<close> says that this happened in the directory at hand.
\<close>

datatype fs = File string | Dir "(string \<times> fs) list"

definition max_chunk :: nat where
  "max_chunk = 10 * 1024 * 1024"

definition overwrite_file :: "(string \<Rightarrow> bool) \<Rightarrow> (string \<Rightarrow> nat \<Rightarrow> string) \<Rightarrow> string \<Rightarrow> string \<Rightarrow> string" where
  "overwrite_file opens rnd p content =
     (if content \<noteq> [] \<and> opens p then rnd p (min (length content) max_chunk) else content)"

definition has_dir :: "string \<Rightarrow> (string \<times> fs) list \<Rightarrow> bool" where
  "has_dir n ms = (case dict_get ms n of Some (Dir _) \<Rightarrow> True | _ \<Rightarrow> False)"

fun overwrite :: "(string \<Rightarrow> bool) \<Rightarrow> (string \<Rightarrow> nat \<Rightarrow> string) \<Rightarrow> bool \<Rightarrow> string \<Rightarrow> fs \<Rightarrow> fs"
  and overwrite_members ::
    "(string \<Rightarrow> bool) \<Rightarrow> (string \<Rightarrow> nat \<Rightarrow> string) \<Rightarrow> bool \<Rightarrow> string \<Rightarrow> (string \<times> fs) list \<Rightarrow> (string \<times> fs) list" where
  "overwrite opens rnd hit p (File c) = File (overwrite_file opens rnd p c)"
| "overwrite opens rnd hit p (Dir ms) = Dir (overwrite_members opens rnd hit p ms)"
| "overwrite_members opens rnd hit p [] = []"
| "overwrite_members opens rnd hit p ((n, File c) # ms) =
     (if hit \<and> n = ''.wipe'' then overwrite_members opens rnd hit p ms
      else (n, overwrite opens rnd False (path_join p n) (File c)) # overwrite_members opens rnd hit p ms)"
| "overwrite_members opens rnd hit p ((n, Dir sub) # ms) =
     (n, overwrite opens rnd (opens (path_join (path_join p n) ''.wipe'') \<and> \<not> has_dir ''.wipe'' sub) (path_join p n) (Dir sub))
       # overwrite_members opens rnd hit p ms"

text \<open>\<open>_overwrite_directory(path)\<close>; a path that is no directory is not walked.\<close>

definition overwrite_directory :: "(string \<Rightarrow> bool) \<Rightarrow> (string \<Rightarrow> nat \<Rightarrow> string) \<Rightarrow> string \<Rightarrow> fs \<Rightarrow> fs" where
  "overwrite_directory opens rnd p t = (case t of File c \<Rightarrow> File c | Dir ms \<Rightarrow> overwrite opens rnd False p (Dir ms))"

section \<open>Lemmas\<close>

subsection \<open>Overwriting\<close>

text \<open>What is left of a tree when the contents are forgotten: names and sizes.\<close>

fun shape :: "fs \<Rightarrow> fs" and shape_members :: "(string \<times> fs) list \<Rightarrow> (string \<times> fs) list" where
  "shape (File c) = File (replicate (length c) (CHR 0x00))"
| "shape (Dir ms) = Dir (shape_members ms)"
| "shape_members [] = []"
| "shape_members ((n, File c) # ms) = (n, shape (File c)) # shape_members ms"
| "shape_members ((n, Dir sub) # ms) = (n, shape (Dir sub)) # shape_members ms"

lemma has_dir_Cons: "has_dir n ((k, v) # ms) = (if k = n then (case v of Dir _ \<Rightarrow> True | _ \<Rightarrow> False) else has_dir n ms)"
  by (simp add: has_dir_def split: fs.split)

lemma has_dir_shape [simp]: "has_dir n (shape_members ms) = has_dir n ms"
proof (induction ms)
  case (Cons m ms)
  then show ?case by (cases m; cases "snd m") (auto simp: has_dir_Cons)
qed simp

lemma overwrite_shape:
  "overwrite (\<lambda>_. True) rnd hit p (shape t) = overwrite (\<lambda>_. True) rnd hit p t"
  "overwrite_members (\<lambda>_. True) rnd hit p (shape_members ms) = overwrite_members (\<lambda>_. True) rnd hit p ms"
  by (induction "\<lambda>_ :: string. True" rnd hit p t and "\<lambda>_ :: string. True" rnd hit p ms
      rule: overwrite_overwrite_members.induct)
    (simp_all add: overwrite_file_def)

lemma overwrite_closed:
  "overwrite (\<lambda>_. False) rnd False p t = t"
  "overwrite_members (\<lambda>_. False) rnd False p ms = ms"
  by (induction t and ms arbitrary: p and p rule: shape_shape_members.induct) (simp_all add: overwrite_file_def)

subsection \<open>The manager\<close>

definition overwrites :: "sys_call list \<Rightarrow> sys_call list" where
  "overwrites calls = filter (\<lambda>c. case c of Overwrite _ \<Rightarrow> True | _ \<Rightarrow> False) calls"

lemma overwrites_simps [simp]:
  "overwrites [] = []" "overwrites (cs @ ds) = overwrites cs @ overwrites ds"
  "overwrites (replicate n (Overwrite p)) = replicate n (Overwrite p)"
  "overwrites (remove_path env p) = []"
  by (simp_all add: overwrites_def remove_path_def Let_def split: proc_result.split)

definition ws_ok :: "WorkspaceManager \<Rightarrow> bool" where
  "ws_ok m = (wf_dict (workspaces m) \<and>
     (\<forall>k w. dict_get (workspaces m) k = Some w \<longrightarrow>
        workspace_id w = k \<and> mount_path w = path_join (mount_base (ws_config m)) k
        \<and> CHR ''/'' \<notin> set k \<and> starts_with ''ws_'' k
        \<and> 1 \<le> size_mb w \<and> size_mb w \<le> size_default (ws_config m) * 5
        \<and> (ws_state w = WIPED \<longleftrightarrow> wiped_at w \<noteq> None) \<and> ws_state w \<noteq> DESTROYED))"

lemma task_no_slash:
  assumes "dollar_match (\<lambda>w. w \<noteq> [] \<and> list_all ident_char w) s"
  shows "CHR ''/'' \<notin> set s"
proof -
  have plain: "CHR ''/'' \<notin> set w" if "list_all ident_char w" for w
    using that by (auto simp: list_all_iff ident_char_def is_alnum_def)
  show ?thesis
  proof (cases "list_all ident_char s")
    case False
    with assms have s: "s \<noteq> []" "last s = CHR 0x0A" "list_all ident_char (butlast s)"
      by (auto simp: dollar_match_def)
    then have "set s = insert (CHR 0x0A) (set (butlast s))"
      by (metis append_butlast_last_id list.set(2) rotate1.simps(2) set_rotate1)
    with plain [OF s(3)] show ?thesis by simp
  qed (rule plain)
qed

lemma mount_state_cases: "mount_state env argv = Ret st \<Longrightarrow> st = CREATED \<or> st = MOUNTED \<and> euid_root env"
  by (auto simp: mount_state_def split: if_splits proc_result.splits)

lemma create_cases:
  assumes "create sha env m task_id sz enc uid key now = (m', calls, r)"
  obtains (refused) x where "m' = m" "r = Raise x"
  | (made) w where "r = Ret w" "m' = m\<lparr>workspaces := dict_set (workspace_id w) w (workspaces m)\<rparr>"
      "workspace_id w = ''ws_'' @ task_id @ ''_'' @ uid"
      "dollar_match (\<lambda>w. w \<noteq> [] \<and> list_all ident_char w) task_id"
      "mount_path w = path_join (mount_base (ws_config m)) (workspace_id w)"
      "1 \<le> size_mb w" "size_mb w \<le> size_default (ws_config m) * 5"
      "ws_state w = CREATED \<or> ws_state w = MOUNTED \<and> euid_root env" "wiped_at w = None"
proof (cases r)
  case (Inl x)
  with assms have "m' = m" by (auto simp: create_def Let_def split: if_splits sum.splits)
  with Inl that(1) show ?thesis by blast
next
  case (Inr w)
  let ?c = "ws_config m"
  define sz' where "sz' = (case sz of None \<Rightarrow> size_default ?c | Some s \<Rightarrow> if s = 0 then size_default ?c else s)"
  define wid where "wid = ''ws_'' @ task_id @ ''_'' @ uid"
  define path where "path = path_join (mount_base ?c) wid"
  have e: "create sha env m task_id sz enc uid key now = (m', calls, Inr w)" using assms Inr by simp
  have g: "dollar_match (\<lambda>w. w \<noteq> [] \<and> list_all ident_char w) task_id" "1 \<le> sz'" "sz' \<le> size_default ?c * 5"
    "makedirs_ok env path"
    using e by (auto simp: create_def Let_def sz'_def path_def wid_def split: if_splits)
  then obtain st where st: "mount_state env (mount_argv ?c wid sz' path) = Inr st"
    using e by (cases "mount_state env (mount_argv ?c wid sz' path)")
      (simp_all add: create_def Let_def sz'_def path_def wid_def split: if_splits)
  then have w: "w = \<lparr>workspace_id = wid, mount_path = path, size_mb = sz', ws_state = st,
        encryption_key_hash = sha key, created_at = now, wiped_at = None\<rparr>"
    "m' = m\<lparr>workspaces := dict_set wid w (workspaces m)\<rparr>"
    using e g by (auto simp: create_def Let_def sz'_def path_def wid_def split: if_splits)
  from that(2) [OF Inr] w g mount_state_cases [OF st] show ?thesis by (simp add: wid_def path_def)
qed

lemma ws_ok_new [simp]: "ws_ok (new_manager c)"
  by (simp add: ws_ok_def new_manager_def)

lemma ws_ok_create:
  assumes "ws_ok m" "CHR ''/'' \<notin> set uid" "create sha env m task_id sz enc uid key now = (m', calls, r)"
  shows "ws_ok m' \<and> ws_config m' = ws_config m"
  using assms(3)
proof (cases rule: create_cases)
  case (made w)
  have "CHR ''/'' \<notin> set (workspace_id w)" using made task_no_slash [OF made(4)] assms(2) by simp
  moreover have "starts_with ''ws_'' (workspace_id w)" by (simp add: made(3) starts_with_def)
  ultimately show ?thesis using assms(1) made by (auto simp: ws_ok_def)
qed (use assms(1) in simp)

lemma ws_ok_wipe:
  assumes "ws_ok m" "wipe env m wid now = (m', calls, r)"
  shows "ws_ok m' \<and> ws_config m' = ws_config m"
proof (cases "dict_get (workspaces m) wid")
  case (Some w)
  then show ?thesis using assms by (auto simp: ws_ok_def wipe_def split: prod.splits sum.splits if_splits)
qed (use assms in \<open>simp add: wipe_def\<close>)

lemma ws_ok_wipe_all:
  "ws_ok m \<Longrightarrow> wipe_all env m ks clk = (m', calls, r) \<Longrightarrow> ws_ok m' \<and> ws_config m' = ws_config m"
proof (induction env m ks clk arbitrary: m' calls r rule: wipe_all.induct)
  case (2 env m k ks clk)
  obtain m1 cs o1 where w: "wipe env m k (clk 0) = (m1, cs, o1)" by (metis prod_cases3)
  from ws_ok_wipe [OF "2.prems"(1) w] have ok: "ws_ok m1 \<and> ws_config m1 = ws_config m" .
  show ?case
  proof (cases o1)
    case (Inl x)
    with "2.prems"(2) w ok show ?thesis by simp
  next
    case (Inr b)
    obtain m2 ds o2 where w2: "wipe_all env m1 ks (\<lambda>i. clk (Suc i)) = (m2, ds, o2)" by (metis prod_cases3)
    have "m' = m2" using "2.prems"(2) w w2 Inr by simp
    with "2.IH" [OF w [symmetric] refl Inr _ w2] ok show ?thesis by simp
  qed
qed simp

inductive ws_reach :: "WorkspaceConfig \<Rightarrow> WorkspaceManager \<Rightarrow> bool" for c where
  start: "ws_reach c (new_manager (Some c))"
| creation: "ws_reach c m \<Longrightarrow> CHR ''/'' \<notin> set uid \<Longrightarrow> create sha env m task_id sz enc uid key now = (m', calls, r) \<Longrightarrow> ws_reach c m'"
| wiping: "ws_reach c m \<Longrightarrow> wipe env m wid now = (m', calls, r) \<Longrightarrow> ws_reach c m'"
| cleanup: "ws_reach c m \<Longrightarrow> cleanup_stale env m max_age now clk = (m', calls, r2) \<Longrightarrow> ws_reach c m'"

lemma ws_reach_ok: "ws_reach c m \<Longrightarrow> ws_ok m \<and> ws_config m = c"
proof (induction rule: ws_reach.induct)
  case start
  show ?case using ws_ok_new [of "Some c"] by (simp add: new_manager_def)
next
  case creation
  then show ?case using ws_ok_create by metis
next
  case wiping
  then show ?case using ws_ok_wipe by metis
next
  case cleanup
  then show ?case using ws_ok_wipe_all unfolding cleanup_stale_def by metis
qed

lemma wipe_hit:
  assumes "dict_get (workspaces m) k = Some w" "wipe env m k now = (m', calls, Inr b)"
  shows "workspaces m' = dict_set k (w\<lparr>ws_state := WIPED, wiped_at := Some now\<rparr>) (workspaces m)"
  using assms by (auto simp: wipe_def split: prod.splits sum.splits)

lemma wipe_miss: "dict_get (workspaces m) k = None \<Longrightarrow> wipe env m k now = (m, [], Ret False)"
  by (simp add: wipe_def)

definition wiped_form :: "Workspace \<Rightarrow> Workspace option \<Rightarrow> bool" where
  "wiped_form w r = (\<exists>t. r = Some (w\<lparr>ws_state := WIPED, wiped_at := Some t\<rparr>))"

lemma wiped_differs: "ws_state w \<noteq> WIPED \<Longrightarrow> w\<lparr>ws_state := WIPED, wiped_at := x\<rparr> \<noteq> w"
  by (cases w) simp

lemma wiped_form_again:
  "wiped_form (w\<lparr>ws_state := WIPED, wiped_at := x\<rparr>) r = wiped_form w r"
  by (simp add: wiped_form_def)

lemma wipe_all_effect:
  assumes "wipe_all env m ks clk = (m', calls, Ret ())"
  shows "(k \<notin> set ks \<longrightarrow> dict_get (workspaces m') k = dict_get (workspaces m) k)
    \<and> (k \<in> set ks \<longrightarrow> (case dict_get (workspaces m) k of
         None \<Rightarrow> dict_get (workspaces m') k = None
       | Some w \<Rightarrow> wiped_form w (dict_get (workspaces m') k)))"
  using assms
proof (induction env m ks clk arbitrary: m' calls rule: wipe_all.induct)
  case (2 env m j ks clk)
  obtain m1 cs o1 where w: "wipe env m j (clk 0) = (m1, cs, o1)" by (metis prod_cases3)
  with "2.prems" obtain b where b: "o1 = Inr b" by (cases o1) auto
  obtain m2 ds o2 where w2: "wipe_all env m1 ks (\<lambda>i. clk (Suc i)) = (m2, ds, o2)" by (metis prod_cases3)
  with "2.prems" w b have m': "m' = m2" "o2 = Ret ()" by auto
  then have w3: "wipe_all env m1 ks (\<lambda>i. clk (Suc i)) = (m', ds, Ret ())" using w2 by simp
  note ih = "2.IH" [OF w [symmetric] refl b w3]
  show ?case
  proof (cases "dict_get (workspaces m) j")
    case None
    then have "m1 = m" using w wipe_miss by simp
    with ih None show ?thesis by auto
  next
    case (Some v)
    have m1: "workspaces m1 = dict_set j (v\<lparr>ws_state := WIPED, wiped_at := Some (clk 0)\<rparr>) (workspaces m)"
      using wipe_hit [OF Some] w b by simp
    show ?thesis
    proof (cases "k = j")
      case True
      with ih m1 Some show ?thesis
        by (cases "k \<in> set ks") (auto simp: wiped_form_again, auto simp: wiped_form_def)
    qed (use ih m1 in auto)
  qed
qed simp

lemma stale_ids_iff:
  assumes "wf_dict (workspaces m)"
  shows "k \<in> set (stale_ids m a now) \<longleftrightarrow>
    (\<exists>w. dict_get (workspaces m) k = Some w \<and> ws_state w \<noteq> WIPED \<and> of_int a < rat_of (now - created_at w))"
  using assms by (force simp: stale_ids_def intro: in_dict_getI dest: dict_getD)

section \<open>Properties\<close>

text \<open>
  C35: in every reachable manager each workspace is stored under its own id, lies directly below the
  mount base (its id starts with \<open>ws_\<close> and holds no slash), has a size between 1 MB and five times
  the configured one, and carries a wiping time exactly when it is wiped.
\<close>

theorem workspace_reachable:
  assumes "ws_reach c m" "get_workspace m k = Some w"
  shows "workspace_id w = k \<and> mount_path w = path_join (mount_base c) k \<and> CHR ''/'' \<notin> set k \<and> starts_with ''ws_'' k
    \<and> 1 \<le> size_mb w \<and> size_mb w \<le> size_default c * 5 \<and> (ws_state w = WIPED \<longleftrightarrow> wiped_at w \<noteq> None)"
  using ws_reach_ok [OF assms(1)] assms(2) by (auto simp: ws_ok_def get_workspace_def)

definition plain_sys :: sys where
  "plain_sys = \<lparr>euid_root = False, run_cmd = \<lambda>_. Not_found, makedirs_ok = \<lambda>_. True, is_mount = \<lambda>_. False\<rparr>"

definition one_workspace :: "WorkspaceManager \<times> sys_call list \<times> Workspace outcome" where
  "one_workspace = create (\<lambda>k. k) plain_sys (new_manager (Some default_workspace_config)) ''t1'' None None ''ab'' ''key'' 0"

lemma one_workspace_eq:
  "fst one_workspace = \<lparr>ws_config = default_workspace_config, workspaces = [(''ws_t1_ab'',
     \<lparr>workspace_id = ''ws_t1_ab'', mount_path = ''/run/vibeshield/workspaces/ws_t1_ab'', size_mb = 100, ws_state = CREATED,
      encryption_key_hash = ''key'', created_at = 0, wiped_at = None\<rparr>)]\<rparr>"
  by (simp add: one_workspace_def create_def Let_def plain_sys_def mount_state_def new_manager_def default_workspace_config_def
      dollar_match_def ident_char_def is_alnum_def path_join_def starts_with_def)

lemma one_workspace_reach: "ws_reach default_workspace_config (fst one_workspace)"
proof (rule creation [OF start])
  show "create (\<lambda>k. k) plain_sys (new_manager (Some default_workspace_config)) ''t1'' None None ''ab'' ''key'' 0
      = (fst one_workspace, fst (snd one_workspace), snd (snd one_workspace))"
    by (simp add: one_workspace_def)
qed simp

theorem workspace_reachable_witness:
  "mount_path (snd (hd (workspaces (fst one_workspace)))) = path_join (mount_base default_workspace_config) ''ws_t1_ab''"
  using workspace_reachable [OF one_workspace_reach, of "''ws_t1_ab''" "snd (hd (workspaces (fst one_workspace)))"]
  by (simp add: one_workspace_eq get_workspace_def)

text \<open>
  C34: wiping. An unknown id changes nothing. A known workspace ends up wiped, whatever the system
  answers, and \<open>wipe\<close> returns True, unless \<open>umount\<close> cannot even be run, in which case nothing is
  recorded. The contents are overwritten, once per configured pass, exactly if the workspace was
  mounted: the directory that an unprivileged manager falls back to is removed without a pass.
\<close>

theorem wipe_outcome:
  "case wipe env m wid now of (m', calls, r) \<Rightarrow>
     (case dict_get (workspaces m) wid of
        None \<Rightarrow> m' = m \<and> calls = [] \<and> r = Ret False
      | Some w \<Rightarrow>
          overwrites calls = (if ws_state w = MOUNTED then replicate (nat (wipe_passes (ws_config m))) (Overwrite (mount_path w)) else [])
          \<and> (case r of
               Inr b \<Rightarrow> b \<and> workspaces m' = dict_set wid (w\<lparr>ws_state := WIPED, wiped_at := Some now\<rparr>) (workspaces m)
             | Inl x \<Rightarrow> m' = m \<and> ws_state w = MOUNTED \<and> euid_root env
                 \<and> run_cmd env [''umount'', ''-l'', mount_path w] \<in> {Not_found, Run_failed}))"
proof (cases "dict_get (workspaces m) wid")
  case (Some w)
  have run: "overwrites (Run u # cs) = overwrites cs" for u cs by (simp add: overwrites_def)
  show ?thesis
    using Some
    by (cases "run_cmd env [''umount'', ''-l'', mount_path w]") (simp_all add: wipe_def shred_def Let_def run)
qed (simp add: wipe_def)

text \<open>
  A cleanup that returns wipes exactly the workspaces that are not wiped yet and older than
  the limit, leaves every other one as it was, and leaves nothing for the same cleanup to do.
\<close>

theorem cleanup_exact:
  assumes "ws_reach c m" "cleanup_stale env m a now clk = (m', calls, Ret ())"
  shows "stale_ids m' a now = []
    \<and> (case dict_get (workspaces m) k of
         None \<Rightarrow> dict_get (workspaces m') k = None
       | Some w \<Rightarrow> (if ws_state w \<noteq> WIPED \<and> of_int a < rat_of (now - created_at w)
                    then wiped_form w (dict_get (workspaces m') k) else dict_get (workspaces m') k = Some w))"
proof -
  have ok: "wf_dict (workspaces m)" "wf_dict (workspaces m')"
    using ws_reach_ok assms cleanup unfolding ws_ok_def by blast+
  have eff: "(k \<notin> set (stale_ids m a now) \<longrightarrow> dict_get (workspaces m') k = dict_get (workspaces m) k)
    \<and> (k \<in> set (stale_ids m a now) \<longrightarrow> (case dict_get (workspaces m) k of
         None \<Rightarrow> dict_get (workspaces m') k = None
       | Some w \<Rightarrow> wiped_form w (dict_get (workspaces m') k)))" for k
    by (rule wipe_all_effect) (use assms(2) in \<open>simp add: cleanup_stale_def\<close>)
  have "k \<notin> set (stale_ids m' a now)" for k
    using eff [of k] unfolding stale_ids_iff [OF ok(1)] stale_ids_iff [OF ok(2)]
    by (cases "dict_get (workspaces m) k") (auto simp: wiped_form_def wiped_differs)
  then have "stale_ids m' a now = []" by (metis last_in_set)
  then show ?thesis using eff [of k] unfolding stale_ids_iff [OF ok(1)]
    by (cases "dict_get (workspaces m) k") auto
qed

theorem cleanup_exact_witness:
  "stale_ids (fst (cleanup_stale plain_sys (fst one_workspace) 10 (F 100) (\<lambda>_. F 101))) 10 (F 100) = []"
proof -
  let ?r = "cleanup_stale plain_sys (fst one_workspace) 10 (F 100) (\<lambda>_. F 101)"
  have "rat_of (F 100) = 100" using fl_of_int [of 100] by (simp add: rat_of_F)
  then have "?r = (fst ?r, fst (snd ?r), Ret ())"
    by (simp add: one_workspace_eq cleanup_stale_def stale_ids_def wipe_def shred_def)
  from cleanup_exact [OF one_workspace_reach this] show ?thesis by blast
qed

text \<open>
  C36: a pass leaves no trace of the old contents. Where every file can be opened, the tree after
  the pass depends only on the names and sizes before it; where none can, the pass changes
  nothing.
\<close>

theorem overwrite_no_residue:
  assumes "shape (Dir ms) = shape (Dir ms')"
  shows "overwrite_directory (\<lambda>_. True) rnd p (Dir ms) = overwrite_directory (\<lambda>_. True) rnd p (Dir ms')
    \<and> overwrite_directory (\<lambda>_. False) rnd p (Dir ms) = Dir ms"
proof -
  have "overwrite (\<lambda>_. True) rnd False p (Dir ms) = overwrite (\<lambda>_. True) rnd False p (Dir ms')"
    using assms overwrite_shape(1) [of rnd False p "Dir ms"] overwrite_shape(1) [of rnd False p "Dir ms'"] by simp
  then show ?thesis using overwrite_closed(1) [of rnd p "Dir ms"] by (simp add: overwrite_directory_def)
qed

theorem overwrite_no_residue_witness:
  "overwrite_directory (\<lambda>_. True) (\<lambda>p n. replicate n CHR ''x'') ''/w'' (Dir [(''a'', File ''secret'')])
     = overwrite_directory (\<lambda>_. True) (\<lambda>p n. replicate n CHR ''x'') ''/w'' (Dir [(''a'', File ''public'')])"
  using overwrite_no_residue [of "[(''a'', File ''secret'')]" "[(''a'', File ''public'')]"] by simp

end
