(* ===== verification/Regex.thy ===== *)
theory Regex
  imports Prelude
begin

text \<open>
  Python's \<open>re\<close>, as far as the detectors use it: texts of code points, the syntax tree of a pattern,
  the compiler from the pattern text, and the matcher.

  The matcher \<open>ends\<close> lists what a pattern leaves of the text, in the order in which the backtracking
  search of \<open>re\<close> finds it, so its head is the match that \<open>finditer\<close> returns. The reference is the
  relation \<open>sem\<close>, where a repetition is any number of iterations in its bounds; \<open>ends\<close> computes
  exactly that relation (\<open>ends_sem\<close>). The tables of the Unicode database (case, letters, digits,
  composition) are the parameter \<open>ucd\<close>; \<open>ascii_ok\<close> says that it is right on ASCII.
\<close>

section \<open>Texts\<close>

type_synonym ustr = "int list"

definition of_string :: "string \<Rightarrow> ustr" where
  "of_string s = map of_char s"

record ucd =
  u_lower :: "int \<Rightarrow> int"
  u_word :: "int \<Rightarrow> bool"
  u_digit :: "int \<Rightarrow> bool"
  u_nfc :: "ustr \<Rightarrow> ustr"
  u_lower_text :: "ustr \<Rightarrow> ustr"

definition ascii_lower :: "int \<Rightarrow> int" where
  "ascii_lower c = (if 65 \<le> c \<and> c \<le> 90 then c + 32 else c)"

definition ascii_digit :: "int \<Rightarrow> bool" where
  "ascii_digit c = (48 \<le> c \<and> c \<le> 57)"

definition ascii_word :: "int \<Rightarrow> bool" where
  "ascii_word c = (ascii_digit c \<or> (65 \<le> c \<and> c \<le> 90) \<or> (97 \<le> c \<and> c \<le> 122) \<or> c = 95)"

definition ascii_ok :: "ucd \<Rightarrow> bool" where
  "ascii_ok u = (\<forall>c \<in> {0..<128}. u_lower u c = ascii_lower c \<and> u_word u c = ascii_word c \<and> u_digit u c = ascii_digit c)"

definition ascii_ucd :: ucd where
  "ascii_ucd = \<lparr>u_lower = ascii_lower, u_word = ascii_word, u_digit = ascii_digit, u_nfc = (\<lambda>t. t),
     u_lower_text = map ascii_lower\<rparr>"

text \<open>\<open>str.isspace\<close>, which is also the class of the escape s.\<close>

definition u_space :: "int \<Rightarrow> bool" where
  "u_space c = ((9 \<le> c \<and> c \<le> 13) \<or> (28 \<le> c \<and> c \<le> 32) \<or> c = 133 \<or> c = 160 \<or> c = 5760 \<or> (8192 \<le> c \<and> c \<le> 8202)
     \<or> c = 8232 \<or> c = 8233 \<or> c = 8239 \<or> c = 8287 \<or> c = 12288)"

section \<open>Patterns\<close>

datatype klass = Space | Digit | Word

datatype item = One int | Range int int | Klass klass

datatype re =
    Eps
  | CSet bool "item list"
  | Dot
  | Wordb
  | Seq re re
  | Alt re re
  | Rep nat "nat option" bool re

record mode =
  icase :: bool
  dotall :: bool

text \<open>
  Case-insensitive matching compares the lower-case form of the text's character with the
  lower-case form of the pattern's and with the other lower-case letters of the same capital
  (\<open>re._casefix\<close>), of which the table holds the letters that occur in the patterns.
\<close>

definition extra_cases :: "int \<Rightarrow> int list" where
  "extra_cases c =
     (if c = 0x69 then [0x131] else if c = 0x73 then [0x17F] else if c = 0x432 then [0x1C80]
      else if c = 0x434 then [0x1C81] else if c = 0x43E then [0x1C82] else if c = 0x441 then [0x1C83]
      else if c = 0x442 then [0x1C84, 0x1C85] else if c = 0x44A then [0x1C86] else [])"

definition same_case :: "ucd \<Rightarrow> int \<Rightarrow> int \<Rightarrow> bool" where
  "same_case u x c = (let t = u_lower u c; l = u_lower u x in t = l \<or> t \<in> set (extra_cases l))"

fun in_klass :: "ucd \<Rightarrow> klass \<Rightarrow> int \<Rightarrow> bool" where
  "in_klass u Space c = u_space c"
| "in_klass u Digit c = u_digit u c"
| "in_klass u Word c = u_word u c"

fun in_item :: "ucd \<Rightarrow> mode \<Rightarrow> int \<Rightarrow> item \<Rightarrow> bool" where
  "in_item u f c (One x) = (if icase f then same_case u x c else x = c)"
| "in_item u f c (Range a b) =
     (if icase f then list_ex (\<lambda>x. same_case u x c) [a..b] else a \<le> c \<and> c \<le> b)"
| "in_item u f c (Klass k) = in_klass u k (if icase f then u_lower u c else c)"

definition in_set :: "ucd \<Rightarrow> mode \<Rightarrow> bool \<Rightarrow> item list \<Rightarrow> int \<Rightarrow> bool" where
  "in_set u f neg its c = (list_ex (in_item u f c) its \<noteq> neg)"

section \<open>Matching\<close>

text \<open>A position: the character before it, if any, and the text after it.\<close>

type_synonym pos = "int option \<times> ustr"

definition word_at :: "ucd \<Rightarrow> int option \<Rightarrow> bool" where
  "word_at u c = (case c of None \<Rightarrow> False | Some x \<Rightarrow> u_word u x)"

definition boundary :: "ucd \<Rightarrow> pos \<Rightarrow> bool" where
  "boundary u s = (word_at u (fst s) \<noteq> (case snd s of [] \<Rightarrow> False | c # _ \<Rightarrow> u_word u c))"

definition step :: "(int \<Rightarrow> bool) \<Rightarrow> pos \<Rightarrow> pos list" where
  "step P s = (case snd s of [] \<Rightarrow> [] | c # r \<Rightarrow> if P c then [(Some c, r)] else [])"

fun iter :: "nat \<Rightarrow> (pos \<Rightarrow> pos list) \<Rightarrow> pos \<Rightarrow> pos list" where
  "iter 0 f s = [s]"
| "iter (Suc n) f s = concat (map (iter n f) (f s))"

text \<open>Up to \<open>n\<close> further iterations, each of which must consume; greedy or lazy.\<close>

fun optional :: "bool \<Rightarrow> nat \<Rightarrow> (pos \<Rightarrow> pos list) \<Rightarrow> pos \<Rightarrow> pos list" where
  "optional lazy 0 f s = [s]"
| "optional lazy (Suc n) f s =
     (let more = concat (map (optional lazy n f) (filter (\<lambda>s'. length (snd s') < length (snd s)) (f s)))
      in if lazy then s # more else more @ [s])"

fun ends :: "ucd \<Rightarrow> mode \<Rightarrow> re \<Rightarrow> pos \<Rightarrow> pos list" where
  "ends u f Eps s = [s]"
| "ends u f (CSet neg its) s = step (in_set u f neg its) s"
| "ends u f Dot s = step (\<lambda>c. dotall f \<or> c \<noteq> 10) s"
| "ends u f Wordb s = (if boundary u s then [s] else [])"
| "ends u f (Seq a b) s = concat (map (ends u f b) (ends u f a s))"
| "ends u f (Alt a b) s = ends u f a s @ ends u f b s"
| "ends u f (Rep m n lazy a) s =
     concat (map (\<lambda>s'. optional lazy (case n of None \<Rightarrow> length (snd s') | Some k \<Rightarrow> k - m) (ends u f a) s')
       (iter m (ends u f a) s))"

text \<open>\<open>p.search(t)\<close> as a truth value, from a position on.\<close>

fun found :: "ucd \<Rightarrow> mode \<Rightarrow> re \<Rightarrow> int option \<Rightarrow> ustr \<Rightarrow> bool" where
  "found u f r p [] = (ends u f r (p, []) \<noteq> [])"
| "found u f r p (c # t) = (ends u f r (p, c # t) \<noteq> [] \<or> found u f r (Some c) t)"

definition search :: "ucd \<Rightarrow> mode \<times> re \<Rightarrow> ustr \<Rightarrow> bool" where
  "search u p t = found u (fst p) (snd p) None t"

text \<open>\<open>p.fullmatch(t)\<close> as a truth value.\<close>

definition fullmatch :: "ucd \<Rightarrow> mode \<times> re \<Rightarrow> ustr \<Rightarrow> bool" where
  "fullmatch u p t = list_ex (\<lambda>s. snd s = []) (ends u (fst p) (snd p) (None, t))"

text \<open>
  The texts \<open>p.finditer(t)\<close> matches, for a pattern that matches no empty text; the fuel is the
  length of the text.
\<close>

fun find_from :: "nat \<Rightarrow> ucd \<Rightarrow> mode \<Rightarrow> re \<Rightarrow> pos \<Rightarrow> ustr list" where
  "find_from 0 u f r s = []"
| "find_from (Suc n) u f r s =
     (case snd s of
        [] \<Rightarrow> []
      | c # t \<Rightarrow>
          (case ends u f r s of
             e # _ \<Rightarrow> if length (snd e) < length (snd s)
                      then take (length (snd s) - length (snd e)) (snd s) # find_from n u f r e
                      else find_from n u f r (Some c, t)
           | [] \<Rightarrow> find_from n u f r (Some c, t)))"

definition find_all :: "ucd \<Rightarrow> mode \<times> re \<Rightarrow> ustr \<Rightarrow> ustr list" where
  "find_all u p t = find_from (length t) u (fst p) (snd p) (None, t)"

section \<open>The pattern compiler\<close>

text \<open>
  Patterns are texts too. A table writes a pattern as the sources do, with the character 126 in
  place of the backslash (Isabelle strings hold none; no pattern holds a 126), and a character
  outside ASCII by its \<open>u\<close> escape.
\<close>

definition pat :: "string \<Rightarrow> ustr" where
  "pat s = map (\<lambda>c. if c = CHR 0x7E then 92 else of_char c) s"

definition hexv :: "int \<Rightarrow> int option" where
  "hexv c = (if 48 \<le> c \<and> c \<le> 57 then Some (c - 48) else if 97 \<le> c \<and> c \<le> 102 then Some (c - 87)
     else if 65 \<le> c \<and> c \<le> 70 then Some (c - 55) else None)"

fun read_hex :: "nat \<Rightarrow> int \<Rightarrow> ustr \<Rightarrow> (int \<times> ustr) option" where
  "read_hex 0 a t = Some (a, t)"
| "read_hex (Suc n) a [] = None"
| "read_hex (Suc n) a (c # t) = (case hexv c of None \<Rightarrow> None | Some d \<Rightarrow> read_hex n (16 * a + d) t)"

text \<open>After a backslash: a class, a code, or the character itself if it is no letter or digit.\<close>

definition escape :: "ustr \<Rightarrow> (item \<times> ustr) option" where
  "escape t =
     (case t of
        [] \<Rightarrow> None
      | c # t' \<Rightarrow>
          if c = 115 then Some (Klass Space, t')
          else if c = 100 then Some (Klass Digit, t')
          else if c = 119 then Some (Klass Word, t')
          else if c = 120 then (case read_hex 2 0 t' of None \<Rightarrow> None | Some (n, r) \<Rightarrow> Some (One n, r))
          else if c = 117 then (case read_hex 4 0 t' of None \<Rightarrow> None | Some (n, r) \<Rightarrow> Some (One n, r))
          else if ascii_word c \<and> c \<noteq> 95 then None
          else Some (One c, t'))"

definition class_char :: "ustr \<Rightarrow> (item \<times> ustr) option" where
  "class_char t = (case t of [] \<Rightarrow> None | c # t' \<Rightarrow> if c = 92 then escape t' else Some (One c, t'))"

text \<open>One element of a bracket: a class, a character, or a range up to the character after the hyphen (45).\<close>

definition class_item :: "ustr \<Rightarrow> (item \<times> ustr) option" where
  "class_item t =
     (case class_char t of
        None \<Rightarrow> None
      | Some (One x, r) \<Rightarrow>
          (case r of
             d # e # r' \<Rightarrow>
               if d = 45 \<and> e \<noteq> 93
               then (case class_char (e # r') of
                       Some (One y, q) \<Rightarrow> if y < x then None else Some (Range x y, q)
                     | _ \<Rightarrow> None)
               else Some (One x, r)
           | _ \<Rightarrow> Some (One x, r))
      | Some (a, r) \<Rightarrow> Some (a, r))"

text \<open>The inside of a bracket up to its end (93); the first character may be a bracket itself.\<close>

fun class_items :: "nat \<Rightarrow> bool \<Rightarrow> ustr \<Rightarrow> (item list \<times> ustr) option" where
  "class_items 0 first t = None"
| "class_items (Suc n) first t =
     (case t of
        [] \<Rightarrow> None
      | c # t' \<Rightarrow>
          if c = 93 \<and> \<not> first then Some ([], t')
          else (case class_item t of
                  None \<Rightarrow> None
                | Some (a, r) \<Rightarrow> (case class_items n False r of None \<Rightarrow> None | Some (its, q) \<Rightarrow> Some (a # its, q))))"

fun read_dec :: "nat option \<Rightarrow> ustr \<Rightarrow> nat option \<times> ustr" where
  "read_dec a [] = (a, [])"
| "read_dec a (c # t) =
     (if ascii_digit c then read_dec (Some (10 * (case a of None \<Rightarrow> 0 | Some n \<Rightarrow> n) + nat (c - 48))) t else (a, c # t))"

text \<open>A quantifier: its bounds and laziness. A brace that begins none is a character.\<close>

definition bounds :: "ustr \<Rightarrow> ((nat \<times> nat option) \<times> ustr) option" where
  "bounds t =
     (case t of
        [] \<Rightarrow> None
      | c # t' \<Rightarrow>
          if c = 42 then Some ((0, None), t')
          else if c = 43 then Some ((1, None), t')
          else if c = 63 then Some ((0, Some 1), t')
          else if c = 123 then
            (case read_dec None t' of
               (lo, d # r) \<Rightarrow>
                 if d = 125 then (case lo of None \<Rightarrow> None | Some n \<Rightarrow> Some ((n, Some n), r))
                 else if d = 44 then
                   (case read_dec None r of
                      (hi, e # q) \<Rightarrow> if e = 125 then Some ((case lo of None \<Rightarrow> 0 | Some n \<Rightarrow> n, hi), q) else None
                    | _ \<Rightarrow> None)
                 else None
             | _ \<Rightarrow> None)
          else None)"

definition quantify :: "re \<Rightarrow> ustr \<Rightarrow> re \<times> ustr" where
  "quantify r t =
     (case bounds t of
        None \<Rightarrow> (r, t)
      | Some ((lo, hi), q) \<Rightarrow>
          (case q of
             c # q' \<Rightarrow> if c = 63 then (Rep lo hi True r, q') else (Rep lo hi False r, q)
           | [] \<Rightarrow> (Rep lo hi False r, q)))"

definition seq :: "re \<Rightarrow> re \<Rightarrow> re" where
  "seq a b = (if b = Eps then a else Seq a b)"

text \<open>
  Branches (\<open>p_alt\<close>), up to a closing parenthesis (41) or the end; a sequence (\<open>p_seq\<close>); one
  element without its quantifier (\<open>p_atom\<close>). Each call has one less fuel.
\<close>

fun p_alt :: "nat \<Rightarrow> ustr \<Rightarrow> (re \<times> ustr) option"
  and p_seq :: "nat \<Rightarrow> ustr \<Rightarrow> (re \<times> ustr) option"
  and p_atom :: "nat \<Rightarrow> ustr \<Rightarrow> (re \<times> ustr) option" where
  "p_alt 0 t = None"
| "p_alt (Suc n) t =
     (case p_seq n t of
        None \<Rightarrow> None
      | Some (a, r) \<Rightarrow>
          (case r of
             c # r' \<Rightarrow>
               if c = 124 then (case p_alt n r' of None \<Rightarrow> None | Some (b, q) \<Rightarrow> Some (Alt a b, q)) else Some (a, r)
           | [] \<Rightarrow> Some (a, r)))"
| "p_seq 0 t = None"
| "p_seq (Suc n) t =
     (case t of
        [] \<Rightarrow> Some (Eps, [])
      | c # t' \<Rightarrow>
          if c = 124 \<or> c = 41 then Some (Eps, t)
          else (case p_atom n t of
                  None \<Rightarrow> None
                | Some (a, r) \<Rightarrow>
                    (case quantify a r of
                       (a', r') \<Rightarrow> (case p_seq n r' of None \<Rightarrow> None | Some (b, q) \<Rightarrow> Some (seq a' b, q)))))"
| "p_atom 0 t = None"
| "p_atom (Suc n) t =
     (case t of
        [] \<Rightarrow> None
      | c # t' \<Rightarrow>
          if c = 40 then
            (let body = (case t' of a # b # r \<Rightarrow> if a = 63 \<and> b = 58 then r else t' | _ \<Rightarrow> t')
             in case p_alt n body of
                  Some (a, d # q) \<Rightarrow> if d = 41 then Some (a, q) else None
                | _ \<Rightarrow> None)
          else if c = 91 then
            (let (neg, r) = (case t' of d # r \<Rightarrow> if d = 94 then (True, r) else (False, t') | [] \<Rightarrow> (False, t'))
             in case class_items n True r of None \<Rightarrow> None | Some (its, q) \<Rightarrow> Some (CSet neg its, q))
          else if c = 46 then Some (Dot, t')
          else if c = 92 then
            (case t' of
               d # q \<Rightarrow> if d = 98 then Some (Wordb, q)
                        else (case escape t' of None \<Rightarrow> None | Some (i, q) \<Rightarrow> Some (CSet False [i], q))
             | [] \<Rightarrow> None)
          else if c = 42 \<or> c = 43 \<or> c = 63 \<or> c = 36 \<or> c = 94 then None
          else Some (CSet False [One c], t'))"

text \<open>
  Leading \<open>(?i)\<close> flags, then the pattern; \<open>None\<close> for a pattern outside the subset or with a
  repetition whose bounds are in the wrong order, an error in \<open>re\<close> too.
\<close>

fun wf_re :: "re \<Rightarrow> bool" where
  "wf_re (Seq a b) = (wf_re a \<and> wf_re b)"
| "wf_re (Alt a b) = (wf_re a \<and> wf_re b)"
| "wf_re (Rep m n lazy a) = ((case n of None \<Rightarrow> True | Some k \<Rightarrow> m \<le> k) \<and> wf_re a)"
| "wf_re _ = True"

fun strip_flags :: "bool \<Rightarrow> ustr \<Rightarrow> bool \<times> ustr" where
  "strip_flags i (a # b # c # d # t) =
     (if a = 40 \<and> b = 63 \<and> c = 105 \<and> d = 41 then strip_flags True t else (i, a # b # c # d # t))"
| "strip_flags i t = (i, t)"

definition compile :: "bool \<Rightarrow> ustr \<Rightarrow> (mode \<times> re) option" where
  "compile dall p =
     (case strip_flags False p of
        (i, t) \<Rightarrow>
          (case p_alt (2 * length t + 2) t of
             Some (r, []) \<Rightarrow> if wf_re r then Some (\<lparr>icase = i, dotall = dall\<rparr>, r) else None
           | _ \<Rightarrow> None))"

section \<open>The reference semantics\<close>

definition in_bounds :: "nat \<Rightarrow> nat option \<Rightarrow> nat \<Rightarrow> bool" where
  "in_bounds m n k = (m \<le> k \<and> (case n of None \<Rightarrow> True | Some j \<Rightarrow> k \<le> j))"

fun sem :: "ucd \<Rightarrow> mode \<Rightarrow> re \<Rightarrow> (pos \<times> pos) set" where
  "sem u f Eps = Id"
| "sem u f (CSet neg its) = {((p, c # r), (Some c, r)) | p c r. in_set u f neg its c}"
| "sem u f Dot = {((p, c # r), (Some c, r)) | p c r. dotall f \<or> c \<noteq> 10}"
| "sem u f Wordb = {(s, s) | s. boundary u s}"
| "sem u f (Seq a b) = sem u f a O sem u f b"
| "sem u f (Alt a b) = sem u f a \<union> sem u f b"
| "sem u f (Rep m n lazy a) = (\<Union>k \<in> {k. in_bounds m n k}. sem u f a ^^ k)"

definition shrink :: "(pos \<times> pos) set" where
  "shrink = {(s, s'). length (snd s') < length (snd s)}"

lemma relpow_Id_shrink:
  assumes "R \<subseteq> Id \<union> shrink"
  shows "R ^^ k \<subseteq> Id \<union> shrink"
proof (induction k)
  case (Suc k)
  then have "R ^^ Suc k \<subseteq> (Id \<union> shrink) O (Id \<union> shrink)" using assms by auto
  also have "\<dots> \<subseteq> Id \<union> shrink" by (auto simp: shrink_def)
  finally show ?case .
qed simp

lemma sem_shrink: "sem u f r \<subseteq> Id \<union> shrink"
proof (induction r)
  case (Seq a b)
  then have "sem u f a O sem u f b \<subseteq> (Id \<union> shrink) O (Id \<union> shrink)" by blast
  also have "\<dots> \<subseteq> Id \<union> shrink" by (auto simp: shrink_def)
  finally show ?case by simp
next
  case (Rep m n lazy a)
  then show ?case using relpow_Id_shrink by auto
qed (auto simp: shrink_def)

lemma in_iter: "(\<And>s s'. s' \<in> set (g s) \<longleftrightarrow> (s, s') \<in> R) \<Longrightarrow> s' \<in> set (iter n g s) \<longleftrightarrow> (s, s') \<in> R ^^ n"
proof (induction n arbitrary: s)
  case (Suc n)
  have "(s, s') \<in> R ^^ Suc n \<longleftrightarrow> (\<exists>t. (s, t) \<in> R \<and> (t, s') \<in> R ^^ n)"
    by (meson relpow_Suc_D2 relpow_Suc_I2)
  moreover have "s' \<in> set (iter (Suc n) g s) \<longleftrightarrow> (\<exists>t. t \<in> set (g s) \<and> s' \<in> set (iter n g t))" by auto
  ultimately show ?case using Suc.IH Suc.prems by (simp only:)
qed auto

lemma in_optional:
  assumes "\<And>s s'. s' \<in> set (g s) \<longleftrightarrow> (s, s') \<in> R"
  shows "s' \<in> set (optional lazy n g s) \<longleftrightarrow> (\<exists>k \<le> n. (s, s') \<in> (R \<inter> shrink) ^^ k)"
proof (induction n arbitrary: s)
  case (Suc n)
  have step: "(\<exists>k \<le> Suc n. (s, s') \<in> (R \<inter> shrink) ^^ k) \<longleftrightarrow>
      s' = s \<or> (\<exists>t. (s, t) \<in> R \<inter> shrink \<and> (\<exists>k \<le> n. (t, s') \<in> (R \<inter> shrink) ^^ k))" (is "?l = ?r")
  proof
    assume ?l
    then obtain k where k: "k \<le> Suc n" "(s, s') \<in> (R \<inter> shrink) ^^ k" by blast
    show ?r
    proof (cases k)
      case (Suc j)
      with k show ?thesis by (meson Suc_le_mono relpow_Suc_D2)
    qed (use k in simp)
  next
    assume ?r
    then show ?l
    proof
      assume "s' = s"
      then show ?l by (intro exI [of _ 0]) simp
    next
      assume "\<exists>t. (s, t) \<in> R \<inter> shrink \<and> (\<exists>k \<le> n. (t, s') \<in> (R \<inter> shrink) ^^ k)"
      then show ?l by (meson Suc_le_mono relpow_Suc_I2)
    qed
  qed
  have more: "s' \<in> set (optional lazy (Suc n) g s) \<longleftrightarrow>
      s' = s \<or> (\<exists>t \<in> set (g s). length (snd t) < length (snd s) \<and> s' \<in> set (optional lazy n g t))"
    by (auto simp: Let_def)
  have "t \<in> set (g s) \<and> length (snd t) < length (snd s) \<longleftrightarrow> (s, t) \<in> R \<inter> shrink" for t
    using assms [of t s] by (simp add: shrink_def)
  then show ?case unfolding more step Suc.IH by blast
qed auto

text \<open>Iterations that consume nothing can be dropped; consuming ones are at most as many as characters.\<close>

lemma relpow_consuming:
  assumes "R \<subseteq> Id \<union> shrink" "(s, s') \<in> R ^^ k"
  shows "\<exists>j \<le> k. (s, s') \<in> (R \<inter> shrink) ^^ j"
  using assms(2)
proof (induction k arbitrary: s)
  case (Suc k)
  then obtain t where t: "(s, t) \<in> R" "(t, s') \<in> R ^^ k" by (meson relpow_Suc_D2)
  with Suc.IH obtain j where j: "j \<le> k" "(t, s') \<in> (R \<inter> shrink) ^^ j" by blast
  show ?case
  proof (cases "t = s")
    case True
    with j show ?thesis by (intro exI [of _ j]) simp
  next
    case False
    with t(1) assms(1) have "(s, t) \<in> R \<inter> shrink" by blast
    with j show ?thesis by (meson Suc_le_mono relpow_Suc_I2)
  qed
qed auto

lemma relpow_shrink_le: "(s, s') \<in> (R \<inter> shrink) ^^ j \<Longrightarrow> j + length (snd s') \<le> length (snd s)"
proof (induction j arbitrary: s)
  case (Suc j)
  then obtain t where "(s, t) \<in> R \<inter> shrink" "(t, s') \<in> (R \<inter> shrink) ^^ j" by (meson relpow_Suc_D2)
  with Suc.IH [of t] show ?case by (auto simp: shrink_def)
qed auto

lemma rep_split:
  assumes R: "R \<subseteq> Id \<union> shrink" and mn: "case n of None \<Rightarrow> True | Some k \<Rightarrow> m \<le> k"
  shows "(\<exists>k. in_bounds m n k \<and> (s, s') \<in> R ^^ k) \<longleftrightarrow>
    (\<exists>t. (s, t) \<in> R ^^ m \<and> (\<exists>j \<le> (case n of None \<Rightarrow> length (snd t) | Some k \<Rightarrow> k - m). (t, s') \<in> (R \<inter> shrink) ^^ j))"
    (is "?l = ?r")
proof
  assume ?l
  then obtain k where k: "in_bounds m n k" "(s, s') \<in> R ^^ k" by blast
  then have "(s, s') \<in> R ^^ (m + (k - m))" by (simp add: in_bounds_def)
  then obtain t where t: "(s, t) \<in> R ^^ m" "(t, s') \<in> R ^^ (k - m)" unfolding relpow_add by blast
  from relpow_consuming [OF R t(2)] obtain j where j: "j \<le> k - m" "(t, s') \<in> (R \<inter> shrink) ^^ j" by blast
  have "j \<le> (case n of None \<Rightarrow> length (snd t) | Some k \<Rightarrow> k - m)"
    using relpow_shrink_le [OF j(2)] j(1) k(1) by (auto simp: in_bounds_def split: option.splits)
  with j(2) t(1) show ?r by blast
next
  assume ?r
  then obtain t j where t: "(s, t) \<in> R ^^ m" "(t, s') \<in> (R \<inter> shrink) ^^ j"
    "j \<le> (case n of None \<Rightarrow> length (snd t) | Some k \<Rightarrow> k - m)" by blast
  have "(R \<inter> shrink) ^^ j \<subseteq> R ^^ j" by (induction j) auto
  with t have "(s, s') \<in> R ^^ (m + j)" unfolding relpow_add by blast
  moreover have "in_bounds m n (m + j)" using t(3) mn by (auto simp: in_bounds_def split: option.splits)
  ultimately show ?l by blast
qed

theorem ends_sem: "wf_re r \<Longrightarrow> s' \<in> set (ends u f r s) \<longleftrightarrow> (s, s') \<in> sem u f r"
proof (induction r arbitrary: s s')
  case (Rep m n lazy a)
  then have g: "t' \<in> set (ends u f a t) \<longleftrightarrow> (t, t') \<in> sem u f a" for t t' by simp
  have "s' \<in> set (ends u f (Rep m n lazy a) s) \<longleftrightarrow>
      (\<exists>t. (s, t) \<in> sem u f a ^^ m \<and> (\<exists>j \<le> (case n of None \<Rightarrow> length (snd t) | Some k \<Rightarrow> k - m).
         (t, s') \<in> (sem u f a \<inter> shrink) ^^ j))"
    by (simp only: ends.simps set_concat set_map in_iter [of "ends u f a", OF g] in_optional [of "ends u f a", OF g]
        UN_iff image_iff bex_simps) (simp only: Bex_def in_iter [of "ends u f a", OF g])
  also have "\<dots> \<longleftrightarrow> (\<exists>k. in_bounds m n k \<and> (s, s') \<in> sem u f a ^^ k)"
    using Rep.prems by (intro rep_split [symmetric] sem_shrink) simp
  finally show ?case by simp
next
  case (CSet neg its)
  then show ?case by (cases s; cases "snd s") (auto simp: step_def)
next
  case Dot
  then show ?case by (cases s; cases "snd s") (auto simp: step_def)
next
  case (Seq a b)
  then show ?case by (simp add: relcomp_unfold Bex_def)
qed auto

section \<open>Searching\<close>

text \<open>The character before a position after \<open>a\<close> has been read.\<close>

definition adv :: "int option \<Rightarrow> ustr \<Rightarrow> int option" where
  "adv q a = (if a = [] then q else Some (last a))"

lemma adv_simps [simp]: "adv q [] = q" "adv q (c # a) = adv (Some c) a" "adv q (a @ b) = adv (adv q a) b"
  by (simp_all add: adv_def)

lemma nonempty_iff: "xs \<noteq> [] \<longleftrightarrow> (\<exists>x. x \<in> set xs)"
  by (cases xs) auto

lemma found_iff: "wf_re r \<Longrightarrow> found u f r p t \<longleftrightarrow> (\<exists>pre suf s'. t = pre @ suf \<and> ((adv p pre, suf), s') \<in> sem u f r)"
proof (induction t arbitrary: p)
  case Nil
  then show ?case by (simp add: nonempty_iff ends_sem)
next
  case (Cons c t)
  have hd: "ends u f r (p, c # t) \<noteq> [] \<longleftrightarrow> (\<exists>s'. ((p, c # t), s') \<in> sem u f r)"
    by (simp add: nonempty_iff ends_sem [OF Cons.prems])
  have "(\<exists>pre suf s'. c # t = pre @ suf \<and> ((adv p pre, suf), s') \<in> sem u f r) \<longleftrightarrow>
      (\<exists>s'. ((p, c # t), s') \<in> sem u f r) \<or> (\<exists>pre suf s'. t = pre @ suf \<and> ((adv (Some c) pre, suf), s') \<in> sem u f r)"
    (is "?l \<longleftrightarrow> ?r")
  proof
    assume ?l
    then obtain pre suf s' where l: "c # t = pre @ suf" "((adv p pre, suf), s') \<in> sem u f r" by blast
    show ?r
    proof (cases pre)
      case Nil
      with l show ?thesis by (metis adv_simps(1) append_Nil)
    next
      case (Cons d ds)
      with l have "t = ds @ suf" "((adv (Some c) ds, suf), s') \<in> sem u f r" by simp_all
      then show ?thesis by blast
    qed
  next
    assume ?r
    then show ?l
    proof
      assume "\<exists>s'. ((p, c # t), s') \<in> sem u f r"
      then show ?l by (intro exI [of _ "[]"] exI [of _ "c # t"]) simp
    next
      assume "\<exists>pre suf s'. t = pre @ suf \<and> ((adv (Some c) pre, suf), s') \<in> sem u f r"
      then obtain pre suf s' where "t = pre @ suf" "((adv (Some c) pre, suf), s') \<in> sem u f r" by blast
      then show ?l by (intro exI [of _ "c # pre"] exI [of _ suf] exI [of _ s']) simp
    qed
  qed
  with Cons hd show ?case by simp
qed

text \<open>A pattern without word boundaries matches in any context what it matches alone.\<close>

fun plain_re :: "re \<Rightarrow> bool" where
  "plain_re Wordb = False"
| "plain_re (Seq a b) = (plain_re a \<and> plain_re b)"
| "plain_re (Alt a b) = (plain_re a \<and> plain_re b)"
| "plain_re (Rep m n lazy a) = plain_re a"
| "plain_re _ = True"

definition framed :: "(pos \<times> pos) set \<Rightarrow> bool" where
  "framed R = (\<forall>p x q y. ((p, x), (q, y)) \<in> R \<longrightarrow>
     (\<exists>a. x = a @ y \<and> q = adv p a \<and> (\<forall>p' z. ((p', a @ z), (adv p' a, z)) \<in> R)))"

lemma framed_Id: "framed Id"
  by (auto simp: framed_def intro!: exI [of _ "[]"])

lemma framed_comp:
  assumes "framed R" "framed S"
  shows "framed (R O S)"
  unfolding framed_def
proof (intro allI impI)
  fix p x q y
  assume "((p, x), (q, y)) \<in> R O S"
  then obtain m where m: "((p, x), m) \<in> R" "(m, (q, y)) \<in> S" by blast
  obtain p1 x1 where m1: "m = (p1, x1)" by (cases m)
  from m(1) assms(1) obtain a where a: "x = a @ x1" "p1 = adv p a" "\<forall>p' z. ((p', a @ z), (adv p' a, z)) \<in> R"
    unfolding framed_def m1 by blast
  from m(2) assms(2) obtain b where b: "x1 = b @ y" "q = adv p1 b" "\<forall>p' z. ((p', b @ z), (adv p' b, z)) \<in> S"
    unfolding framed_def m1 by blast
  have "((p', (a @ b) @ z), (adv p' (a @ b), z)) \<in> R O S" for p' z
    using a(3) b(3) by (auto intro: relcompI [of _ "(adv p' a, b @ z)"])
  with a b show "\<exists>a. x = a @ y \<and> q = adv p a \<and> (\<forall>p' z. ((p', a @ z), (adv p' a, z)) \<in> R O S)"
    by (intro exI [of _ "a @ b"]) simp
qed

lemma framed_relpow: "framed R \<Longrightarrow> framed (R ^^ k)"
  by (induction k) (simp_all add: framed_Id framed_comp)

lemma framed_UN: "(\<And>k. k \<in> K \<Longrightarrow> framed (R k)) \<Longrightarrow> framed (\<Union>k \<in> K. R k)"
  unfolding framed_def by (meson UN_E UN_I)

lemma framed_Un: "framed R \<Longrightarrow> framed S \<Longrightarrow> framed (R \<union> S)"
  unfolding framed_def by (meson UnE UnI1 UnI2)

lemma framed_step: "framed {((p, c # r), (Some c, r)) | p c r. P c}"
  unfolding framed_def
proof (intro allI impI)
  fix p :: "int option" and x q y
  assume "((p, x), (q, y)) \<in> {((p, c # r), (Some c, r)) | p c r. P c}"
  then obtain c where "x = c # y" "q = Some c" "P c" by blast
  then show "\<exists>a. x = a @ y \<and> q = adv p a \<and> (\<forall>p' z. ((p', a @ z), (adv p' a, z)) \<in> {((p, c # r), (Some c, r)) | p c r. P c})"
    by (intro exI [of _ "[c]"]) simp
qed

lemma framed_sem: "plain_re r \<Longrightarrow> framed (sem u f r)"
proof (induction r)
  case (CSet neg its)
  show ?case using framed_step [of "in_set u f neg its"] by simp
next
  case Dot
  show ?case using framed_step [of "\<lambda>c. dotall f \<or> c \<noteq> 10"] by simp
next
  case (Rep m n lazy a)
  then show ?case by (simp add: framed_UN framed_relpow)
qed (simp_all add: framed_Id framed_comp framed_Un)

theorem search_context:
  assumes "wf_re r" "plain_re r" "search u (f, r) x"
  shows "search u (f, r) (pre @ x @ post)"
proof -
  from assms obtain a b s' where ab: "x = a @ b" "((adv None a, b), s') \<in> sem u f r"
    unfolding search_def fst_conv snd_conv found_iff [OF assms(1)] by blast
  obtain q y where s': "s' = (q, y)" by (cases s')
  from ab(2) framed_sem [OF assms(2), of u f] obtain c where c: "b = c @ y" "\<forall>p' z. ((p', c @ z), (adv p' c, z)) \<in> sem u f r"
    unfolding framed_def s' by blast
  have "((adv None (pre @ a), c @ (y @ post)), (adv (adv None (pre @ a)) c, y @ post)) \<in> sem u f r" using c(2) by blast
  moreover have "pre @ x @ post = (pre @ a) @ (c @ (y @ post))" by (simp add: ab(1) c(1))
  ultimately show ?thesis unfolding search_def fst_conv snd_conv found_iff [OF assms(1)] by blast
qed

subsection \<open>Databases that agree\<close>

text \<open>
  A search depends on the database only at the characters of the text and, if it ignores case, of the
  pattern. \<open>agree K\<close> is agreement on the characters \<open>K\<close>, which lower case does not leave.
\<close>

definition agree :: "(int \<Rightarrow> bool) \<Rightarrow> ucd \<Rightarrow> ucd \<Rightarrow> bool" where
  "agree K u v \<longleftrightarrow> (\<forall>c. K c \<longrightarrow> u_lower u c = u_lower v c \<and> K (u_lower v c) \<and> u_word u c = u_word v c \<and> u_digit u c = u_digit v c)"

fun item_in :: "bool \<Rightarrow> (int \<Rightarrow> bool) \<Rightarrow> item \<Rightarrow> bool" where
  "item_in ic K (One x) = (if ic then K x else True)"
| "item_in ic K (Range a b) = (if ic then list_all K [a..b] else True)"
| "item_in ic K (Klass k) = True"

fun re_in :: "bool \<Rightarrow> (int \<Rightarrow> bool) \<Rightarrow> re \<Rightarrow> bool" where
  "re_in ic K (CSet neg its) = list_all (item_in ic K) its"
| "re_in ic K (Seq a b) = (re_in ic K a \<and> re_in ic K b)"
| "re_in ic K (Alt a b) = (re_in ic K a \<and> re_in ic K b)"
| "re_in ic K (Rep m n lazy a) = re_in ic K a"
| "re_in ic K _ = True"

definition pos_in :: "(int \<Rightarrow> bool) \<Rightarrow> pos \<Rightarrow> bool" where
  "pos_in K s = ((case fst s of None \<Rightarrow> True | Some c \<Rightarrow> K c) \<and> list_all K (snd s))"

lemma agreeD:
  "agree K u v \<Longrightarrow> K c \<Longrightarrow> u_lower u c = u_lower v c \<and> K (u_lower v c) \<and> u_word u c = u_word v c \<and> u_digit u c = u_digit v c"
  by (simp add: agree_def)

lemma agree_sym: "agree K u v \<Longrightarrow> agree K v u"
  by (simp add: agree_def)

lemma re_in_case: "re_in True K r \<Longrightarrow> re_in ic K r"
proof (induction r)
  case (CSet neg its)
  moreover have "item_in True K i \<Longrightarrow> item_in ic K i" for i by (cases i) simp_all
  ultimately show ?case by (auto simp: list_all_iff)
qed simp_all

lemma in_item_agree:
  assumes "agree K u v" "K c" "item_in (icase f) K i"
  shows "in_item u f c i = in_item v f c i"
proof -
  have case_eq: "same_case u x c = same_case v x c" if "K x" for x
    using agreeD [OF assms(1,2)] agreeD [OF assms(1) that] by (simp add: same_case_def)
  show ?thesis
  proof (cases i)
    case (Klass k)
    then show ?thesis using agreeD [OF assms(1,2)] agreeD [OF assms(1), of "u_lower v c"] by (cases k) simp_all
  next
    case (Range a b)
    then have "icase f \<Longrightarrow> x \<in> set [a..b] \<Longrightarrow> same_case u x c = same_case v x c" for x
      using assms(3) case_eq by (simp add: list_all_iff)
    then have "icase f \<Longrightarrow> list_ex (\<lambda>x. same_case u x c) [a..b] = list_ex (\<lambda>x. same_case v x c) [a..b]"
      unfolding list_ex_iff by (rule bex_cong [OF refl])
    then show ?thesis by (simp add: Range)
  qed (use assms(3) case_eq in simp)
qed

lemma in_set_agree:
  assumes "agree K u v" "K c" "list_all (item_in (icase f) K) its"
  shows "in_set u f neg its c = in_set v f neg its c"
proof -
  have "list_ex (in_item u f c) its = list_ex (in_item v f c) its"
    using assms(3) in_item_agree [OF assms(1,2)] by (induction its) simp_all
  then show ?thesis by (simp add: in_set_def)
qed

lemma boundary_agree:
  assumes "agree K u v" "pos_in K s"
  shows "boundary u s = boundary v s"
proof -
  have "word_at u (fst s) = word_at v (fst s)"
    using assms agreeD by (cases "fst s") (simp_all add: word_at_def pos_in_def)
  moreover have "(case snd s of [] \<Rightarrow> False | c # _ \<Rightarrow> u_word u c) = (case snd s of [] \<Rightarrow> False | c # _ \<Rightarrow> u_word v c)"
    using assms agreeD by (cases "snd s") (simp_all add: pos_in_def)
  ultimately show ?thesis by (simp only: boundary_def)
qed

lemma sem_agree:
  assumes "agree K u v"
  shows "re_in (icase f) K r \<Longrightarrow> pos_in K s \<Longrightarrow> (s, s') \<in> sem u f r \<Longrightarrow> (s, s') \<in> sem v f r \<and> pos_in K s'"
proof (induction r arbitrary: s s')
  case (CSet neg its)
  then show ?case using in_set_agree [OF assms] by (auto simp: pos_in_def)
next
  case Wordb
  then show ?case using boundary_agree [OF assms] by auto
next
  case (Seq a b)
  from Seq.prems(3) obtain m where m: "(s, m) \<in> sem u f a" "(m, s') \<in> sem u f b" by auto
  from Seq.IH(1) [OF _ _ m(1)] Seq.prems(1,2) have a: "(s, m) \<in> sem v f a" "pos_in K m" by simp_all
  from Seq.IH(2) [OF _ _ m(2)] Seq.prems(1) a(2) have b: "(m, s') \<in> sem v f b" "pos_in K s'" by simp_all
  from a b show ?case by auto
next
  case (Rep m n lazy a)
  from Rep.prems(3) obtain k where k: "in_bounds m n k" "(s, s') \<in> sem u f a ^^ k" by auto
  have "(s, s') \<in> sem v f a ^^ k \<and> pos_in K s'" using k(2) Rep.prems(2)
  proof (induction k arbitrary: s)
    case (Suc k)
    then obtain t where t: "(s, t) \<in> sem u f a" "(t, s') \<in> sem u f a ^^ k" by (meson relpow_Suc_D2)
    have "(s, t) \<in> sem v f a \<and> pos_in K t" using Rep.IH [of s t] Rep.prems(1) Suc.prems t by simp
    with Suc.IH [OF t(2)] show ?case by (meson relpow_Suc_I2)
  qed simp
  with k(1) show ?case by auto
next
  case (Alt a b)
  from Alt.prems(3) consider "(s, s') \<in> sem u f a" | "(s, s') \<in> sem u f b" by auto
  then show ?case
  proof cases
    case 1
    with Alt.IH(1) [OF _ _ 1] Alt.prems(1,2) show ?thesis by simp
  next
    case 2
    with Alt.IH(2) [OF _ _ 2] Alt.prems(1,2) show ?thesis by simp
  qed
next
  case Dot
  from Dot.prems(2,3) show ?case by (auto simp: pos_in_def)
next
  case Eps
  from Eps.prems(2,3) show ?case by simp
qed

lemma pos_in_start: "list_all K (a @ b) \<Longrightarrow> pos_in K (adv None a, b)"
  by (auto simp: pos_in_def adv_def list_all_iff)

theorem search_agree:
  assumes "agree K u v" "wf_re r" "re_in (icase f) K r" "list_all K x"
  shows "search u (f, r) x = search v (f, r) x"
proof -
  have "search w' (f, r) x" if "search w (f, r) x" "agree K w w'" for w w'
  proof -
    from that obtain a b s' where ab: "x = a @ b" "((adv None a, b), s') \<in> sem w f r"
      unfolding search_def fst_conv snd_conv found_iff [OF assms(2)] by blast
    with sem_agree [OF that(2) assms(3) pos_in_start ab(2)] assms(4) show ?thesis
      unfolding search_def fst_conv snd_conv found_iff [OF assms(2)] by blast
  qed
  with assms(1) agree_sym show ?thesis by blast
qed

subsection \<open>Word boundaries inside a phrase\<close>

text \<open>
  A match that begins after the first character and ends before the last sees the same boundaries in
  every text that holds the phrase.
\<close>

definition inner :: "ucd \<Rightarrow> mode \<times> re \<Rightarrow> ustr \<Rightarrow> bool" where
  "inner u p x =
     list_ex (\<lambda>i. list_ex (\<lambda>s. snd s \<noteq> []) (ends u (fst p) (snd p) (adv None (take i x), drop i x))) [1..<length x]"

lemma sem_extend:
  "((p, x), (q, y)) \<in> sem u f r \<Longrightarrow> y \<noteq> [] \<Longrightarrow> ((p, x @ z), (q, y @ z)) \<in> sem u f r"
proof (induction r arbitrary: p x q y)
  case (Seq a b)
  then obtain o1 w where m: "((p, x), (o1, w)) \<in> sem u f a" "((o1, w), (q, y)) \<in> sem u f b" by auto
  from m(2) sem_shrink [of u f b] Seq.prems(2) have "w \<noteq> []" by (auto simp: shrink_def)
  with Seq.IH(1) [OF m(1)] Seq.IH(2) [OF m(2)] Seq.prems(2) show ?case by (simp add: relcompI)
next
  case (Rep m n lazy a)
  then obtain k where k: "in_bounds m n k" "((p, x), (q, y)) \<in> sem u f a ^^ k" by auto
  have "((p, x @ z), (q, y @ z)) \<in> sem u f a ^^ k" using k(2)
  proof (induction k arbitrary: p x)
    case (Suc k)
    then obtain o1 w where t: "((p, x), (o1, w)) \<in> sem u f a" "((o1, w), (q, y)) \<in> sem u f a ^^ k"
      by (metis relpow_Suc_D2 surj_pair)
    from t(2) relpow_Id_shrink [OF sem_shrink [of u f a], of k] Rep.prems(2) have "w \<noteq> []" by (auto simp: shrink_def)
    with Rep.IH [OF t(1)] Suc.IH [OF t(2)] show ?case by (meson relpow_Suc_I2)
  qed simp
  with k(1) show ?case by auto
next
  case Wordb
  then show ?case by (cases y) (auto simp: boundary_def)
qed auto

lemma adv_nonempty: "a \<noteq> [] \<Longrightarrow> adv p a = adv q a"
  by (cases a) simp_all

theorem inner_context:
  assumes "agree K u v" "wf_re r" "re_in (icase f) K r" "list_all K x" "inner v (f, r) x"
  shows "search u (f, r) (pre @ x @ post)"
proof -
  from assms(5) obtain i s' where i: "1 \<le> i" "i < length x" "s' \<in> set (ends v f r (adv None (take i x), drop i x))" "snd s' \<noteq> []"
    by (auto simp: inner_def list_ex_iff)
  let ?a = "take i x" and ?b = "drop i x"
  obtain q y where s': "s' = (q, y)" by (cases s')
  have "((adv None ?a, ?b), (q, y)) \<in> sem v f r" using i(3) ends_sem [OF assms(2)] by (simp add: s')
  with sem_agree [OF agree_sym [OF assms(1)] assms(3) pos_in_start, of ?a ?b] assms(4)
  have "((adv None ?a, ?b), (q, y)) \<in> sem u f r" by (metis append_take_drop_id)
  from sem_extend [OF this, of post] i(4) have "((adv None ?a, ?b @ post), (q, y @ post)) \<in> sem u f r" by (simp add: s')
  moreover have "?a \<noteq> []" using i(1,2) by auto
  then have "adv None (pre @ ?a) = adv None ?a" using adv_nonempty by simp
  moreover have "pre @ x @ post = (pre @ ?a) @ (?b @ post)" by simp
  ultimately show ?thesis
    unfolding search_def fst_conv snd_conv found_iff [OF assms(2)] by (metis (no_types))
qed

subsection \<open>ASCII\<close>

text \<open>All databases that are right on ASCII agree there.\<close>

definition ascii :: "int \<Rightarrow> bool" where
  "ascii c = (0 \<le> c \<and> c < 128)"

abbreviation ascii_re :: "re \<Rightarrow> bool" where
  "ascii_re \<equiv> re_in True ascii"

lemma ascii_ok_ascii_ucd [simp]: "ascii_ok ascii_ucd"
  by (simp add: ascii_ok_def ascii_ucd_def)

lemma ascii_agree: "ascii_ok u \<Longrightarrow> agree ascii u ascii_ucd"
  by (auto simp: agree_def ascii_ok_def ascii_def ascii_ucd_def ascii_lower_def)

text \<open>
  What the detectors' properties use: a pattern that compiles, holds no word boundary and no
  character outside ASCII, and is found in an ASCII text, is found in every text around it.
\<close>

theorem search_around:
  assumes "ascii_ok u" "wf_re r" "plain_re r" "ascii_re r" "list_all ascii x" "search ascii_ucd (f, r) x"
  shows "search u (f, r) (pre @ x @ post)"
  using search_context [OF assms(2,3)] search_agree [OF ascii_agree [OF assms(1)] assms(2) re_in_case [OF assms(4)] assms(5)] assms(6)
  by blast

lemma compile_wf: "compile d p = Some (f, r) \<Longrightarrow> wf_re r"
  by (auto simp: compile_def simp del: p_alt.simps split: prod.splits option.splits list.splits if_splits)

section \<open>Tables of patterns\<close>

text \<open>A table gives each pattern with its description; it compiles if every pattern does.\<close>

type_synonym regex = "mode \<times> re"

fun compile_table :: "bool \<Rightarrow> (ustr \<times> string) list \<Rightarrow> (regex \<times> string) list option" where
  "compile_table d [] = Some []"
| "compile_table d ((p, s) # ps) =
     (case compile d p of
        None \<Rightarrow> None
      | Some r \<Rightarrow> (case compile_table d ps of None \<Rightarrow> None | Some rs \<Rightarrow> Some ((r, s) # rs)))"

definition compiles :: "bool \<Rightarrow> (ustr \<times> string) list \<Rightarrow> bool" where
  "compiles d ps = list_all (\<lambda>(p, s). compile d p \<noteq> None) ps"

lemma compiles_append [simp]: "compiles d (ps @ qs) = (compiles d ps \<and> compiles d qs)"
  by (simp add: compiles_def)

lemma compile_table_ok: "compiles d ps \<Longrightarrow> compile_table d ps \<noteq> None"
  by (induction d ps rule: compile_table.induct) (auto simp: compiles_def)

lemma compile_table_mem:
  "compile_table d ps = Some rs \<Longrightarrow> (p, s) \<in> set ps \<Longrightarrow> \<exists>r. compile d p = Some r \<and> (r, s) \<in> set rs"
proof (induction d ps arbitrary: rs rule: compile_table.induct)
  case (2 d q s' ps)
  then obtain r rs' where r: "compile d q = Some r" "compile_table d ps = Some rs'" "rs = (r, s') # rs'"
    by (auto split: option.splits)
  show ?case
  proof (cases "(p, s) \<in> set ps")
    case True
    with "2.IH" [OF r(1,2)] show ?thesis unfolding r(3) by auto
  qed (use "2.prems" r in auto)
qed simp

lemma compile_table_length: "compile_table d ps = Some rs \<Longrightarrow> length rs = length ps"
  by (induction d ps arbitrary: rs rule: compile_table.induct) (auto split: option.splits)

lemma compile_table_descriptions: "compile_table d ps = Some rs \<Longrightarrow> map snd rs = map snd ps"
  by (induction d ps arbitrary: rs rule: compile_table.induct) (auto split: option.splits)

text \<open>A pattern literal of a method body; each is shown to compile where it is used.\<close>

definition literal_re :: "string \<Rightarrow> regex" where
  "literal_re s = (case compile False (pat s) of None \<Rightarrow> (\<lparr>icase = False, dotall = False\<rparr>, Eps) | Some r \<Rightarrow> r)"

end
