(* ===== verification/Codec.thy ===== *)
theory Codec
  imports Regex
begin

text \<open>
  What the detectors use of Python's texts and codecs: \<open>str.strip\<close>, \<open>str.split\<close>, \<open>str.replace\<close>,
  \<open>base64.b64decode\<close>, \<open>bytes.fromhex\<close> and the decoding of UTF-8 with \<open>errors="ignore"\<close>.
\<close>

definition ustrip :: "ustr \<Rightarrow> ustr" where
  "ustrip t = rev (dropWhile u_space (rev (dropWhile u_space t)))"

text \<open>\<open>t.split()\<close>: the runs of characters that are no white space.\<close>

fun words_from :: "ustr \<Rightarrow> ustr \<Rightarrow> ustr list" where
  "words_from w [] = (if w = [] then [] else [w])"
| "words_from w (c # t) =
     (if u_space c then (if w = [] then words_from [] t else w # words_from [] t) else words_from (w @ [c]) t)"

definition usplit :: "ustr \<Rightarrow> ustr list" where
  "usplit t = words_from [] t"

text \<open>\<open>t.split(sep)\<close> for one character.\<close>

fun usplit_on :: "int \<Rightarrow> ustr \<Rightarrow> ustr list" where
  "usplit_on sep [] = [[]]"
| "usplit_on sep (c # t) =
     (if c = sep then [] # usplit_on sep t
      else (case usplit_on sep t of [] \<Rightarrow> [[c]] | w # ws \<Rightarrow> (c # w) # ws))"

text \<open>
  \<open>t.replace(old, new)\<close> for a nonempty \<open>old\<close>: occurrences from the left; \<open>k\<close> characters of the
  occurrence at hand are still to be skipped.
\<close>

fun replace_from :: "ustr \<Rightarrow> ustr \<Rightarrow> nat \<Rightarrow> ustr \<Rightarrow> ustr" where
  "replace_from old new k [] = []"
| "replace_from old new (Suc k) (c # t) = replace_from old new k t"
| "replace_from old new 0 (c # t) =
     (if take (length old) (c # t) = old then new @ replace_from old new (length old - 1) t
      else c # replace_from old new 0 t)"

definition ureplace :: "ustr \<Rightarrow> ustr \<Rightarrow> ustr \<Rightarrow> ustr" where
  "ureplace old new t = replace_from old new 0 t"

fun contains :: "ustr \<Rightarrow> ustr \<Rightarrow> bool" where
  "contains w [] = (w = [])"
| "contains w (c # t) = (take (length w) (c # t) = w \<or> contains w t)"

section \<open>Base64\<close>

definition b64_val :: "int \<Rightarrow> int" where
  "b64_val c = (if 65 \<le> c \<and> c \<le> 90 then c - 65 else if 97 \<le> c \<and> c \<le> 122 then c - 71
     else if 48 \<le> c \<and> c \<le> 57 then c + 4 else if c = 43 then 62 else 63)"

fun b64_bytes :: "int list \<Rightarrow> int list" where
  "b64_bytes (a # b # c # d # r) =
     [a * 4 + b div 16, (b mod 16) * 16 + c div 4, (c mod 4) * 64 + d] @ b64_bytes r"
| "b64_bytes [a, b, c] = [a * 4 + b div 16, (b mod 16) * 16 + c div 4]"
| "b64_bytes [a, b] = [a * 4 + b div 16]"
| "b64_bytes _ = []"

text \<open>
  \<open>base64.b64decode\<close> of characters of the alphabet followed by padding, \<open>None\<close> where it raises:
  one character over a multiple of four, or too little padding.
\<close>

definition b64decode :: "ustr \<Rightarrow> int list option" where
  "b64decode t =
     (let data = takeWhile (\<lambda>c. c \<noteq> 61) t; pads = length t - length data; over = length data mod 4
      in if over = 0 \<or> (over = 2 \<and> 2 \<le> pads) \<or> (over = 3 \<and> 1 \<le> pads)
         then Some (b64_bytes (map b64_val data)) else None)"

text \<open>\<open>base64.b64encode\<close>: the six-bit digits, then padding to a multiple of four.\<close>

definition b64_char :: "int \<Rightarrow> char" where
  "b64_char d = char_of (if d < 26 then d + 65 else if d < 52 then d + 71 else if d < 62 then d - 4 else if d = 62 then 43 else 47)"

fun b64_digits :: "int list \<Rightarrow> int list" where
  "b64_digits (a # b # c # r) =
     [a div 4, (a mod 4) * 16 + b div 16, (b mod 16) * 4 + c div 64, c mod 64] @ b64_digits r"
| "b64_digits [a, b] = [a div 4, (a mod 4) * 16 + b div 16, (b mod 16) * 4]"
| "b64_digits [a] = [a div 4, (a mod 4) * 16]"
| "b64_digits [] = []"

definition b64encode :: "string \<Rightarrow> string" where
  "b64encode s = map b64_char (b64_digits (map of_char s)) @ replicate ((3 - length s mod 3) mod 3) CHR ''=''"

section \<open>Hexadecimal\<close>

definition ascii_ws :: "int \<Rightarrow> bool" where
  "ascii_ws c = ((9 \<le> c \<and> c \<le> 13) \<or> c = 32)"

fun fromhex :: "ustr \<Rightarrow> int list option" where
  "fromhex [] = Some []"
| "fromhex [c] = (if ascii_ws c then Some [] else None)"
| "fromhex (c # d # t) =
     (if ascii_ws c then fromhex (d # t)
      else (case (hexv c, hexv d) of
              (Some a, Some b) \<Rightarrow> (case fromhex t of None \<Rightarrow> None | Some bs \<Rightarrow> Some ((16 * a + b) # bs))
            | _ \<Rightarrow> None))"

section \<open>UTF-8\<close>

text \<open>
  The decoder as an automaton: the continuation bytes still needed, the range of the next one and
  the bits so far. A byte that does not fit drops what was pending and is read anew.
\<close>

record utf8_state =
  needed :: nat
  low :: int
  high :: int
  bits :: int

definition idle :: utf8_state where
  "idle = \<lparr>needed = 0, low = 0, high = 0, bits = 0\<rparr>"

definition utf8_lead :: "int \<Rightarrow> utf8_state \<times> ustr" where
  "utf8_lead b =
     (if b < 0x80 then (idle, [b])
      else if 0xC2 \<le> b \<and> b \<le> 0xDF then (\<lparr>needed = 1, low = 0x80, high = 0xBF, bits = b - 0xC0\<rparr>, [])
      else if 0xE0 \<le> b \<and> b \<le> 0xEF then
        (\<lparr>needed = 2, low = (if b = 0xE0 then 0xA0 else 0x80), high = (if b = 0xED then 0x9F else 0xBF), bits = b - 0xE0\<rparr>, [])
      else if 0xF0 \<le> b \<and> b \<le> 0xF4 then
        (\<lparr>needed = 3, low = (if b = 0xF0 then 0x90 else 0x80), high = (if b = 0xF4 then 0x8F else 0xBF), bits = b - 0xF0\<rparr>, [])
      else (idle, []))"

definition utf8_step :: "utf8_state \<Rightarrow> int \<Rightarrow> utf8_state \<times> ustr" where
  "utf8_step s b =
     (if 0 < needed s \<and> low s \<le> b \<and> b \<le> high s
      then (let a = bits s * 64 + (b - 0x80)
            in if needed s = 1 then (idle, [a]) else (\<lparr>needed = needed s - 1, low = 0x80, high = 0xBF, bits = a\<rparr>, []))
      else utf8_lead b)"

fun utf8_from :: "utf8_state \<Rightarrow> int list \<Rightarrow> ustr" where
  "utf8_from s [] = []"
| "utf8_from s (b # bs) = (case utf8_step s b of (s', out) \<Rightarrow> out @ utf8_from s' bs)"

definition utf8_decode_ignore :: "int list \<Rightarrow> ustr" where
  "utf8_decode_ignore bs = utf8_from idle bs"

section \<open>Lemmas\<close>

lemma utf8_ascii: "list_all (\<lambda>b. b < 0x80) bs \<Longrightarrow> utf8_decode_ignore bs = bs"
  unfolding utf8_decode_ignore_def
  by (induction bs) (simp_all add: utf8_step_def utf8_lead_def idle_def)

lemma contains_append: "contains w t \<longleftrightarrow> (\<exists>a b. t = a @ w @ b)"
proof (induction t)
  case (Cons c t)
  have "take (length w) (c # t) = w \<longleftrightarrow> (\<exists>b. c # t = w @ b)"
    by (metis append_eq_conv_conj append_take_drop_id)
  with Cons show ?case by (auto simp: Cons_eq_append_conv)
qed auto

lemma ureplace_absent: "\<not> contains old t \<Longrightarrow> ureplace old new t = t"
  unfolding ureplace_def by (induction t) auto

subsection \<open>Base64 there and back\<close>

definition byte :: "int \<Rightarrow> bool" where
  "byte b \<longleftrightarrow> 0 \<le> b \<and> b < 256"

lemma char_byte: "byte (of_char c)"
proof -
  have "int (of_char c) = of_char c" by (simp only: of_nat_of_char)
  moreover have "of_char c < (256 :: nat)" by simp
  ultimately show ?thesis unfolding byte_def by linarith
qed

lemma b64_digits_range: "list_all byte bs \<Longrightarrow> list_all (\<lambda>d. 0 \<le> d \<and> d < 64) (b64_digits bs)"
  by (induction bs rule: b64_digits.induct) (auto simp: byte_def)

lemma b64_bytes_digits: "list_all byte bs \<Longrightarrow> b64_bytes (b64_digits bs) = bs"
  by (induction bs rule: b64_digits.induct) (auto simp: byte_def)

lemma b64_digits_length: "length (b64_digits bs) mod 4 = (if length bs mod 3 = 0 then 0 else Suc (length bs mod 3))"
proof (induction bs rule: b64_digits.induct)
  case (1 a b c r)
  have "length (a # b # c # r) mod 3 = length r mod 3" by simp
  with 1 show ?case by simp
qed auto

lemma b64_char_code: "0 \<le> d \<Longrightarrow> d < 64 \<Longrightarrow> of_char (b64_char d) \<noteq> (61 :: int) \<and> b64_val (of_char (b64_char d)) = d"
  by (auto simp: b64_char_def b64_val_def)

lemma b64_alphabet: "list_all byte bs \<Longrightarrow> c \<in> set (map b64_char (b64_digits bs)) \<Longrightarrow> c \<noteq> CHR 0x27"
proof -
  assume a: "list_all byte bs" "c \<in> set (map b64_char (b64_digits bs))"
  then obtain d where d: "c = b64_char d" "0 \<le> d" "d < 64" using b64_digits_range by (auto simp: list_all_iff)
  have "of_char c \<noteq> (39 :: int)" unfolding d(1) using d(2,3) by (auto simp: b64_char_def)
  then show "c \<noteq> CHR 0x27" by auto
qed

theorem b64decode_encode: "b64decode (of_string (b64encode s)) = Some (of_string s)"
proof -
  let ?ds = "b64_digits (map of_char s)" and ?k = "(3 - length s mod 3) mod 3"
  have bytes: "list_all byte (map of_char s)" by (simp add: list_all_iff char_byte)
  have enc: "of_string (b64encode s) = map (\<lambda>d. of_char (b64_char d)) ?ds @ replicate ?k 61"
    by (simp add: of_string_def b64encode_def)
  have "takeWhile (\<lambda>c. c \<noteq> 61) (map (\<lambda>d. of_char (b64_char d)) ?ds) = map (\<lambda>d. of_char (b64_char d) :: int) ?ds"
    using b64_digits_range [OF bytes] b64_char_code by (auto simp: takeWhile_eq_all_conv list_all_iff)
  then have data: "takeWhile (\<lambda>c. c \<noteq> 61) (map (\<lambda>d. of_char (b64_char d)) ?ds @ replicate ?k 61)
      = map (\<lambda>d. of_char (b64_char d) :: int) ?ds"
    by (simp add: takeWhile_append)
  have vals: "map b64_val (map (\<lambda>d. of_char (b64_char d)) ?ds) = ?ds"
    using b64_digits_range [OF bytes] b64_char_code by (auto simp: list_all_iff intro: map_idI)
  have "length s mod 3 = 0 \<or> length s mod 3 = 1 \<or> length s mod 3 = 2" by arith
  then have "length (b64encode s) - length ?ds = ?k \<and> (length ?ds mod 4 = 0 \<or> (length ?ds mod 4 = 2 \<and> 2 \<le> ?k) \<or> (length ?ds mod 4 = 3 \<and> 1 \<le> ?k))"
    using b64_digits_length [of "map of_char s"] by (auto simp: b64encode_def)
  then show ?thesis
    unfolding b64decode_def Let_def enc data vals b64_bytes_digits [OF bytes] by (simp add: of_string_def b64encode_def)
qed

end
