(* ===== verification/InjectionPatterns.thy ===== *)
theory InjectionPatterns
  imports Regex
begin

text \<open>
  The pattern tables of \<open>src/core/security/injection.py\<close>, a definition per section of the source, and
  that each of them compiles. See \<open>pat\<close> in Regex for how a pattern is written.
\<close>

definition override_patterns :: "(ustr \<times> string) list" where
  "override_patterns =
    [
     (pat ''(?i)ignore~s+(all~s+)?(previous|above|prior)~s+(instructions|prompts|rules|system)'', ''Instruction override attempt''),
     (pat ''(?i)forget~s+(everything|all|your)~s+(instructions|training|rules)'', ''Memory/training override attempt''),
     (pat ''(?i)disregard~s+(your|the|all)~s+(instructions|rules|guidelines|prompt)'', ''Instruction disregard attempt''),
     (pat ''(?i)you~s+are~s+now~s+(a|an|the)~s+'', ''Role hijacking attempt''),
     (pat ''(?i)new~s+instructions?~s*[:.]'', ''New instruction injection''),
     (pat ''(?i)system~s*:~s*'', ''System prompt injection''),
     (pat ''(?i)human~s*:~s*'', ''Human/assistant role confusion''),
     (pat ''(?i)assistant~s*:~s*'', ''Assistant role injection''),
     (pat ''(?i)(okay|ok)~s*(now|from now on)~s*(i~s+want|follow|ignore)~s'', ''Behavior change directive''),
     (pat ''(?i)let~s+me~s+(give|provide|set|establish)~s+(you~s+|your~s+)?(new|updated|fresh)~s+(instructions|rules|guidelines|directives)'', ''Instruction replacement attempt'')]"

definition exfiltration_patterns :: "(ustr \<times> string) list" where
  "exfiltration_patterns =
    [
     (pat ''(?i)(send|output|print|reveal|show|dump|display|exfiltrate|leak|copy)~s+(your|the|all)~s+(system~s+)?prompt'', ''System prompt exfiltration attempt''),
     (pat ''(?i)(repeat|echo|output)~s+(everything|all|your)~s+(above|before|previous)'', ''Context exfiltration attempt''),
     (pat ''(?i)http[s]?://[^~s]+(~u4f60~u7684~u7cfb~u7edf|system.?prompt|instructions|system_prompt)'', ''External exfiltration URL attempt''),
     (pat ''(?i)(upload|post|send)~s+(the|this|my)~s+(prompt|instructions|data)~s+to~s+https?://'', ''Data upload exfiltration''),
     (pat ''(?i)(CC|Bcc|bcc|forward|email|mail)~s+(me|this|my|the)~s+(prompt|output|result|data)~s+to~s+'', ''Email exfiltration attempt''),
     (pat ''(?i)(i~s+)?(need|want|require)~s+you~s+to~s+send~s+(the|this|all)~s+(output|result|data|code)~s+to~s+https?://'', ''Result exfiltration request'')]"

definition jailbreak_patterns :: "(ustr \<times> string) list" where
  "jailbreak_patterns =
    [
     (pat ''(?i)(jailbreak|jail.?break|dan~s+mode|developer~s+mode)~b'', ''Known jailbreak technique''),
     (pat ''(?i)~bDAN~b.*~bmode~b'', ''DAN jailbreak pattern''),
     (pat ''(?i)pretend~s+you~s+(have~s+)?(no~s+)?(rules|restrictions|limits|filter|boundaries|guardrails)'', ''Restriction removal attempt''),
     (pat ''(?i)you~s+(can|may|are~s+allowed~s+to)~s+(ignore|bypass|skip|override)~s+(your~s+)?(safety|security|content.?policy|guidelines)'', ''Safety override attempt''),
     (pat ''(?i)(no~s+)?(filter|limits|boundaries|censorship|restrictions|content.?policy)~s*(are|is)?~s*(not~s+)?(needed|required|relevant|necessary)'', ''Safety filter bypass attempt''),
     (pat ''(?i)(hypothetical|fictional|role.?play|simulation)~s+(scenario|setting)~s+where~s+(you|i)~s+(can|have|are)~s+(ignore|bypass|no~s+rules)'', ''Hypothetical jailbreak attempt''),
     (pat ''(?i)(my~s+)?(grandma|mother|father|parent|aunt|uncle)~s+(used~s+to~s+)?(read|tell|say|show)~s+me~s+'', ''Grandma exploit attempt'')]"

definition tool_patterns :: "(ustr \<times> string) list" where
  "tool_patterns =
    [
     (pat ''(?i)you~s+have~s+(access~s+to~s+)?(a~s+)?(new~s+)?(tool|function|command|plugin)~s+called~s+'', ''Fake tool injection attempt''),
     (pat ''(?i)here~s+(are|is)~s+(your|the)~s+(updated|new|correct)~s+(tool|function|plugin|api)~s+(definition|spec|description|schema)'', ''Tool definition override''),
     (pat ''(?i)function~s+~w+~s*~(~s*[^)]*~)~s*~{'', ''Function definition injection''),
     (pat ''(?i)~{.*~\"name~\":~s*~\"[a-zA-Z_]+~\".*~\"description~\":.*~}'', ''JSON tool definition injection'')]"

definition splitting_patterns :: "(ustr \<times> string) list" where
  "splitting_patterns =
    [
     (pat ''(?i)(first|step~s*1|part~s*1)~s*:?.*~b(ignore|disregard|forget)~b.*(step~s*2|second|then|next|after~s+that)'', ''Step-by-step injection (payload splitting)''),
     (pat ''(?i)(~u7b2c~u4e00~u90e8~u5206|~u7b2c~u4e00~u6b65).*(~u5ffd~u7565|~u5fd8~u8bb0|~u4e0d~u8981~u9075~u5b88).*(~u7b2c~u4e8c~u90e8~u5206|~u7b2c~u4e8c~u6b65|~u63a5~u4e0b~u6765)'', ''Chinese payload splitting''),
     (pat ''(?i)(wait|pause|break)~s+(for|until|before|after).*(and~s+then|then|next)~s+(ignore|disregard|forget)'', ''Chained instruction injection''),
     (pat ''(?i)(i~s+)?will~s+(give|pay|offer|tip|reward)~s+you~s+~$?~d+(k|,?~d{3})?~s*(if|when|once|after)'', ''Bribery/reward manipulation''),
     (pat ''(?i)(this~s+is~s+)?(a~s+)?(test|challenge|experiment|evaluation)~s+(of|for|to~s+test)~s+(your|AI)~s+(safety|security|boundaries|rules|limits|filtering)'', ''Safety evaluation pretext'')]"

definition language_patterns :: "(ustr \<times> string) list" where
  "language_patterns =
    [
     (pat ''(?i)~u5ffd~u7565~s*(~u6240~u6709~s*)?(~u4e4b~u524d|~u4ee5~u4e0a|~u5148~u524d)~s*(~u7684~s*)?(~u6307~u4ee4|~u6307~u793a|~u89c4~u5219|~u63d0~u793a)'', ''Chinese instruction override''),
     (pat ''(?i)~u5fd8~u8bb0~s*(~u4f60~s*~u7684~s*)?(~u6240~u6709|~u4e00~u5207)~s*(~u6307~u4ee4|~u8bad~u7ec3|~u89c4~u5219)'', ''Chinese memory override''),
     (pat ''(?i)~u4f60~s*~u73b0~u5728~s*~u662f~s*'', ''Chinese role hijacking''),
     (pat ''(?i)(~u8bf7|~u7ed9~u6211|~u5e2e~u6211~u628a)~s*(~u8f93~u51fa|~u53d1~u9001|~u6253~u5370|~u663e~u793a|~u590d~u5236|~u6cc4~u9732)~s*(~u4f60~s*~u7684~s*)?(~u7cfb~u7edf~s*)?(~u63d0~u793a~u8bcd|prompt|~u6307~u4ee4|~u89c4~u5219)'', ''Chinese prompt exfiltration''),
     (pat ''(?i)(~u0438~u0433~u043d~u043e~u0440~u0438~u0440~u0443~u0439|~u0437~u0430~u0431~u0443~u0434~u044c|~u043e~u0442~u043c~u0435~u043d~u0438)~s+(~u0432~u0441~u0435|~u043f~u0440~u0435~u0434~u044b~u0434~u0443~u0449~u0438~u0435|~u0441~u0432~u043e~u0438)~s+(~u0438~u043d~u0441~u0442~u0440~u0443~u043a~u0446~u0438~u0438|~u043f~u0440~u0430~u0432~u0438~u043b~u0430|~u0443~u043a~u0430~u0437~u0430~u043d~u0438~u044f)'', ''Russian instruction override''),
     (pat ''(?i)(ignora|olvida|descarta)~s+(todas|tus|las)~s+(instrucciones|reglas|indicaciones)'', ''Spanish instruction override'')]"

definition manipulation_patterns :: "(ustr \<times> string) list" where
  "manipulation_patterns =
    [
     (pat ''(?i)(answer|respond|reply)~s+(only|just|solely)~s+(with|in)~s+(base64|hex|binary|rot13|caesar|cipher|morse|leetspeak|leet|l33t)'', ''Encoded output request''),
     (pat ''(?i)(do~s+not|don'?t|never)~s+(tell|mention|reveal|disclose|share)~s+(anyone|anybody|the~s+user|them)~s+(that|about)~s+'', ''Information hiding directive''),
     (pat ''(?i)(this|the~s+following)~s*(is|are)~s*(my|new|updated)~s+(system|environment|context|session)~s+(prompt|instructions|setup|configuration)'', ''Context manipulation attempt''),
     (pat ''(?i)(i~s+)?(am|will~s+be)~s+(your|acting~s+as)~s+(new|replacement|alternate|backup)~s+(admin|administrator|creator|developer|supervisor|overseer)'', ''Authority impersonation''),
     (pat ''(?i)(override|overwrite|replace)~s+(your|the)~s+(entire|full|complete)~s+(system|context|session|state)'', ''System state override attempt'')]"

definition MALICIOUS_PATTERNS :: "(ustr \<times> string) list" where
  "MALICIOUS_PATTERNS =
     override_patterns @ exfiltration_patterns @ jailbreak_patterns @ tool_patterns @ splitting_patterns @ language_patterns @ manipulation_patterns"

definition probing_patterns :: "(ustr \<times> string) list" where
  "probing_patterns =
    [
     (pat ''(?i)what~s+are~s+your~s+(initial|original|system)~s+(instructions|prompt)'', ''Probing for system prompt''),
     (pat ''(?i)(translate|convert|encode)~s+(the|your|this)~s+(prompt|instructions)'', ''Encoded exfiltration probe''),
     (pat ''(?i)what~s+(rules|instructions|guidelines|policies|restrictions)~s+do~s+you~s+(have|follow|obey)'', ''Rules enumeration probe''),
     (pat ''(?i)(list|show|tell|enumerate|reveal|describe)~s+(your|the)~s+(safety|security|content|moderation)~s+(rules|guidelines|policies|filters|mechanisms)'', ''Safety mechanism probing''),
     (pat ''(?i)(are~s+you|do~s+you~s+have)~s+(bound|limited|restrict|constrain|restrain|filter|censor)'', ''Capability probing'')]"

definition role_patterns :: "(ustr \<times> string) list" where
  "role_patterns =
    [
     (pat ''(?i)act~s+as~s+(if|though)~s+you~s+(are|were)'', ''Role assumption attempt''),
     (pat ''(?i)(above|below|between)~s+(text|instructions|content)~s+is~s+(confidential|secret|hidden)'', ''Hidden instruction probe'')]"

definition structured_patterns :: "(ustr \<times> string) list" where
  "structured_patterns =
    [
     (pat ''(?i)~{[^{}]*?(system|instruction|override|prompt|role)[^{}]*?~}'', ''Structured injection attempt''),
     (pat ''(?i)<!--[^{}]*?(system|instruction)[^{}]*?-->'', ''Comment-based injection attempt''),
     (pat ''(?i)```(?:system|instruction|prompt|role|override)[^{}]*?```'', ''Code block injection attempt''),
     (pat ''(?i)~/~*[^{}]*?(system|instruction|override)[^{}]*?~*~/'', ''Comment block injection attempt''),
     (pat ''(?i)<(system|instruction|override|prompt|role)>[^{}]*?<~/(system|instruction|override|prompt|role)>'', ''XML tag injection attempt'')]"

definition context_patterns :: "(ustr \<times> string) list" where
  "context_patterns =
    [
     (pat ''(?i)(this|that)~s+is~s+(not|no~s+longer)~s+(a~s+)?(test|simulation|demo|example|hypothetical)'', ''Context frame manipulation''),
     (pat ''(?i)(from~s+)?(now~s+on|henceforth|going~s+forward)~s*[,:]?~s*(you~s+)?(will|must|should|need~s+to)~s+'', ''Future behavior directive''),
     (pat ''(?i)(important|urgent|critical|high.priority)~s*[:!]~s*(read|listen|pay~s+attention|note)'', ''Urgency-based manipulation'')]"

definition technical_patterns :: "(ustr \<times> string) list" where
  "technical_patterns =
    [
     (pat ''(?i)(what~s+)?model~s+(are~s+you|version|name|number)'', ''Model identification probe''),
     (pat ''(?i)(who~s+|which~s+company|who~s+created|who~s+made|who~s+built|what~s+company)~s+(created|made|built|developed|trained)~s+you'', ''Creator identification probe''),
     (pat ''(?i)(where~s+are~s+you~s+|on~s+what~s+(server|infrastructure|platform))~s+(running|hosted|deployed)'', ''Infrastructure probe'')]"

definition formatting_patterns :: "(ustr \<times> string) list" where
  "formatting_patterns =
    [
     (pat ''(?i)(~~system|~~instruction|~~override|~~prompt|~~role)~s*[:=]'', ''Escape sequence injection''),
     (pat ''(?i)%00|null|%0d%0a|%0a|%0d~.*(system|instruction|prompt)'', ''URL-encoded injection probe''),
     (pat ''(?i)(BEGIN|START|INJECT|OVERRIDE)~s+(SYSTEM|INSTRUCTION|PROMPT|CONTEXT)~s+(BLOCK|SECTION)'', ''Explicit injection marker'')]"

definition fewshot_patterns :: "(ustr \<times> string) list" where
  "fewshot_patterns =
    [
     (pat ''(?i)(here~s+(are|is)~s+)~d+~s*(examples?~s+)?(of~s+)?(good|correct|proper|acceptable|valid)~s+(answers|responses|outputs|behaviors)'', ''Few-shot behavior manipulation''),
     (pat ''(?i)(follow|mimic|copy|replicate|emulate|adopt)~s+(the~s+)?(format|pattern|style|behavior|approach|tone)~s+(above|below|from|of|in)'', ''Style/behavior mimicry directive''),
     (pat ''(?i)(user|human)~s+(said|wrote|asked|typed):?~s*(ignore|forget|override|disregard)'', ''Quoted override injection'')]"

definition output_patterns :: "(ustr \<times> string) list" where
  "output_patterns =
    [
     (pat ''(?i)output~s+(it|the~s+result|everything|all)~s+(as|in|using)~s+(JSON|XML|YAML|CSV|HTML|markdown)~s+(without|with|only|before|after)'', ''Output format manipulation''),
     (pat ''(?i)(wrap|surround|enclose|embed)~s+(your|the)~s+(response|output|answer)~s+(in|with|inside)~s+'', ''Output enclosure attempt''),
     (pat ''(?i)(start|begin|preface|prefix)~s+(every|each|all)~s+(response|output|answer)~s+(with|by)'', ''Output prefix injection'')]"

definition SUSPICIOUS_PATTERNS :: "(ustr \<times> string) list" where
  "SUSPICIOUS_PATTERNS =
     probing_patterns @ role_patterns @ structured_patterns @ context_patterns @ technical_patterns @ formatting_patterns @ fewshot_patterns @ output_patterns"

definition obfuscation_patterns :: "(ustr \<times> string) list" where
  "obfuscation_patterns =
    [
     (pat ''[~x00-~x08~x0b~x0c~x0e-~x1f]'', ''Control characters''),
     (pat ''[~u200b~u200c~u200d~ufeff~u00ad~u2060~u2061~u2062~u2063~u2064~u2066~u2067~u2068~u2069]'', ''Zero-width/invisible characters''),
     (pat ''(?i)[a-z]+~~u[0-9a-f]{4,}'', ''Unicode escape sequences''),
     (pat ''(?i)%[0-9a-f]{2}%[0-9a-f]{2}%[0-9a-f]{2}'', ''URL-encoded characters''),
     (pat ''(?i)&#x?[0-9a-f]+;'', ''HTML entity encoding''),
     (pat ''(?i)~~[xX][0-9a-f][0-9a-f]'', ''Hex escape sequences''),
     (pat ''[^~x20-~x7E~u00A0-~u024F~u0370-~u03FF~u0400-~u04FF~u4E00-~u9FFF~u3040-~u309F~u30A0-~u30FF~uAC00-~uD7AF~uFF00-~uFFEF]{4,}'', ''Rare/obscure unicode block''),
     (pat ''(?i)(?:(?:25[0-5]|2[0-4]~d|[01]?~d~d?)~.){3}(?:25[0-5]|2[0-4]~d|[01]?~d~d?)'', ''IP address in prompt'')]"

definition OBFUSCATION_PATTERNS :: "(ustr \<times> string) list" where
  "OBFUSCATION_PATTERNS =
     obfuscation_patterns"

section \<open>Every pattern compiles\<close>

lemma override_compiles: "compiles True override_patterns" by code_simp
lemma exfiltration_compiles: "compiles True exfiltration_patterns" by code_simp
lemma jailbreak_compiles: "compiles True jailbreak_patterns" by code_simp
lemma tool_compiles: "compiles True tool_patterns" by code_simp
lemma splitting_compiles: "compiles True splitting_patterns" by code_simp
lemma language_compiles: "compiles True language_patterns" by code_simp
lemma manipulation_compiles: "compiles True manipulation_patterns" by code_simp
lemma probing_compiles: "compiles True probing_patterns" by code_simp
lemma role_compiles: "compiles True role_patterns" by code_simp
lemma structured_compiles: "compiles True structured_patterns" by code_simp
lemma context_compiles: "compiles True context_patterns" by code_simp
lemma technical_compiles: "compiles True technical_patterns" by code_simp
lemma formatting_compiles: "compiles True formatting_patterns" by code_simp
lemma fewshot_compiles: "compiles True fewshot_patterns" by code_simp
lemma output_compiles: "compiles True output_patterns" by code_simp
lemma obfuscation_compiles: "compiles False obfuscation_patterns" by code_simp

lemmas malicious_compile = override_compiles exfiltration_compiles jailbreak_compiles tool_compiles
  splitting_compiles language_compiles manipulation_compiles

lemmas suspicious_compile = probing_compiles role_compiles structured_compiles context_compiles
  technical_compiles formatting_compiles fewshot_compiles output_compiles

lemma tables_compile:
  "compiles True MALICIOUS_PATTERNS" "compiles True SUSPICIOUS_PATTERNS" "compiles False OBFUSCATION_PATTERNS"
  by (simp_all add: MALICIOUS_PATTERNS_def malicious_compile SUSPICIOUS_PATTERNS_def suspicious_compile
      OBFUSCATION_PATTERNS_def obfuscation_compiles)

end
