(* ===== verification/Exfil.thy ===== *)
theory Exfil
  imports ExfilPatterns Codec PyFloat PyNumber
begin

text \<open>
  Exfiltration detection: \<open>src/core/security/exfil.py\<close>.

  The logarithm of the C library is the argument \<open>lg\<close>; the order in which a set of shingles is
  visited, which Python does not fix, is the argument \<open>ord\<close>. The logger is not modelled, and the
  arguments \<open>agent_id\<close> and \<open>task_id\<close> of \<open>scan\<close> are only logged.
\<close>

datatype ExfilRisk = RISK_NONE | RISK_LOW | RISK_MEDIUM | RISK_HIGH | RISK_CRITICAL

fun risk_value :: "ExfilRisk \<Rightarrow> string" where
  "risk_value RISK_NONE = ''none''"
| "risk_value RISK_LOW = ''low''"
| "risk_value RISK_MEDIUM = ''medium''"
| "risk_value RISK_HIGH = ''high''"
| "risk_value RISK_CRITICAL = ''critical''"

record ExfilResult =
  risk :: ExfilRisk
  exf_score :: pyfloat
  entropy :: pyfloat
  findings :: "string list"
  recommendation :: string

record ExfiltrationDetector =
  max_entropy_threshold :: pyfloat
  max_output_size :: int
  entropy_window_size :: int
  sensitive_keywords :: "ustr list"
  secret_re :: "(regex \<times> string) list"
  pii_re :: "(regex \<times> string) list"
  covert_re :: "(regex \<times> string) list"

definition new_exfil_detector :: "pyfloat \<Rightarrow> int \<Rightarrow> int \<Rightarrow> ustr list option \<Rightarrow> ExfiltrationDetector outcome" where
  "new_exfil_detector thr max_size window keywords =
     (case compile_table False SECRET_PATTERNS of
        None \<Rightarrow> Raise OtherError
      | Some s \<Rightarrow>
          (case compile_table False PII_PATTERNS of
             None \<Rightarrow> Raise OtherError
           | Some p \<Rightarrow>
               (case compile_table False COVERT_PATTERNS of
                  None \<Rightarrow> Raise OtherError
                | Some c \<Rightarrow>
                    Ret \<lparr>max_entropy_threshold = thr, max_output_size = max_size, entropy_window_size = window,
                      sensitive_keywords = (case keywords of None \<Rightarrow> [] | Some k \<Rightarrow> k),
                      secret_re = s, pii_re = p, covert_re = c\<rparr>)))"

definition default_exfil_detector :: "ExfiltrationDetector outcome" where
  "default_exfil_detector = new_exfil_detector (F (45 / 10)) 100000 200 None"

section \<open>Entropy\<close>

text \<open>The counts in the order in which the characters first occur.\<close>

definition frequencies :: "ustr \<Rightarrow> (int, nat) dict" where
  "frequencies t = foldl (\<lambda>f c. dict_set c ((case dict_get f c of None \<Rightarrow> 0 | Some n \<Rightarrow> n) + 1) f) [] t"

definition shannon_entropy :: "(pyfloat \<Rightarrow> pyfloat) \<Rightarrow> ustr \<Rightarrow> pyfloat" where
  "shannon_entropy lg t =
     (if t = [] then 0
      else foldl (\<lambda>e n. let p = fdiv (F (of_nat n)) (F (of_nat (length t))) in if 0 < p then e - p * lg p else e)
             0 (dict_values (frequencies t)))"

text \<open>\<open>t[i:j]\<close>, where a negative index counts from the end.\<close>

definition slice :: "ustr \<Rightarrow> int \<Rightarrow> int \<Rightarrow> ustr" where
  "slice t i j =
     (let n = int (length t);
          norm = (\<lambda>k. if k < 0 then max 0 (k + n) else min k n)
      in take (nat (norm j - norm i)) (drop (nat (norm i)) t))"

definition max_shannon_entropy :: "(pyfloat \<Rightarrow> pyfloat) \<Rightarrow> int \<Rightarrow> ustr \<Rightarrow> pyfloat" where
  "max_shannon_entropy lg window t =
     foldl (\<lambda>m i. max m (shannon_entropy lg (slice t i (i + window)))) 0 [0..max 0 (int (length t) - window + 1) - 1]"

section \<open>Fingerprints and structure\<close>

text \<open>The distinct shingles of 50 characters with more than ten different ones.\<close>

definition shingles :: "ustr \<Rightarrow> ustr list" where
  "shingles c =
     foldl (\<lambda>acc i. let s = take 50 (drop i c)
              in if ustrip s \<noteq> [] \<and> 10 < length (remdups s) \<and> s \<notin> set acc then acc @ [s] else acc)
       [] [0..<length c + 1 - 50]"

definition check_data_fingerprint :: "(ustr list \<Rightarrow> ustr list) \<Rightarrow> ustr \<Rightarrow> ustr \<Rightarrow> pyfloat" where
  "check_data_fingerprint ord out context =
     (if context = [] \<or> out = [] then 0
      else let ss = shingles context
           in if ss = [] then 0
              else let sampled = take 100 (ord ss);
                       hit = length (filter (\<lambda>s. contains s out) sampled)
                   in fdiv (F (of_nat hit)) (F (of_nat (max (length sampled) 1))) * F 100)"

definition uniform_lines :: "ustr \<Rightarrow> string option" where
  "uniform_lines t =
     (let lines = usplit_on 10 t
      in if 10 \<le> length lines then
           (let lens = map length (filter (\<lambda>l. ustrip l \<noteq> []) lines)
            in if 5 \<le> length lens then
                 (let n = F (of_nat (length lens));
                      avg = fdiv (F (of_nat (sum_list lens))) n;
                      var = fdiv (py_sum (map (\<lambda>l. fpow (F (of_nat l) - avg) 2) lens)) n
                  in if F 20 < avg \<and> var < F 2
                     then Some (''Uniform line lengths (var='' @ fmt_fixed 1 var @ '', avg='' @ fmt_fixed 0 avg @ '') ''
                                @ em_dash @ '' potential encoding'')
                     else None)
               else None)
         else None)"

definition low_diversity :: "ucd \<Rightarrow> ustr \<Rightarrow> string option" where
  "low_diversity u t =
     (let ws = usplit t
      in if 100 \<le> length ws then
           (let ratio = fdiv (F (of_nat (length (remdups (map (u_lower_text u) ws))))) (F (of_nat (length ws)))
            in if ratio < F (15 / 100)
               then Some (''Very low vocabulary diversity ('' @ fmt_fixed 0 (ratio * F 100) @ ''%) '' @ em_dash @ '' possible steganography'')
               else None)
         else None)"

definition check_structural_anomaly :: "ucd \<Rightarrow> ustr \<Rightarrow> string option" where
  "check_structural_anomaly u t =
     (case uniform_lines t of Some m \<Rightarrow> Some m | None \<Rightarrow> low_diversity u t)"

section \<open>Scanning\<close>

definition secret_weight :: "string \<Rightarrow> pyfloat" where
  "secret_weight d =
     (if substring ''PRIVATE KEY'' d \<or> substring ''Private key'' d \<or> substring ''connection string'' d then F (8 / 10)
      else if substring ''Stripe'' d \<or> substring ''AWS'' d \<or> substring ''Google'' d \<or> substring ''GitHub'' d
        \<or> substring ''OpenAI'' d \<or> substring ''Anthropic'' d \<or> substring ''HuggingFace'' d \<or> substring ''Supabase'' d
      then F (6 / 10) else F (4 / 10))"

definition pii_weight :: "string \<Rightarrow> pyfloat" where
  "pii_weight d = (if substring ''SSN'' d \<or> substring ''Credit card'' d then F (5 / 10) else F (25 / 100))"

definition covert_weight :: "string \<Rightarrow> pyfloat" where
  "covert_weight d = F (25 / 100)"

definition scan_row ::
    "ucd \<Rightarrow> string \<Rightarrow> (string \<Rightarrow> pyfloat) \<Rightarrow> ustr \<Rightarrow> regex \<times> string \<Rightarrow> string list \<times> pyfloat \<Rightarrow> string list \<times> pyfloat" where
  "scan_row u tag weight t = (\<lambda>(r, d) (fs, sc). if search u r t then (fs @ [tag @ d], sc + weight d) else (fs, sc))"

definition table_scan ::
    "ucd \<Rightarrow> string \<Rightarrow> (string \<Rightarrow> pyfloat) \<Rightarrow> (regex \<times> string) list \<Rightarrow> ustr \<Rightarrow> string list \<times> pyfloat \<Rightarrow> string list \<times> pyfloat" where
  "table_scan u tag weight rs t start = fold (scan_row u tag weight t) rs start"

definition entropy_check :: "ExfiltrationDetector \<Rightarrow> pyfloat \<Rightarrow> string list \<times> pyfloat \<Rightarrow> string list \<times> pyfloat" where
  "entropy_check det e = (\<lambda>(fs, sc).
     if max_entropy_threshold det < e
     then (fs @ [''[ENTROPY] High entropy detected: '' @ fmt_fixed 2 e @ '' (threshold: '' @ repr_float (max_entropy_threshold det) @ '')''],
           (if max_entropy_threshold det + F (15 / 10) < e then sc + F (3 / 10) + F (2 / 10) else sc + F (3 / 10)))
     else (fs, sc))"

definition size_check :: "int option \<Rightarrow> int \<Rightarrow> string list \<times> pyfloat \<Rightarrow> string list \<times> pyfloat" where
  "size_check expected n = (\<lambda>(fs, sc).
     case expected of
       None \<Rightarrow> (fs, sc)
     | Some x \<Rightarrow>
         if x \<noteq> 0 \<and> x * 3 < n
         then (let ratio = fdiv (F (of_int n)) (F (of_int (max x 1)))
               in (fs @ [''[SIZE] Output '' @ show_int n @ '' chars, expected ~'' @ show_int x @ '' ('' @ fmt_fixed 1 ratio @ ''x larger)''],
                   sc + min (F (2 / 10) * fdiv ratio (F 3)) (F (5 / 10))))
         else (fs, sc))"

definition limit_check :: "ExfiltrationDetector \<Rightarrow> int \<Rightarrow> string list \<times> pyfloat \<Rightarrow> string list \<times> pyfloat" where
  "limit_check det n = (\<lambda>(fs, sc).
     if max_output_size det < n
     then (fs @ [''[SIZE] Output exceeds maximum ('' @ show_int n @ '' > '' @ show_int (max_output_size det) @ '')''], sc + F (3 / 10))
     else (fs, sc))"

definition fingerprint_check ::
    "(ustr list \<Rightarrow> ustr list) \<Rightarrow> ustr \<Rightarrow> ustr option \<Rightarrow> string list \<times> pyfloat \<Rightarrow> string list \<times> pyfloat" where
  "fingerprint_check ord out context = (\<lambda>(fs, sc).
     case context of
       None \<Rightarrow> (fs, sc)
     | Some c \<Rightarrow>
         if 50 < length c
         then (let p = check_data_fingerprint ord out c
               in if 0 < p
                  then (fs @ [''[FINGERPRINT] Output contains '' @ fmt_fixed 0 p @ ''% of context data verbatim''],
                        sc + min (fdiv p (F 100) * F (4 / 10)) (F (4 / 10)))
                  else (fs, sc))
         else (fs, sc))"

definition structure_check :: "ucd \<Rightarrow> ustr \<Rightarrow> string list \<times> pyfloat \<Rightarrow> string list \<times> pyfloat" where
  "structure_check u out = (\<lambda>(fs, sc).
     case check_structural_anomaly u out of
       None \<Rightarrow> (fs, sc)
     | Some m \<Rightarrow> (fs @ [''[STRUCTURE] '' @ m], sc + F (2 / 10)))"

definition score_to_risk :: "pyfloat \<Rightarrow> ExfilRisk" where
  "score_to_risk s =
     (if F (7 / 10) \<le> s then RISK_CRITICAL
      else if F (5 / 10) \<le> s then RISK_HIGH
      else if F (3 / 10) \<le> s then RISK_MEDIUM
      else if F (1 / 10) \<le> s then RISK_LOW
      else RISK_NONE)"

fun recommend :: "ExfilRisk \<Rightarrow> string" where
  "recommend RISK_CRITICAL = ''BLOCK: Output contains leaked secrets or highly suspicious patterns. Do not deliver.''"
| "recommend RISK_HIGH = ''REVIEW: Output contains suspicious patterns. Human review recommended before delivery.''"
| "recommend RISK_MEDIUM = ''MONITOR: Output has some suspicious characteristics. Log for audit.''"
| "recommend RISK_LOW = ''LOG: Minor anomalies detected. No action required.''"
| "recommend RISK_NONE = ''CLEAR: No exfiltration indicators detected.''"

definition all_checks ::
    "ucd \<Rightarrow> (pyfloat \<Rightarrow> pyfloat) \<Rightarrow> (ustr list \<Rightarrow> ustr list) \<Rightarrow> ExfiltrationDetector \<Rightarrow> ustr \<Rightarrow> int option \<Rightarrow> ustr option
      \<Rightarrow> string list \<times> pyfloat" where
  "all_checks u lg ord det out expected context =
     (let a1 = table_scan u ''[SECRET] '' secret_weight (secret_re det) out ([], 0);
          a2 = table_scan u ''[PII] '' pii_weight (pii_re det) out a1;
          a3 = table_scan u ''[COVERT] '' covert_weight (covert_re det) out a2;
          a4 = entropy_check det (max_shannon_entropy lg (entropy_window_size det) out) a3;
          a5 = size_check expected (int (length out)) a4;
          a6 = limit_check det (int (length out)) a5;
          a7 = fingerprint_check ord out context a6
      in structure_check u out a7)"

definition exfil_scan ::
    "ucd \<Rightarrow> (pyfloat \<Rightarrow> pyfloat) \<Rightarrow> (ustr list \<Rightarrow> ustr list) \<Rightarrow> ExfiltrationDetector \<Rightarrow> ustr \<Rightarrow> int option \<Rightarrow> ustr option
      \<Rightarrow> ExfilResult" where
  "exfil_scan u lg ord det out expected context =
     (if out = []
      then \<lparr>risk = RISK_NONE, exf_score = 0, entropy = 0, findings = [], recommendation = []\<rparr>
      else
        (let (fs, sc) = all_checks u lg ord det out expected context;
             score = min sc 1;
             r = score_to_risk score
         in \<lparr>risk = r, exf_score = py_round 3 score,
             entropy = py_round 3 (max_shannon_entropy lg (entropy_window_size det) out),
             findings = fs, recommendation = recommend r\<rparr>))"

section \<open>Lemmas\<close>

lemma new_exfil_detector_ok:
  "\<exists>det. new_exfil_detector thr mx w k = Ret det \<and> entropy_window_size det = w
     \<and> compile_table False SECRET_PATTERNS = Some (secret_re det)
     \<and> compile_table False PII_PATTERNS = Some (pii_re det)
     \<and> compile_table False COVERT_PATTERNS = Some (covert_re det)"
  using exfil_tables_compile [THEN compile_table_ok] by (auto simp: new_exfil_detector_def)

lemma new_exfil_detectorD:
  assumes "new_exfil_detector thr mx w k = Ret det"
  shows "entropy_window_size det = w" and "compile_table False SECRET_PATTERNS = Some (secret_re det)"
    and "compile_table False PII_PATTERNS = Some (pii_re det)" and "compile_table False COVERT_PATTERNS = Some (covert_re det)"
  using new_exfil_detector_ok [of thr mx w k] assms by auto

text \<open>Every check keeps the findings and does not lower the score.\<close>

definition grows :: "string list \<times> pyfloat \<Rightarrow> string list \<times> pyfloat \<Rightarrow> bool" where
  "grows a b = (set (fst a) \<subseteq> set (fst b) \<and> snd a \<le> snd b)"

lemma grows_refl [simp]: "grows a a"
  by (simp add: grows_def)

lemma grows_trans: "grows a b \<Longrightarrow> grows b c \<Longrightarrow> grows a c"
  by (auto simp: grows_def)

lemma float_add_ge: "0 \<le> y \<Longrightarrow> x \<le> x + y" for x :: pyfloat
  using float_add_mono [of x x 0 y] by simp

lemma grows_add: "0 \<le> w \<Longrightarrow> grows (fs, sc) (fs @ xs, sc + w)"
  using float_add_ge [of w sc] by (auto simp: grows_def)

lemma weights_nonneg: "0 \<le> secret_weight d" "0 \<le> pii_weight d" "0 \<le> covert_weight d"
  by (simp_all add: secret_weight_def pii_weight_def covert_weight_def)

lemma grows_row: "0 \<le> w (snd x) \<Longrightarrow> grows a (scan_row u tag w t x a)"
  using grows_add [of "w (snd x)" "fst a" "snd a"] by (simp add: scan_row_def split_beta)

lemma grows_fold: "(\<And>x b. grows b (f x b)) \<Longrightarrow> grows a (fold f xs a)"
proof (induction xs arbitrary: a)
  case (Cons x xs)
  from Cons.prems have "grows a (f x a)" by blast
  from grows_trans [OF this Cons.IH [OF Cons.prems]] show ?case by simp
qed simp

lemma grows_table_scan: "(\<And>d. 0 \<le> w d) \<Longrightarrow> grows a (table_scan u tag w rs t a)"
  unfolding table_scan_def by (rule grows_fold) (rule grows_row)

lemma table_scan_hit:
  assumes "(r, d) \<in> set rs" "search u r t" "\<And>d. 0 \<le> w d" "0 \<le> snd a"
  shows "tag @ d \<in> set (fst (table_scan u tag w rs t a)) \<and> w d \<le> snd (table_scan u tag w rs t a)"
proof -
  obtain ps qs where rs: "rs = ps @ (r, d) # qs" using assms(1) by (auto simp: in_set_conv_decomp)
  let ?b = "table_scan u tag w ps t a"
  have nn: "0 \<le> snd ?b" using grows_table_scan [of w a u tag ps t, OF assms(3)] assms(4) by (auto simp: grows_def)
  have row: "scan_row u tag w t (r, d) ?b = (fst ?b @ [tag @ d], snd ?b + w d)"
    using assms(2) by (simp add: scan_row_def split_beta)
  have "w d \<le> snd ?b + w d" using float_add_ge [OF nn, of "w d"] by (simp add: float_add_commute)
  moreover have "table_scan u tag w rs t a = table_scan u tag w qs t (fst ?b @ [tag @ d], snd ?b + w d)"
    unfolding row [symmetric] by (simp add: table_scan_def rs)
  moreover note grows_table_scan [of w "(fst ?b @ [tag @ d], snd ?b + w d)" u tag qs t, OF assms(3)]
  ultimately show ?thesis by (auto simp: grows_def)
qed

lemma grows_if: "(b \<Longrightarrow> grows a x) \<Longrightarrow> (\<not> b \<Longrightarrow> grows a y) \<Longrightarrow> grows a (if b then x else y)"
  by simp

lemma grows_checks:
  "grows a (entropy_check det e a)" "0 \<le> n \<Longrightarrow> grows a (size_check x n a)" "grows a (limit_check det n a)"
  "grows a (fingerprint_check ord out c a)" "grows a (structure_check u out a)"
proof -
  obtain fs sc where a: "a = (fs, sc)" by (cases a)
  have two: "grows (fs, sc) (fs @ xs, sc + F (3 / 10) + F (2 / 10))" for xs
    using grows_trans [OF grows_add [of "F (3 / 10)" fs sc xs] grows_add [of "F (2 / 10)" "fs @ xs" "sc + F (3 / 10)" "[]"]]
    by simp
  have one: "grows (fs, sc) (fs @ xs, sc + F (3 / 10))" "grows (fs, sc) (fs @ xs, sc + F (2 / 10))" for xs
    by (simp_all add: grows_add)
  show "grows a (entropy_check det e a)"
    unfolding a entropy_check_def prod.case
    by (cases "max_entropy_threshold det + F (15 / 10) < e"; simp only: if_True if_False) (intro grows_if one two grows_refl)+
  have w: "0 \<le> min (F (2 / 10) * fdiv (fdiv (F (of_int n)) (F (of_int (max x 1)))) (F 3)) (F (5 / 10))" if "0 \<le> n" for x n
    using that by (simp add: float_mult_nonneg fdiv_nonneg)
  show "0 \<le> n \<Longrightarrow> grows a (size_check x n a)"
    unfolding a size_check_def prod.case Let_def
    by (cases x; simp only: option.case) (intro grows_if grows_add grows_refl w)+
  show "grows a (limit_check det n a)" unfolding a limit_check_def prod.case by (intro grows_if one grows_refl)
  have w: "0 \<le> min (fdiv p (F 100) * F (4 / 10)) (F (4 / 10))" if "0 < p" for p
    using that by (simp add: float_mult_nonneg fdiv_nonneg)
  show "grows a (fingerprint_check ord out c a)"
  proof (cases c)
    case (Some d)
    show ?thesis unfolding a fingerprint_check_def prod.case Let_def Some option.case
      by (intro grows_if grows_add grows_refl w)
  qed (simp add: a fingerprint_check_def)
  show "grows a (structure_check u out a)"
    unfolding a structure_check_def prod.case
    by (cases "check_structural_anomaly u out"; simp only: option.case) (intro one grows_refl)+
qed

lemma grows_all_checks:
  "grows (table_scan u ''[SECRET] '' secret_weight (secret_re det) out ([], 0)) (all_checks u lg ord det out expected context)"
proof -
  define a1 where "a1 = table_scan u ''[SECRET] '' secret_weight (secret_re det) out ([], 0)"
  define a2 where "a2 = table_scan u ''[PII] '' pii_weight (pii_re det) out a1"
  define a3 where "a3 = table_scan u ''[COVERT] '' covert_weight (covert_re det) out a2"
  define a4 where "a4 = entropy_check det (max_shannon_entropy lg (entropy_window_size det) out) a3"
  define a5 where "a5 = size_check expected (int (length out)) a4"
  define a6 where "a6 = limit_check det (int (length out)) a5"
  define a7 where "a7 = fingerprint_check ord out context a6"
  have g: "grows a1 a2" "grows a2 a3" "grows a3 a4" "grows a4 a5" "grows a5 a6" "grows a6 a7"
    unfolding a2_def a3_def a4_def a5_def a6_def a7_def
    by (rule grows_table_scan grows_checks weights_nonneg of_nat_0_le_iff)+
  have "grows a7 (structure_check u out a7)" by (rule grows_checks(5))
  with g have "grows a1 (structure_check u out a7)" by (meson grows_trans)
  then show ?thesis
    unfolding all_checks_def Let_def a1_def a2_def a3_def a4_def a5_def a6_def a7_def .
qed

fun risk_rank :: "ExfilRisk \<Rightarrow> nat" where
  "risk_rank RISK_NONE = 0"
| "risk_rank RISK_LOW = 1"
| "risk_rank RISK_MEDIUM = 2"
| "risk_rank RISK_HIGH = 3"
| "risk_rank RISK_CRITICAL = 4"

lemma risk_steps: "F (1 / 10) \<le> F (3 / 10)" "F (3 / 10) \<le> F (5 / 10)" "F (5 / 10) \<le> F (7 / 10)" "F (7 / 10) \<le> 1"
  by code_simp+

lemma score_to_risk_mono: "s \<le> s' \<Longrightarrow> risk_rank (score_to_risk s) \<le> risk_rank (score_to_risk s')"
  unfolding score_to_risk_def using order_trans [of _ s s'] risk_steps by (auto split: if_splits)

lemma scan_fields:
  assumes "out \<noteq> []"
  shows "risk (exfil_scan u lg ord det out x c) = score_to_risk (min (snd (all_checks u lg ord det out x c)) 1)"
    and "findings (exfil_scan u lg ord det out x c) = fst (all_checks u lg ord det out x c)"
  using assms by (simp_all add: exfil_scan_def Let_def split_beta)

text \<open>The weakest risk that a secret of a given description gives by itself.\<close>

lemma secret_found:
  assumes "(r, d) \<in> set (secret_re det)" "search u r out" "out \<noteq> []"
  shows "''[SECRET] '' @ d \<in> set (findings (exfil_scan u lg ord det out x c))
    \<and> risk_rank (score_to_risk (secret_weight d)) \<le> risk_rank (risk (exfil_scan u lg ord det out x c))"
proof -
  let ?a = "table_scan u ''[SECRET] '' secret_weight (secret_re det) out ([], 0)"
  let ?b = "all_checks u lg ord det out x c"
  have a: "''[SECRET] '' @ d \<in> set (fst ?a) \<and> secret_weight d \<le> snd ?a"
    using table_scan_hit [of r d "secret_re det" u out secret_weight "([], 0)" "''[SECRET] ''", OF assms(1,2) weights_nonneg(1)] by simp
  have g: "grows ?a ?b" by (rule grows_all_checks)
  have "F (8 / 10) \<le> 1" "F (6 / 10) \<le> 1" "F (4 / 10) \<le> 1" by (simp_all add: F_le_one)
  then have "secret_weight d \<le> 1" by (simp add: secret_weight_def)
  with a g have "secret_weight d \<le> min (snd ?b) 1" by (auto simp: grows_def)
  with a g score_to_risk_mono show ?thesis unfolding scan_fields [OF assms(3)] by (auto simp: grows_def)
qed

subsection \<open>Entropy\<close>

lemma foldl_max: "foldl (\<lambda>m i. max m (g i)) a xs = Max (insert a (g ` set xs))" for a :: "'a :: linorder"
proof (induction xs arbitrary: a)
  case (Cons x xs)
  have "Max (insert (max a (g x)) (g ` set xs)) = Max (insert a (insert (g x) (g ` set xs)))"
    by (cases "g ` set xs = {}") (simp_all add: max.assoc)
  with Cons show ?case by simp
qed simp

lemma windows:
  "set [0..max 0 (int (length t) - int w + 1) - 1] = int ` {i. i + w \<le> length t}"
proof -
  have "x \<in> int ` {i. i + w \<le> length t}" if "0 \<le> x" "x \<le> max 0 (int (length t) - int w + 1) - 1" for x
    using that by (intro image_eqI [of _ _ "nat x"]) auto
  then show ?thesis by auto
qed

lemma slice_window: "i + w \<le> length t \<Longrightarrow> slice t (int i) (int i + int w) = take w (drop i t)"
  by (simp add: slice_def Let_def min_def)

subsection \<open>Fingerprints\<close>

definition wanted_shingle :: "ustr \<Rightarrow> bool" where
  "wanted_shingle s = (ustrip s \<noteq> [] \<and> 10 < card (set s))"

lemma shingles_from:
  "set (foldl (\<lambda>acc i. let s = take 50 (drop i c)
         in if ustrip s \<noteq> [] \<and> 10 < length (remdups s) \<and> s \<notin> set acc then acc @ [s] else acc) a is)
     = set a \<union> {s. wanted_shingle s \<and> (\<exists>i \<in> set is. s = take 50 (drop i c))}"
  by (induction "is" arbitrary: a) (auto simp: Let_def wanted_shingle_def length_remdups_card_conv)

lemma set_shingles: "set (shingles c) = {s. wanted_shingle s \<and> (\<exists>i. i + 50 \<le> length c \<and> s = take 50 (drop i c))}"
proof -
  have "i \<in> set [0..<length c + 1 - 50] \<longleftrightarrow> i + 50 \<le> length c" for i by auto
  then show ?thesis unfolding shingles_def shingles_from by auto
qed

lemma percent_pos:
  assumes "0 < n"
  shows "0 < fdiv (F (of_nat h)) (F (of_nat n)) * F 100 \<longleftrightarrow> 0 < h"
proof -
  have pos: "0 < F x \<longleftrightarrow> 0 < x" if "0 \<le> x" for x
    using that fl_pos [of x] by (cases "x = 0") (simp_all add: rat_of_less rat_of_F)
  have "0 < fdiv (F (of_nat h)) (F (of_nat n)) * F 100" if "0 < h"
    using that assms fl_pos by (simp add: rat_of_less rat_of_times rat_of_fdiv rat_of_F)
  moreover have "fdiv (F (of_nat 0)) (F (of_nat n)) * F 100 = 0"
    by (simp add: rat_of_inject [symmetric] rat_of_times rat_of_fdiv)
  ultimately show ?thesis by (cases "h = 0") auto
qed

lemma embedded_secret:
  assumes "new_exfil_detector thr mx w k = Ret det" "ascii_ok u"
    and "(p, d) \<in> set SECRET_PATTERNS" "compile False p = Some (f, r)" "plain_re r" "ascii_re r"
    and "list_all ascii x" "search ascii_ucd (f, r) x" "x \<noteq> []"
  shows "''[SECRET] '' @ d \<in> set (findings (exfil_scan u lg ord det (pre @ x @ post) expected context))
    \<and> risk_rank (score_to_risk (secret_weight d)) \<le> risk_rank (risk (exfil_scan u lg ord det (pre @ x @ post) expected context))"
proof (rule secret_found)
  show "((f, r), d) \<in> set (secret_re det)"
    using compile_table_mem [OF new_exfil_detectorD(2) [OF assms(1)] assms(3)] assms(4) by simp
  show "search u (f, r) (pre @ x @ post)"
    by (rule search_around [OF assms(2) compile_wf [OF assms(4)] assms(5,6,7,8)])
qed (use assms(9) in simp)

section \<open>Properties\<close>

text \<open>
  C32: a secret is found wherever it stands. The detector constructs without an error, and if a
  secret pattern without word boundaries is found in an ASCII phrase, then every output that
  contains the phrase reports the pattern, with at least the risk of the pattern's own weight.
\<close>

theorem exfil_embedded:
  assumes "new_exfil_detector thr mx w k = Ret det" "ascii_ok u"
    and "(p, d) \<in> set SECRET_PATTERNS" "compile False p = Some (f, r)" "plain_re r" "ascii_re r"
    and "list_all ascii x" "search ascii_ucd (f, r) x" "x \<noteq> []"
  shows "''[SECRET] '' @ d \<in> set (findings (exfil_scan u lg ord det (pre @ x @ post) expected context))
    \<and> risk_rank (score_to_risk (secret_weight d)) \<le> risk_rank (risk (exfil_scan u lg ord det (pre @ x @ post) expected context))"
  using embedded_secret [OF assms] .

definition aws_pattern :: "ustr \<times> string" where
  "aws_pattern = cloud_patterns ! 4"

lemma slovakia_facts:
  "case compile False (fst aws_pattern) of None \<Rightarrow> False
   | Some (f, r) \<Rightarrow> plain_re r \<and> ascii_re r \<and> list_all ascii (of_string ''akia'') \<and> search ascii_ucd (f, r) (of_string ''akia'')"
  by code_simp

lemma aws_pattern_weight: "score_to_risk (secret_weight (snd aws_pattern)) = RISK_HIGH"
  by code_simp

theorem exfil_embedded_witness:
  "case default_exfil_detector of Inl x \<Rightarrow> False
   | Inr det \<Rightarrow> 3 \<le> risk_rank (risk (exfil_scan ascii_ucd (\<lambda>x. 0) (\<lambda>s. s) det (of_string ''Capital of Slov'' @ of_string ''akia'' @ of_string '': Bratislava'') None None))"
proof -
  obtain det where det: "new_exfil_detector (F (45 / 10)) 100000 200 None = Ret det"
    using new_exfil_detector_ok [of "F (45 / 10)" 100000 200 None] by blast
  obtain f r where fr: "compile False (fst aws_pattern) = Some (f, r)" "plain_re r" "ascii_re r"
    "list_all ascii (of_string ''akia'')" "search ascii_ucd (f, r) (of_string ''akia'')"
    using slovakia_facts by (auto split: option.splits)
  have "(fst aws_pattern, snd aws_pattern) \<in> set SECRET_PATTERNS"
    by (simp add: SECRET_PATTERNS_def aws_pattern_def cloud_patterns_def)
  from exfil_embedded [OF det ascii_ok_ascii_ucd this fr, of "\<lambda>x. 0" "\<lambda>s. s" "of_string ''Capital of Slov''" "of_string '': Bratislava''" None None]
  show ?thesis unfolding default_exfil_detector_def det aws_pattern_weight by (simp add: of_string_def)
qed

text \<open>
  The windowed entropy is the largest Shannon entropy of any window of the configured length,
  and 0 if the output is shorter than the window: a short output is never judged by its entropy.
\<close>

theorem exfil_entropy_windows:
  "max_shannon_entropy lg (int w) t =
     (if length t < w then 0
      else Max (insert 0 ((\<lambda>i. shannon_entropy lg (take w (drop i t))) ` {i. i + w \<le> length t})))"
proof -
  have "(\<lambda>i. shannon_entropy lg (slice t i (i + int w))) ` set [0..max 0 (int (length t) - int w + 1) - 1]
      = (\<lambda>i. shannon_entropy lg (take w (drop i t))) ` {i. i + w \<le> length t}"
    unfolding windows image_image using slice_window by (intro image_cong) auto
  then have "max_shannon_entropy lg (int w) t = Max (insert 0 ((\<lambda>i. shannon_entropy lg (take w (drop i t))) ` {i. i + w \<le> length t}))"
    unfolding max_shannon_entropy_def foldl_max by (simp only:)
  moreover have "{i. i + w \<le> length t} = {}" if "length t < w" using that by auto
  ultimately show ?thesis by simp
qed

definition percent :: "nat \<Rightarrow> nat \<Rightarrow> pyfloat" where
  "percent h n = (if n = 0 then 0 else fdiv (F (of_nat h)) (F (of_nat n)) * F 100)"

lemma percent_positive: "0 < percent h n \<longleftrightarrow> 0 < n \<and> 0 < h"
  using percent_pos [of n h] by (simp add: percent_def)

text \<open>A shingle of the context starts at \<open>i\<close>, and the output holds it.\<close>

definition shingle_at :: "ustr \<Rightarrow> nat \<Rightarrow> bool" where
  "shingle_at c i \<longleftrightarrow> i + 50 \<le> length c \<and> wanted_shingle (take 50 (drop i c))"

definition leaks_at :: "ustr \<Rightarrow> ustr \<Rightarrow> nat \<Rightarrow> bool" where
  "leaks_at c out i \<longleftrightarrow> shingle_at c i \<and> contains (take 50 (drop i c)) out"

lemma shingles_at: "set (shingles c) = {take 50 (drop i c) | i. shingle_at c i}"
  unfolding set_shingles shingle_at_def by blast

lemma fingerprint_eq:
  assumes "length (ord (shingles context)) = length (shingles context)" "out \<noteq> []"
  shows "check_data_fingerprint ord out context =
    percent (length (filter (\<lambda>s. contains s out) (take 100 (ord (shingles context))))) (length (take 100 (ord (shingles context))))"
proof (cases "shingles context = []")
  case True
  then show ?thesis using assms by (simp add: check_data_fingerprint_def percent_def Let_def)
next
  case False
  then have "context \<noteq> []" by (auto simp: shingles_def)
  let ?n = "length (take 100 (ord (shingles context)))"
  have "0 < ?n" using False assms(1) by simp
  then have m: "max ?n (Suc 0) = ?n" by linarith
  show ?thesis using \<open>0 < ?n\<close> False \<open>context \<noteq> []\<close> assms(2)
    by (simp add: check_data_fingerprint_def percent_def Let_def m del: length_take)
qed

text \<open>
  C33: the fingerprint of a context. The shingles are the chunks of 50 consecutive characters of the
  context, more than ten of them different and not all white space. At most a hundred of them are
  looked at, in the order in which the set is visited, and the fingerprint is the share of these
  that occur in the output, in percent. It is positive only if a shingle occurs in the output, and
  it is positive if all do. With at most a hundred shingles it does not depend on the order of the
  set and is positive exactly if a shingle occurs; with more it may be 0 although one does.
\<close>

theorem exfil_fingerprint:
  assumes "mset (ord (shingles context)) = mset (shingles context)" "out \<noteq> []"
  shows "check_data_fingerprint ord out context =
      percent (length (filter (\<lambda>s. contains s out) (take 100 (ord (shingles context))))) (min 100 (length (shingles context)))
    \<and> (0 < check_data_fingerprint ord out context \<longrightarrow> (\<exists>i. leaks_at context out i))
    \<and> ((\<exists>i. shingle_at context i) \<and> (\<forall>i. shingle_at context i \<longrightarrow> leaks_at context out i)
         \<longrightarrow> 0 < check_data_fingerprint ord out context)
    \<and> (length (shingles context) \<le> 100 \<longrightarrow>
         check_data_fingerprint ord out context =
           percent (length (filter (\<lambda>s. contains s out) (shingles context))) (length (shingles context))
         \<and> (0 < check_data_fingerprint ord out context \<longleftrightarrow> (\<exists>i. leaks_at context out i)))"
proof -
  let ?ss = "shingles context" and ?hit = "\<lambda>s. contains s out" and ?fp = "check_data_fingerprint ord out context"
  let ?sample = "take 100 (ord ?ss)"
  have len: "length (ord ?ss) = length ?ss" using assms(1) by (metis size_mset)
  have ord: "set (ord ?ss) = set ?ss" using assms(1) by (metis set_mset_mset)
  have fp: "?fp = percent (length (filter ?hit ?sample)) (min 100 (length ?ss))"
    using fingerprint_eq [of ord "context" out, OF len assms(2)] by (simp add: len min.commute)
  have sub: "set ?sample \<subseteq> set ?ss" using set_take_subset [of 100 "ord ?ss"] ord by simp
  have leak: "(\<exists>s \<in> set ?ss. ?hit s) \<longleftrightarrow> (\<exists>i. leaks_at context out i)" unfolding shingles_at leaks_at_def by blast
  have pos: "0 < ?fp \<longleftrightarrow> (\<exists>s \<in> set ?sample. ?hit s)"
  proof (cases "?ss = []")
    case True
    then show ?thesis using len unfolding fp by (simp add: percent_positive)
  next
    case False
    then show ?thesis unfolding fp percent_positive by (simp add: filter_empty_conv)
  qed
  have "0 < ?fp" if "\<exists>i. shingle_at context i" "\<forall>i. shingle_at context i \<longrightarrow> leaks_at context out i"
  proof -
    from that have all: "?ss \<noteq> []" "\<forall>s \<in> set ?ss. ?hit s" using shingles_at [of "context"] unfolding leaks_at_def by auto
    then have "hd ?sample \<in> set ?sample" using len by (intro hd_in_set) auto
    with all sub show ?thesis unfolding pos by blast
  qed
  moreover have "?fp = percent (length (filter ?hit ?ss)) (length ?ss) \<and> (0 < ?fp \<longleftrightarrow> (\<exists>i. leaks_at context out i))"
    if "length ?ss \<le> 100"
  proof -
    have "?sample = ord ?ss" using that len by simp
    moreover have "length (filter ?hit (ord ?ss)) = length (filter ?hit ?ss)" using assms(1) by (metis mset_filter size_mset)
    ultimately show ?thesis using fp pos leak ord that by simp
  qed
  ultimately show ?thesis using fp pos leak sub by blast
qed

definition leaked_context :: ustr where
  "leaked_context = of_string ''The launch code of unit 7 is kept in vault 42, third shelf.''"

lemma leaked_shingles: "length (shingles leaked_context) = 10" by code_simp

theorem exfil_fingerprint_witness:
  "0 < check_data_fingerprint rev (of_string ''> '' @ leaked_context) leaked_context"
proof -
  have chunk: "wanted_shingle (take 50 (drop 0 leaked_context))"
    unfolding wanted_shingle_def card_set by code_simp
  have "leaks_at leaked_context (of_string ''> '' @ leaked_context) 0"
    unfolding leaks_at_def shingle_at_def by (intro conjI chunk) code_simp+
  moreover have "length (shingles leaked_context) \<le> 100" by (simp add: leaked_shingles)
  moreover have "of_string ''> '' @ leaked_context \<noteq> []" by (simp add: of_string_def)
  ultimately show ?thesis
    using exfil_fingerprint [of rev leaked_context "of_string ''> '' @ leaked_context"] by (metis mset_rev)
qed

end
