(* ===== verification/Backend.thy ===== *)
theory Backend
  imports Config Process Injection Exfil AuditLog
begin

text \<open>
  What both execution backends (\<open>src/core/layer1_sandbox.py\<close>, \<open>src/core/layer1_openshell.py\<close>) have
  in common: the host they run on, the arguments of \<open>deploy_agent\<close>, and the scans of payload and
  output with freshly made detectors.

  The record \<open>host\<close> holds what the sources read from outside: environment variables, the file
  system's resolution of paths, SHA-256, the Unicode database, the binary logarithm, the order in
  which sets are visited, the clocks (\<open>now i\<close> is read for the entry \<open>i\<close> of an audit log, \<open>perf\<close>
  at the start and at the end of a deployment), the commands, and the YAML library.
\<close>

record host =
  api_key :: string
  tmp_dir :: string
  uid :: int
  seccomp_text :: "string option"
  kill_order :: "string list"
  realpath :: "string \<Rightarrow> string"
  sha :: hash_fun
  unicode :: ucd
  log2 :: "pyfloat \<Rightarrow> pyfloat"
  visit :: "ustr list \<Rightarrow> ustr list"
  now :: "nat \<Rightarrow> pyfloat"
  perf_start :: pyfloat
  perf_end :: pyfloat
  execute :: runner
  policy_path :: string
  shell_image :: string
  yaml_load :: "string \<Rightarrow> json option"
  yaml_dump :: "json \<Rightarrow> string"

text \<open>An egress rule is an object of the class \<open>EgressRule\<close> or, from the task runner, a dictionary.\<close>

record EgressRule =
  er_protocol :: string
  er_host :: string
  er_port :: int
  er_description :: string

datatype egress_arg = Rule EgressRule | Mapping "(string \<times> json) list"

record request =
  payload :: string
  entrypoint :: string
  entrypoint_args :: "string list"
  egress_rules :: "egress_arg list"
  env_vars :: "(string \<times> string) list"
  security_scan :: bool
  api_token :: "string option"

definition SAFE_ENTRYPOINTS :: "string list" where
  "SAFE_ENTRYPOINTS = [''python'', ''python3'', ''python3.11'', ''python3.12'', ''python3.13'']"

definition safe_task_id :: "string \<Rightarrow> bool" where
  "safe_task_id t = dollar_match (\<lambda>w. w \<noteq> [] \<and> list_all ident_char w) t"

section \<open>Running a command\<close>

text \<open>\<open>subprocess.run\<close>: an exit code and the captured text, or the exception that leaves it.\<close>

definition proc_outcome :: "proc_result \<Rightarrow> (int \<times> string \<times> string) outcome" where
  "proc_outcome r =
     (case r of
        Done rc out err \<Rightarrow> Ret (rc, out, err)
      | Timed_out \<Rightarrow> Raise TimeoutExpired
      | Not_found \<Rightarrow> Raise FileNotFoundError
      | Run_failed \<Rightarrow> Raise OSError)"

section \<open>Auditing\<close>

definition audit_event ::
    "host \<Rightarrow> string \<Rightarrow> string \<Rightarrow> string \<Rightarrow> string \<Rightarrow> (string \<times> json) list \<Rightarrow> audit_log \<Rightarrow> audit_log" where
  "audit_event h task cat sev ev dets l =
     fst (record_entry (sha h) l (now h (length (entries l))) cat sev ev (JStr task) (JStr task) (JObj dets))"

abbreviation security_violation :: "host \<Rightarrow> string \<Rightarrow> string \<Rightarrow> (string \<times> json) list \<Rightarrow> audit_log \<Rightarrow> audit_log" where
  "security_violation h task \<equiv> audit_event h task (category_value SECURITY_VIOLATION) CRITICAL"

abbreviation lifecycle :: "host \<Rightarrow> string \<Rightarrow> string \<Rightarrow> string \<Rightarrow> (string \<times> json) list \<Rightarrow> audit_log \<Rightarrow> audit_log" where
  "lifecycle h task \<equiv> audit_event h task (category_value CONTAINER_LIFECYCLE)"

section \<open>The two scans\<close>

definition payload_scan :: "host \<Rightarrow> string \<Rightarrow> InjectionResult outcome" where
  "payload_scan h p =
     (case new_detector True (F (7 / 10)) of
        Inl x \<Rightarrow> Raise x
      | Inr det \<Rightarrow> Ret (scan (unicode h) (visit h) det (of_string p)))"

definition output_scan :: "host \<Rightarrow> string \<Rightarrow> ExfilResult outcome" where
  "output_scan h s =
     (case default_exfil_detector of
        Inl x \<Rightarrow> Raise x
      | Inr det \<Rightarrow> Ret (exfil_scan (unicode h) (log2 h) (visit h) det (of_string s) None None))"

text \<open>The detectors construct, so neither scan raises: what the gates ask of them.\<close>

definition malicious :: "host \<Rightarrow> string \<Rightarrow> bool" where
  "malicious h p = (case payload_scan h p of Inl x \<Rightarrow> False | Inr i \<Rightarrow> threat_level i = MALICIOUS)"

definition leaking :: "host \<Rightarrow> string \<Rightarrow> bool" where
  "leaking h s = (case output_scan h s of Inl x \<Rightarrow> False | Inr e \<Rightarrow> risk e \<in> {RISK_HIGH, RISK_CRITICAL})"

lemma payload_scan_ok: "\<exists>i. payload_scan h p = Ret i \<and> (threat_level i = MALICIOUS \<longleftrightarrow> malicious h p)"
  using new_detector_ok [of True "F (7 / 10)"] by (auto simp: payload_scan_def malicious_def)

lemma output_scan_ok: "\<exists>e. output_scan h s = Ret e \<and> (risk e \<in> {RISK_HIGH, RISK_CRITICAL} \<longleftrightarrow> leaking h s)"
  using new_exfil_detector_ok [of "F (45 / 10)" 100000 200 None]
  by (auto simp: output_scan_def leaking_def default_exfil_detector_def)

lemma not_leaking_nil [simp]: "\<not> leaking h []"
  by (simp add: leaking_def output_scan_def exfil_scan_def of_string_def split: sum.splits)

lemma of_string_append: "of_string (a @ b) = of_string a @ of_string b"
  by (simp add: of_string_def)

text \<open>An attack phrase in the payload and a secret in the output are seen whatever stands around them.\<close>

definition attack_phrase :: "string \<Rightarrow> bool" where
  "attack_phrase x =
     (3 \<le> length x \<and> list_all ascii (of_string x)
      \<and> list_ex (\<lambda>(p, d). case compile True p of None \<Rightarrow> False
           | Some (f, r) \<Rightarrow> plain_re r \<and> ascii_re r \<and> search ascii_ucd (f, r) (of_string x)) MALICIOUS_PATTERNS)"

definition secret_phrase :: "string \<Rightarrow> bool" where
  "secret_phrase x =
     (x \<noteq> [] \<and> list_all ascii (of_string x)
      \<and> list_ex (\<lambda>(p, d). score_to_risk (secret_weight d) \<in> {RISK_HIGH, RISK_CRITICAL}
           \<and> (case compile False p of None \<Rightarrow> False
              | Some (f, r) \<Rightarrow> plain_re r \<and> ascii_re r \<and> search ascii_ucd (f, r) (of_string x))) SECRET_PATTERNS)"

lemma attack_phraseI:
  assumes "(p, d) \<in> set MALICIOUS_PATTERNS"
    and "case compile True p of None \<Rightarrow> False
      | Some (f, r) \<Rightarrow> plain_re r \<and> ascii_re r \<and> list_all ascii (of_string x) \<and> search ascii_ucd (f, r) (of_string x)
          \<and> 3 \<le> length (of_string x)"
  shows "attack_phrase x"
proof -
  obtain f r where c: "compile True p = Some (f, r)" using assms(2) by (cases "compile True p") auto
  show ?thesis
    unfolding attack_phrase_def list_ex_iff using assms(2) by (intro conjI bexI [OF _ assms(1)]) (simp_all add: c of_string_def)
qed

definition host_ok :: "host \<Rightarrow> bool" where
  "host_ok h \<longleftrightarrow> ascii_ok (unicode h) \<and> (\<forall>ts. set (visit h ts) = set ts)"

lemma attack_malicious:
  assumes "host_ok h" "attack_phrase x"
  shows "malicious h (pre @ x @ post)"
proof -
  obtain det where det: "new_detector True (F (7 / 10)) = Ret det" using new_detector_ok by blast
  from assms(2) obtain p d f r where m: "(p, d) \<in> set MALICIOUS_PATTERNS" "compile True p = Some (f, r)" "plain_re r" "ascii_re r"
    "search ascii_ucd (f, r) (of_string x)" and x: "list_all ascii (of_string x)" "3 \<le> length (of_string x)"
    by (auto simp: attack_phrase_def list_ex_iff of_string_def split: option.splits)
  from embedded_malicious [OF det _ _ m(1-4) x(1) m(5) x(2), of "unicode h" "visit h" "of_string pre" "of_string post"] assms(1)
  show ?thesis by (simp add: malicious_def payload_scan_def det of_string_append host_ok_def)
qed

lemma secret_leaking:
  assumes "host_ok h" "secret_phrase x"
  shows "leaking h (pre @ x @ post)"
proof -
  obtain det where det: "new_exfil_detector (F (45 / 10)) 100000 200 None = Ret det"
    using new_exfil_detector_ok [of "F (45 / 10)" 100000 200 None] by blast
  from assms(2) obtain p d f r where m: "(p, d) \<in> set SECRET_PATTERNS" "compile False p = Some (f, r)" "plain_re r" "ascii_re r"
    "search ascii_ucd (f, r) (of_string x)" and w: "score_to_risk (secret_weight d) \<in> {RISK_HIGH, RISK_CRITICAL}"
    and x: "list_all ascii (of_string x)" "of_string x \<noteq> []"
    by (auto simp: secret_phrase_def list_ex_iff of_string_def split: option.splits)
  have rank: "risk_rank (score_to_risk (secret_weight d))
      \<le> risk_rank (risk (exfil_scan (unicode h) (log2 h) (visit h) det (of_string (pre @ x @ post)) None None))"
    using embedded_secret [OF det _ m(1-4) x(1) m(5) x(2)] assms(1) by (simp add: host_ok_def of_string_append)
  have leaking: "leaking h (pre @ x @ post) \<longleftrightarrow>
      risk (exfil_scan (unicode h) (log2 h) (visit h) det (of_string (pre @ x @ post)) None None) \<in> {RISK_HIGH, RISK_CRITICAL}"
    unfolding leaking_def output_scan_def default_exfil_detector_def det by simp
  from w rank show ?thesis
    by (cases "risk (exfil_scan (unicode h) (log2 h) (visit h) det (of_string (pre @ x @ post)) None None)")
      (auto simp: leaking)
qed

end
