(* ===== verification/OpenShell.thy ===== *)
theory OpenShell
  imports Backend
begin

text \<open>
  The OpenShell sandbox: \<open>src/core/layer1_openshell.py\<close>.

  The state of an operation is the sandbox object with the files, the commands run so far and the
  audit log, which here is local to a call and lost with it. The YAML library is the pair of
  arguments \<open>yaml_load\<close> and \<open>yaml_dump\<close> of the host. The configuration is an arbitrary object;
  only its attribute \<open>egress_rules\<close> is read, and it is absent from \<open>SandboxConfig\<close>. The arguments
  \<open>entrypoint_args\<close> and \<open>egress_rules\<close> of \<open>execute_task\<close> are not used by the code. The logger and
  the empty field \<open>raw\<close> of the result are not modelled.
\<close>

record OpenShellResult =
  osr_success :: bool
  osr_exit_code :: int
  osr_stdout :: string
  osr_stderr :: string
  osr_task :: string
  osr_duration :: pyfloat
  osr_backend :: string
  osr_sandbox :: string

record shell =
  os_task :: string
  os_egress :: "json list"
  sandbox_name :: string
  os_files :: "(string, string) dict"
  os_calls :: "string list list"
  os_log :: "audit_log option"

text \<open>\<open>tok\<close> is the random part of the name, \<open>egress\<close> the rules of the configuration, if it has any.\<close>

definition new_shell :: "string \<Rightarrow> string \<Rightarrow> json list \<Rightarrow> (string, string) dict \<Rightarrow> shell outcome" where
  "new_shell tok task egress fs =
     (if \<not> safe_task_id task then Raise ValueError
      else Ret \<lparr>os_task = task, os_egress = egress, sandbox_name = ''vs-'' @ tok, os_files = fs, os_calls = [], os_log = None\<rparr>)"

section \<open>The policy\<close>

definition INTERPRETERS :: "string list" where
  "INTERPRETERS = [''/usr/bin/python3.12'', ''/usr/bin/python3.11'', ''/usr/local/bin/python3'', ''/usr/bin/python3'']"

text \<open>\<open>int(port)\<close>.\<close>

fun port_int :: "json \<Rightarrow> int outcome" where
  "port_int (JInt n) = Ret n"
| "port_int (JBool b) = Ret (if b then 1 else 0)"
| "port_int (JFloat x) = Ret (py_int x)"
| "port_int (JStr s) = (case parse_int s of None \<Rightarrow> Raise ValueError | Some n \<Rightarrow> Ret n)"
| "port_int _ = Raise TypeError"

definition member :: "string \<Rightarrow> (string \<times> json) list \<Rightarrow> json" where
  "member k ms = (case dict_get ms k of None \<Rightarrow> JNull | Some v \<Rightarrow> v)"

definition rule_host :: "json \<Rightarrow> json" where
  "rule_host r = (case r of JObj ms \<Rightarrow> member ''host'' ms | _ \<Rightarrow> r)"

definition rule_port :: "json \<Rightarrow> json" where
  "rule_port r =
     (let p = (case r of JObj ms \<Rightarrow> member ''port'' ms | _ \<Rightarrow> JNull)
      in if truthy p then p else JInt 443)"

definition endpoint_rule :: "nat \<Rightarrow> json \<Rightarrow> int \<Rightarrow> json" where
  "endpoint_rule i host port =
     JObj [(''name'', JStr (''vibeshield egress '' @ show_int (int i))),
           (''endpoints'', JList [JObj [(''host'', host), (''port'', JInt port)]]),
           (''binaries'', JList (map (\<lambda>p. JObj [(''path'', JStr p)]) INTERPRETERS))]"

text \<open>The loop over the rules; \<open>np\<close> is the value under \<open>network_policies\<close>.\<close>

fun add_rules :: "nat \<Rightarrow> json list \<Rightarrow> json \<Rightarrow> json outcome" where
  "add_rules i [] np = Ret np"
| "add_rules i (r # rs) np =
     (if \<not> truthy (rule_host r) then add_rules (Suc i) rs np
      else (case port_int (rule_port r) of
              Inl x \<Rightarrow> Raise x
            | Inr port \<Rightarrow>
                (case np of
                   JObj ms \<Rightarrow>
                     add_rules (Suc i) rs (JObj (dict_set (''vs_egress_'' @ show_int (int i)) (endpoint_rule i (rule_host r) port) ms))
                 | _ \<Rightarrow> Raise TypeError)))"

definition base_policy :: "host \<Rightarrow> shell \<Rightarrow> json outcome" where
  "base_policy h s =
     (case dict_get (os_files s) (policy_path h) of
        None \<Rightarrow> Raise FileNotFoundError
      | Some txt \<Rightarrow>
          (case yaml_load h txt of
             None \<Rightarrow> Raise OtherError
           | Some j \<Rightarrow>
               (case (if truthy j then j else JObj []) of
                  JObj ms \<Rightarrow>
                    (let np = (case dict_get ms ''network_policies'' of None \<Rightarrow> JObj [] | Some v \<Rightarrow> v)
                     in case add_rules 0 (os_egress s) np of
                          Inl x \<Rightarrow> Raise x
                        | Inr np' \<Rightarrow> Ret (JObj (dict_set ''network_policies'' np' ms)))
                | _ \<Rightarrow> Raise AttributeError)))"

definition policy_file :: "shell \<Rightarrow> string" where
  "policy_file s = ''/tmp/vs-policy-'' @ sandbox_name s @ ''.yaml''"

definition write_policy :: "host \<Rightarrow> json \<Rightarrow> shell \<Rightarrow> shell \<times> string" where
  "write_policy h policy s =
     (s\<lparr>os_files := dict_set (policy_file s) (yaml_dump h policy) (os_files s)\<rparr>, policy_file s)"

section \<open>The command\<close>

definition sq :: "string \<Rightarrow> string" where
  "sq s = [CHR 0x27] @ s @ [CHR 0x27]"

definition task_json :: "request \<Rightarrow> json" where
  "task_json q =
     JObj [(''payload'', JStr (payload q)), (''env'', JObj (map (\<lambda>(k, v). (k, JStr v)) (env_vars q)))]"

definition payload_b64 :: "request \<Rightarrow> string" where
  "payload_b64 q = b64encode (py_encode (dumps '', '' '': '' (task_json q)))"

definition script_head :: string where
  "script_head = ''import json,os,sys,base64;d=json.loads(base64.b64decode(''"

definition script_tail :: string where
  "script_tail =
     ''));os.environ.update({k:v for k,v in d['' @ sq ''env'' @ ''].items() if isinstance(v,str)});''
     @ ''sys.argv=['' @ sq ''task'' @ '']+d.get('' @ sq ''argv'' @ '',[]);''
     @ ''print(d['' @ sq ''payload'' @ ''])''"

definition script :: "request \<Rightarrow> string" where
  "script q = script_head @ sq (payload_b64 q) @ script_tail"

definition shell_command :: "host \<Rightarrow> request \<Rightarrow> string \<Rightarrow> string \<Rightarrow> string list" where
  "shell_command h q name policy =
     [''openshell'', ''sandbox'', ''create'', ''--name'', name, ''--no-keep'', ''--from'', shell_image h,
      ''--policy'', policy, ''--'', entrypoint q, ''-c'', script q]"

section \<open>Execution\<close>

definition open_audit :: "host \<Rightarrow> shell \<Rightarrow> shell" where
  "open_audit h s =
     s\<lparr>os_log := Some (new_log (sha h) (now h 0) (Some (''openshell-'' @ take 12 (os_task s))) ''/var/lib/vibeshield/audit'' False)\<rparr>"

definition note_violation :: "host \<Rightarrow> string \<Rightarrow> (string \<times> json) list \<Rightarrow> shell \<Rightarrow> shell" where
  "note_violation h ev dets s = s\<lparr>os_log := map_option (security_violation h (os_task s) ev dets) (os_log s)\<rparr>"

definition note_event :: "host \<Rightarrow> string \<Rightarrow> string \<Rightarrow> (string \<times> json) list \<Rightarrow> shell \<Rightarrow> shell" where
  "note_event h sev ev dets s = s\<lparr>os_log := map_option (lifecycle h (os_task s) sev ev dets) (os_log s)\<rparr>"

definition elapsed :: "host \<Rightarrow> pyfloat" where
  "elapsed h = perf_end h - perf_start h"

definition shell_result :: "host \<Rightarrow> shell \<Rightarrow> bool \<Rightarrow> int \<Rightarrow> string \<Rightarrow> string \<Rightarrow> OpenShellResult" where
  "shell_result h s ok code out err =
     \<lparr>osr_success = ok, osr_exit_code = code, osr_stdout = out, osr_stderr = err, osr_task = os_task s,
      osr_duration = elapsed h, osr_backend = ''openshell'', osr_sandbox = sandbox_name s\<rparr>"

definition shell_token_refused :: "host \<Rightarrow> request \<Rightarrow> bool" where
  "shell_token_refused h q = (api_key h \<noteq> [] \<and> api_token q \<noteq> Some (api_key h))"

definition shell_gate :: "host \<Rightarrow> request \<Rightarrow> shell \<Rightarrow> shell \<times> unit outcome" where
  "shell_gate h q s =
     (if security_scan q
      then (case payload_scan h (payload q) of
              Inl x \<Rightarrow> (s, Raise x)
            | Inr i \<Rightarrow>
                if threat_level i = MALICIOUS
                then (note_violation h ''openshell.injection_blocked''
                        [(''score'', JFloat (inj_score i)), (''matches'', JList (map JStr (take 5 (inj_matches i))))] s,
                      Raise ValueError)
                else (s, Ret ()))
      else (s, Ret ()))"

definition REPLACEMENT :: string where
  "REPLACEMENT = ''[blocked: exfiltration risk detected in output]''"

text \<open>The output scan and the closing entry of the log.\<close>

definition shell_finish :: "host \<Rightarrow> request \<Rightarrow> int \<Rightarrow> string \<Rightarrow> string \<Rightarrow> shell \<Rightarrow> shell \<times> OpenShellResult outcome" where
  "shell_finish h q code out err s =
     (let close = (\<lambda>blocked out' s'.
            (note_event h ''info'' ''openshell.deploy.finish''
               [(''sandbox'', JStr (sandbox_name s)), (''exit_code'', JInt code), (''exfil_blocked'', JBool blocked)] s',
             Ret (shell_result h s (code = 0 \<and> \<not> blocked) code out' err)))
      in if security_scan q \<and> out \<noteq> []
         then (case output_scan h out of
                 Inl x \<Rightarrow> (s, Raise x)
               | Inr e \<Rightarrow>
                   if risk e \<in> {RISK_HIGH, RISK_CRITICAL}
                   then close True REPLACEMENT
                          (note_violation h ''openshell.exfil_blocked''
                             [(''risk'', JStr (risk_value (risk e))), (''matches'', JList (map JStr (take 5 (findings e))))] s)
                   else close False out s)
         else close False out s)"

text \<open>The command with the written policy, the entry that opens the task, and the run.\<close>

definition run_gateway :: "host \<Rightarrow> request \<Rightarrow> string \<Rightarrow> shell \<Rightarrow> shell \<times> OpenShellResult outcome" where
  "run_gateway h q path s =
     (let cmd = shell_command h q (sandbox_name s) path;
          s1 = note_event h ''info'' ''openshell.deploy.start''
                 [(''sandbox'', JStr (sandbox_name s)), (''entrypoint'', JStr (entrypoint q))] s;
          s2 = s1\<lparr>os_calls := os_calls s1 @ [cmd]\<rparr>
      in case execute h cmd of
           Timed_out \<Rightarrow>
             (note_event h ''warning'' ''openshell.deploy.timeout'' [(''sandbox'', JStr (sandbox_name s))] s2,
              Ret (shell_result h s2 False 124 [] ''sandbox timeout''))
         | Done code out err \<Rightarrow> shell_finish h q code out err s2
         | Not_found \<Rightarrow> (s2, Raise FileNotFoundError)
         | Run_failed \<Rightarrow> (s2, Raise OSError))"

definition execute_task :: "host \<Rightarrow> request \<Rightarrow> shell \<Rightarrow> shell \<times> OpenShellResult outcome" where
  "execute_task h q s =
     (if entrypoint q \<notin> set SAFE_ENTRYPOINTS then (s, Raise ValueError)
      else
        (let s0 = open_audit h s
         in if shell_token_refused h q
            then (note_violation h ''openshell.auth_failure'' [(''reason'', JStr ''invalid_or_missing_api_token'')] s0, Raise PermissionError)
            else
              (case shell_gate h q s0 of
                 (s1, Inl x) \<Rightarrow> (s1, Raise x)
               | (s1, Inr _) \<Rightarrow>
                   (case base_policy h s1 of
                      Inl x \<Rightarrow> (s1, Raise x)
                    | Inr policy \<Rightarrow> (case write_policy h policy s1 of (s2, path) \<Rightarrow> run_gateway h q path s2)))))"

section \<open>The shape of the Podman result\<close>

record SandboxResultLike =
  like_container :: string
  like_task :: string
  like_state :: string
  like_exit_code :: int
  like_stdout :: string
  like_stderr :: string
  like_duration :: pyfloat
  like_memory :: "pyfloat option"
  like_connections :: int
  like_success :: bool

definition like :: "OpenShellResult \<Rightarrow> SandboxResultLike" where
  "like r =
     \<lparr>like_container = osr_sandbox r, like_task = osr_task r,
      like_state = (if osr_success r then ''COMPLETED'' else ''FAILED''), like_exit_code = osr_exit_code r,
      like_stdout = osr_stdout r, like_stderr = osr_stderr r, like_duration = osr_duration r,
      like_memory = None, like_connections = 0, like_success = osr_success r\<rparr>"

definition deploy_agent_compat :: "host \<Rightarrow> request \<Rightarrow> shell \<Rightarrow> shell \<times> SandboxResultLike outcome" where
  "deploy_agent_compat h q s =
     (case execute_task h q s of
        (s', Inl x) \<Rightarrow> (s', Raise x)
      | (s', Inr r) \<Rightarrow> (s', Ret (like r)))"

section \<open>Lemmas\<close>

lemma base_policy_log [simp]: "base_policy h (s\<lparr>os_log := l\<rparr>) = base_policy h s"
  by (simp add: base_policy_def split: option.split json.split)

lemma shell_fields [simp]:
  "os_calls (open_audit h s) = os_calls s" "os_files (open_audit h s) = os_files s" "sandbox_name (open_audit h s) = sandbox_name s"
  "os_task (open_audit h s) = os_task s" "os_egress (open_audit h s) = os_egress s" "base_policy h (open_audit h s) = base_policy h s"
  "os_calls (note_event h sev ev dets s) = os_calls s" "os_calls (note_violation h ev dets s) = os_calls s"
  "os_files (note_event h sev ev dets s) = os_files s" "os_files (note_violation h ev dets s) = os_files s"
  "sandbox_name (note_event h sev ev dets s) = sandbox_name s" "sandbox_name (note_violation h ev dets s) = sandbox_name s"
  "os_task (note_event h sev ev dets s) = os_task s" "os_task (note_violation h ev dets s) = os_task s"
  "os_egress (note_event h sev ev dets s) = os_egress s" "os_egress (note_violation h ev dets s) = os_egress s"
  by (simp_all add: note_event_def note_violation_def open_audit_def)

lemma shell_gate_cases:
  "if security_scan q \<and> malicious h (payload q)
   then \<exists>dets. shell_gate h q s = (note_violation h ''openshell.injection_blocked'' dets s, Raise ValueError)
   else shell_gate h q s = (s, Ret ())"
  using payload_scan_ok [of h "payload q"] by (auto simp: shell_gate_def)

definition withheld :: "host \<Rightarrow> request \<Rightarrow> string \<Rightarrow> bool" where
  "withheld h q out \<longleftrightarrow> security_scan q \<and> leaking h out"

lemma shell_finish_cases:
  assumes "shell_finish h q code out err s = (s', r)"
  shows "os_calls s' = os_calls s \<and> os_files s' = os_files s
    \<and> r = Ret (shell_result h s (code = 0 \<and> \<not> withheld h q out) code (if withheld h q out then REPLACEMENT else out) err)"
proof -
  obtain e where e: "output_scan h out = Ret e" "risk e \<in> {RISK_HIGH, RISK_CRITICAL} \<longleftrightarrow> leaking h out"
    using output_scan_ok [of h out] by blast
  show ?thesis
  proof (cases "withheld h q out")
    case True
    then have "out \<noteq> []" by (auto simp: withheld_def)
    with assms e True show ?thesis by (auto simp: shell_finish_def Let_def withheld_def)
  next
    case False
    have "shell_finish h q code out err s =
        (note_event h ''info'' ''openshell.deploy.finish''
           [(''sandbox'', JStr (sandbox_name s)), (''exit_code'', JInt code), (''exfil_blocked'', JBool False)] s,
         Ret (shell_result h s (code = 0) code out err))"
    proof (cases "security_scan q \<and> out \<noteq> []")
      case True
      with False e have "risk e \<notin> {RISK_HIGH, RISK_CRITICAL}" by (simp add: withheld_def)
      then show ?thesis using True e(1) by (simp add: shell_finish_def Let_def)
    qed (auto simp: shell_finish_def Let_def)
    with assms False show ?thesis by auto
  qed
qed

definition shell_gates :: "host \<Rightarrow> request \<Rightarrow> bool" where
  "shell_gates h q \<longleftrightarrow>
     entrypoint q \<in> set SAFE_ENTRYPOINTS \<and> \<not> shell_token_refused h q \<and> \<not> (security_scan q \<and> malicious h (payload q))"

text \<open>What an admitted task must end in, from the answer of the gateway.\<close>

definition shell_outcome :: "host \<Rightarrow> request \<Rightarrow> proc_result \<Rightarrow> shell \<Rightarrow> OpenShellResult outcome" where
  "shell_outcome h q answer s =
     (case answer of
        Done code out err \<Rightarrow>
          Ret (shell_result h s (code = 0 \<and> \<not> withheld h q out) code (if withheld h q out then REPLACEMENT else out) err)
      | Timed_out \<Rightarrow> Ret (shell_result h s False 124 [] ''sandbox timeout'')
      | Not_found \<Rightarrow> Raise FileNotFoundError
      | Run_failed \<Rightarrow> Raise OSError)"

lemma shell_result_step [simp]:
  "shell_result h (note_event h' sev ev dets s) = shell_result h s" "shell_result h (open_audit h' s) = shell_result h s"
  "shell_result h (s\<lparr>os_calls := cs\<rparr>) = shell_result h s" "shell_result h (s\<lparr>os_files := fs\<rparr>) = shell_result h s"
  by (intro ext; simp add: shell_result_def)+

lemma execute_refused:
  assumes "\<not> shell_gates h q" "execute_task h q s = (s', r)"
  shows "os_calls s' = os_calls s \<and> os_files s' = os_files s \<and> (\<exists>x. r = Raise x)"
proof -
  let ?s0 = "open_audit h s"
  from assms(1) consider "entrypoint q \<notin> set SAFE_ENTRYPOINTS" | "entrypoint q \<in> set SAFE_ENTRYPOINTS" "shell_token_refused h q"
    | "entrypoint q \<in> set SAFE_ENTRYPOINTS" "\<not> shell_token_refused h q" "security_scan q" "malicious h (payload q)"
    by (auto simp: shell_gates_def)
  then show ?thesis
  proof cases
    case 3
    then obtain dets where "shell_gate h q ?s0 = (note_violation h ''openshell.injection_blocked'' dets ?s0, Raise ValueError)"
      using shell_gate_cases [of q h ?s0] by auto
    with 3 assms(2) show ?thesis by (auto simp: execute_task_def Let_def)
  qed (use assms(2) in \<open>auto simp: execute_task_def Let_def\<close>)
qed

lemma run_gateway_cases:
  assumes "run_gateway h q path s = (s', r)"
  shows "os_calls s' = os_calls s @ [shell_command h q (sandbox_name s) path] \<and> os_files s' = os_files s
    \<and> r = shell_outcome h q (execute h (shell_command h q (sandbox_name s) path)) s"
proof -
  define s2 where "s2 = (note_event h ''info'' ''openshell.deploy.start''
      [(''sandbox'', JStr (sandbox_name s)), (''entrypoint'', JStr (entrypoint q))] s)
        \<lparr>os_calls := os_calls s @ [shell_command h q (sandbox_name s) path]\<rparr>"
  have s2: "os_calls s2 = os_calls s @ [shell_command h q (sandbox_name s) path]" "os_files s2 = os_files s"
    "shell_result h s2 = shell_result h s"
    by (simp_all add: s2_def)
  note run = assms [unfolded run_gateway_def Let_def shell_fields, folded s2_def]
  show ?thesis
  proof (cases "execute h (shell_command h q (sandbox_name s) path)")
    case (Done code out err)
    with run have "shell_finish h q code out err s2 = (s', r)" by simp
    from shell_finish_cases [OF this] show ?thesis unfolding shell_outcome_def Done by (simp add: s2)
  qed (use run s2 in \<open>auto simp: shell_outcome_def\<close>)
qed

lemma execute_admitted:
  assumes "shell_gates h q" "execute_task h q s = (s', r)"
  shows "case base_policy h s of
      Inl x \<Rightarrow> os_calls s' = os_calls s \<and> os_files s' = os_files s \<and> r = Raise x
    | Inr p \<Rightarrow>
        os_calls s' = os_calls s @ [shell_command h q (sandbox_name s) (policy_file s)]
        \<and> os_files s' = dict_set (policy_file s) (yaml_dump h p) (os_files s)
        \<and> r = shell_outcome h q (execute h (shell_command h q (sandbox_name s) (policy_file s))) s"
proof -
  let ?s0 = "open_audit h s"
  have gate: "shell_gate h q ?s0 = (?s0, Ret ())"
    using shell_gate_cases [of q h ?s0] assms(1) by (simp add: shell_gates_def split: if_splits)
  have pf: "policy_file ?s0 = policy_file s" by (simp add: policy_file_def)
  show ?thesis
  proof (cases "base_policy h s")
    case (Inl x)
    with assms gate show ?thesis by (auto simp: execute_task_def Let_def shell_gates_def)
  next
    case (Inr p)
    let ?s1 = "?s0\<lparr>os_files := dict_set (policy_file s) (yaml_dump h p) (os_files s)\<rparr>"
    have "run_gateway h q (policy_file s) ?s1 = (s', r)"
      using assms gate Inr pf by (simp add: execute_task_def Let_def shell_gates_def write_policy_def)
    from run_gateway_cases [OF this] show ?thesis
      by (simp add: Inr shell_outcome_def split: proc_result.split)
  qed
qed

lemma dumps_json_ascii: "py_encode (dumps '', '' '': '' j) = dumps '', '' '': '' j"
  by (rule encode_plain) (simp add: dumps_plain plain_char_def)

lemma task_json_wf: "distinct (map fst (env_vars q)) \<Longrightarrow> wf_json (task_json q)"
proof -
  have "wf_members (map (\<lambda>(k, v). (k, JStr v)) kvs)" for kvs :: "(string \<times> string) list"
    by (induction kvs) auto
  moreover have "fst \<circ> (\<lambda>(k, v). (k, JStr v)) = (fst :: string \<times> string \<Rightarrow> string)" by auto
  ultimately show "distinct (map fst (env_vars q)) \<Longrightarrow> wf_json (task_json q)"
    by (simp add: task_json_def wf_dict_def)
qed

lemma payload_b64_text: "b64decode (of_string (payload_b64 q)) = Some (of_string (dumps '', '' '': '' (task_json q)))"
  by (simp add: payload_b64_def b64decode_encode dumps_json_ascii)

lemma payload_b64_quote: "CHR 0x27 \<notin> set (payload_b64 q)"
proof -
  have "list_all byte (map of_char s)" for s :: string by (simp add: list_all_iff char_byte)
  then show ?thesis using b64_alphabet by (fastforce simp: payload_b64_def b64encode_def)
qed

section \<open>Properties\<close>

text \<open>
  C13: the task reaches the workload unchanged and cannot become code. The script handed to the
  interpreter is fixed text around one quoted word, the word holds no quote, decoding it from
  Base64 and reading it as JSON gives the payload and the environment exactly, whatever they hold.
\<close>

theorem openshell_transport:
  assumes "distinct (map fst (env_vars q))"
  shows "script q = script_head @ sq (payload_b64 q) @ script_tail
    \<and> CHR 0x27 \<notin> set (payload_b64 q)
    \<and> (case b64decode (of_string (payload_b64 q)) of None \<Rightarrow> False
       | Some bs \<Rightarrow> loads (map char_of bs) = Some (JObj [(''payload'', JStr (payload q)),
           (''env'', JObj (map (\<lambda>(k, v). (k, JStr v)) (env_vars q)))]))"
proof -
  have "loads (dumps '', '' '': '' (task_json q)) = Some (task_json q)"
    by (rule loads_dumps [OF _ task_json_wf [OF assms]]) (simp add: wf_sep_def is_ws_def)
  moreover have "map char_of (of_string t) = t" for t :: string by (simp add: of_string_def comp_def)
  ultimately show ?thesis
    unfolding task_json_def [symmetric] payload_b64_text option.case script_def using payload_b64_quote by (simp only: simp_thms)
qed

text \<open>
  C15: what an OpenShell task does. It runs nothing and writes nothing unless the entrypoint is
  allowed, the token is the configured one, the scanned payload is not malicious and the policy
  can be built; then it writes the policy, runs the one gateway command that names it, and its
  result is fixed by the answer: a scanned output that leaks is replaced and never a success, and
  a success has exit code 0.
\<close>

theorem openshell_runs:
  "case execute_task h q s of (s', r) \<Rightarrow>
     case (if shell_gates h q then base_policy h s else Raise PermissionError) of
       Inl x \<Rightarrow> os_calls s' = os_calls s \<and> os_files s' = os_files s \<and> (\<exists>y. r = Raise y)
     | Inr p \<Rightarrow>
         (let cmd = shell_command h q (sandbox_name s) (policy_file s)
          in os_calls s' = os_calls s @ [cmd] \<and> os_files s' = dict_set (policy_file s) (yaml_dump h p) (os_files s)
            \<and> (case execute h cmd of
                 Done code out err \<Rightarrow>
                   \<exists>res. r = Ret res \<and> osr_exit_code res = code \<and> osr_success res = (code = 0 \<and> \<not> withheld h q out)
                     \<and> osr_stdout res = (if withheld h q out then REPLACEMENT else out)
               | Timed_out \<Rightarrow> \<exists>res. r = Ret res \<and> osr_exit_code res = 124 \<and> \<not> osr_success res \<and> osr_stdout res = []
               | _ \<Rightarrow> \<exists>y. r = Raise y))"
proof -
  obtain s' r where d: "execute_task h q s = (s', r)" by fastforce
  show ?thesis
  proof (cases "shell_gates h q")
    case True
    show ?thesis
      using execute_admitted [OF True d]
      by (simp add: d True shell_outcome_def shell_result_def Let_def split: sum.splits proc_result.splits)
  next
    case False
    from execute_refused [OF False d] show ?thesis by (simp add: d False)
  qed
qed

definition quoting_request :: request where
  "quoting_request =
     \<lparr>payload = ''it's'', entrypoint = ''python3'', entrypoint_args = [], egress_rules = [],
      env_vars = [(''MODE'', ''a=b'')], security_scan = True, api_token = None\<rparr>"

lemma quoting_fields: "payload quoting_request = ''it's''" "env_vars quoting_request = [(''MODE'', ''a=b'')]"
  by (simp_all add: quoting_request_def)

theorem openshell_transport_witness:
  "case b64decode (of_string (payload_b64 quoting_request)) of None \<Rightarrow> False
   | Some bs \<Rightarrow> loads (map char_of bs) = Some (JObj [(''payload'', JStr ''it's''), (''env'', JObj [(''MODE'', JStr ''a=b'')])])"
  using openshell_transport [of quoting_request] unfolding quoting_fields list.map prod.case by simp

end
