(* ===== verification/CommandLine.thy ===== *)
theory CommandLine
  imports Escrow Orchestrator Sandbox
begin

text \<open>
  The command lines of the layers: the \<open>__main__\<close> blocks of \<open>src/core/layer3_escrow.py\<close>,
  \<open>src/core/layer2_orchestrator.py\<close> and \<open>src/core/layer1_sandbox.py\<close>.

  The argument parser has done its work: its result is the argument of each definition. What is
  printed is the list of the lines; an exception leaves the block before anything is printed.
  Every run makes a new engine or sandbox, so nothing of an earlier run is seen by a later one.
\<close>

section \<open>The escrow engine\<close>

datatype escrow_command =
    Create string string pyfloat
  | Reputation string
  | List_open
  | No_command

definition show_bool :: "bool \<Rightarrow> string" where
  "show_bool b = py_str (JBool b)"

definition bounty_line :: "board_row \<Rightarrow> string" where
  "bounty_line b = row_bounty_id b @ '': '' @ row_title b @ '' ($'' @ repr_float (row_reward b) @ '')''"

definition reputation_lines :: "string \<Rightarrow> reputation_summary \<Rightarrow> string list" where
  "reputation_lines agent r =
     [''Agent: '' @ agent,
      ''Rs Score: '' @ repr_float (rs_score r),
      ''Tasks: '' @ show_int (int (sm_total_tasks r)) @ '' completed, '' @ show_int (int (sm_disputed_count r)) @ '' disputed'',
      ''Verified: '' @ show_bool (sm_verified r)]"

definition escrow_main :: "escrow_command \<Rightarrow> string \<Rightarrow> pyfloat \<Rightarrow> string list" where
  "escrow_main cmd uuid moment =
     (let engine = new_engine default_escrow_config
      in case cmd of
           Create client ttl rew \<Rightarrow> [''Created bounty: '' @ bounty_id (snd (create_bounty engine uuid client ttl [] rew None moment))]
         | Reputation agent \<Rightarrow> reputation_lines agent (snd (get_agent_reputation engine agent moment))
         | List_open \<Rightarrow> map bounty_line (get_bounty_board engine (Some OPEN))
         | No_command \<Rightarrow> [])"

section \<open>The heartbeat engine\<close>

definition heartbeat_lines :: "HeartbeatResult \<Rightarrow> string list" where
  "heartbeat_lines r =
     [''Agent:     '' @ hb_agent_id r,
      ''Status:    '' @ heartbeat_value (hb_status r),
      ''HTTP:      '' @ show_int (http_status r),
      ''Message:   '' @ hb_message r,
      ''Passed:    '' @ show_bool (passed r)]"

definition orchestrator_main ::
    "network \<Rightarrow> string \<Rightarrow> string \<Rightarrow> string \<Rightarrow> string \<Rightarrow> string \<Rightarrow> (nat \<Rightarrow> pyfloat) \<Rightarrow> string list outcome" where
  "orchestrator_main net agent key status url nonce clk =
     (let engine = new_orchestrator (Some (default_orchestrator_config\<lparr>api_base := url\<rparr>)) []
      in case snd (send_heartbeat net engine agent key status None None nonce clk) of
           Inl x \<Rightarrow> Raise x
         | Inr r \<Rightarrow> Ret (heartbeat_lines r))"

section \<open>The sandbox\<close>

text \<open>
  The call of \<open>deploy_agent\<close> with its default arguments. The duration of a task that timed out is the
  configured integer, so it is printed without a fraction.
\<close>

definition plain_request :: "string \<Rightarrow> request" where
  "plain_request p =
     \<lparr>payload = p, entrypoint = ''python'', entrypoint_args = [], egress_rules = [], env_vars = [],
      security_scan = True, api_token = None\<rparr>"

definition result_lines :: "int \<Rightarrow> SandboxResult \<Rightarrow> string list" where
  "result_lines timeout r =
     [''Task '' @ res_task r @ '': '' @ sandbox_value (res_state r),
      ''Duration: '' @ (if res_state r = TIMEOUT then show_int timeout else repr_float (duration r)) @ ''s'',
      ''Exit code: '' @ show_int (exit_code r)]
     @ (if stdout r \<noteq> [] then [''Output: '' @ take 500 (stdout r)] else [])
     @ (if stderr r \<noteq> [] then [''Errors: '' @ take 500 (stderr r)] else [])"

definition sandbox_main ::
    "host \<Rightarrow> string \<Rightarrow> string \<Rightarrow> string \<Rightarrow> int \<Rightarrow> string option \<Rightarrow> (string, string) dict
      \<Rightarrow> string list list \<times> string list outcome" where
  "sandbox_main h tok task p timeout cached fs =
     (let s = new_sandbox tok task (Some (default_sandbox_config\<lparr>timeout_seconds := timeout\<rparr>)) cached fs
      in case deploy_agent h (plain_request p) s of
           (s', Inl x) \<Rightarrow> (calls s', Raise x)
         | (s', Inr r) \<Rightarrow> (calls s', Ret (result_lines timeout r)))"

section \<open>Lemmas\<close>

text \<open>The board of a run is always empty, and every agent is a new one.\<close>

lemma escrow_main_forgets:
  "escrow_main List_open uuid moment = []"
  "escrow_main (Create client ttl rew) uuid moment = [''Created bounty: '' @ uuid]"
  "escrow_main (Reputation agent) uuid moment =
     [''Agent: '' @ agent, ''Rs Score: 0.5'', ''Tasks: 0 completed, 0 disputed'', ''Verified: False'']"
proof -
  have half: "repr_float (F (1 / 2)) = ''0.5''" by code_simp
  show "escrow_main (Reputation agent) uuid moment =
     [''Agent: '' @ agent, ''Rs Score: 0.5'', ''Tasks: 0 completed, 0 disputed'', ''Verified: False'']"
    by (simp add: escrow_main_def get_agent_reputation_def get_or_create_reputation_def new_engine_def dict_get_def
        new_reputation_def calculate_rs_def reputation_lines_def half show_int_def show_bool_def Let_def)
qed (simp_all add: escrow_main_def get_bounty_board_def create_bounty_def new_engine_def dict_values_def
    put_bounty_def py_sorted_rev_def Let_def)

text \<open>The last line of a heartbeat tells whether the server gave a known status.\<close>

lemma orchestrator_main_passes:
  assumes "net (heartbeat_request (new_orchestrator (Some (default_orchestrator_config\<lparr>api_base := url\<rparr>)) [])
      agent key status nonce None None) = Http_ok code body"
    and "server_status body = Ret s"
  shows "\<exists>ls. orchestrator_main net agent key status url nonce clk = Ret ls
    \<and> (last ls = ''Passed:    True'' \<longleftrightarrow> s \<in> {JStr ''ONLINE'', JStr ''BUSY'', JStr ''COOLDOWN''})"
proof -
  from send_heartbeat_ok [where net = net and clk = clk, OF assms] obtain r where
    "snd (send_heartbeat net (new_orchestrator (Some (default_orchestrator_config\<lparr>api_base := url\<rparr>)) [])
       agent key status None None nonce clk) = Ret r" "hb_status r = status_enum s" by fastforce
  then show ?thesis
    by (simp add: orchestrator_main_def heartbeat_lines_def show_bool_def passed_def status_enum_def)
qed

text \<open>What the sandbox prints as output is the beginning of an output that does not leak.\<close>

lemma sandbox_main_output:
  assumes "sandbox_main h tok task p timeout cached fs = (cs, Ret ls)"
  shows "\<exists>out rest. \<not> leaking h out \<and> drop 3 ls = (if out \<noteq> [] then [''Output: '' @ take 500 out] else []) @ rest \<and> length rest \<le> 1"
proof -
  let ?s = "new_sandbox tok task (Some (default_sandbox_config\<lparr>timeout_seconds := timeout\<rparr>)) cached fs"
  from assms obtain s' r where d: "deploy_agent h (plain_request p) ?s = (s', Ret r)" and ls: "ls = result_lines timeout r"
    by (auto simp: sandbox_main_def Let_def split: prod.splits sum.splits)
  from deploy_cases [OF d] have "settled h (plain_request p) s' r" by (auto split: if_splits)
  then have leak: "\<not> leaking h (stdout r)" by (simp add: settled_def plain_request_def)
  show ?thesis
    by (rule exI [of _ "stdout r"], rule exI [of _ "if stderr r \<noteq> [] then [''Errors: '' @ take 500 (stderr r)] else []"])
      (simp add: leak ls result_lines_def)
qed

end
