(* ===== verification/Spec2Isabelle.thy ===== *)
theory Spec2Isabelle
  imports Prelude PyFloat PyNumber PyJson Utils Escrow AuditLog RateLimit Egress Seccomp
    Http Orchestrator Commands Process ImageVerify Workspace
    Regex Codec InjectionPatterns InjectionCorpus Injection ExfilPatterns Exfil Backend Sandbox OpenShell TaskRunner CommandLine
begin

text \<open>
  VibeShield: a model of the Python sources under \<open>src/\<close> and the properties proved of it.

  \<^bold>\<open>The program.\<close> VibeShield runs tasks of untrusted agents. Layer 1 executes a task in a
  container, with Podman or with the OpenShell gateway, behind two gates: the payload is scanned for
  prompt injection before anything runs, the output for leaked secrets before it is delivered.
  Layer 2 reports the agents' heartbeats to a server and routes commands to handlers. Layer 3 holds
  bounties in escrow and keeps the agents' reputations. The security modules serve all layers: the
  audit log, rate limits, egress rules, seccomp profiles, image verification, encrypted workspaces
  and the validation of paths, identifiers and environment entries. The layers call the modules
  as functions; a task runner is the command line of layer 1.

  \<^bold>\<open>Theories and sources.\<close> Definitions keep the names of the source; a class is a record of its
  attributes, an enumeration a datatype, a method a function that takes the state and returns it
  with its \<open>outcome\<close>, a value or an exception.
  \<^item> \<open>Prelude\<close>: exceptions, Python dictionaries (locale \<open>mapping_store\<close>), strings, stable sorting.
  \<^item> \<open>PyFloat\<close>, \<open>PyNumber\<close>: binary64 as the rationals that rounding to 53 bits fixes, with the
    monotonicity laws of rounding; \<open>repr\<close>, \<open>round\<close> and the formats the program prints.
  \<^item> \<open>PyJson\<close>: the standard library's JSON writer and reader, with their round trip.
  \<^item> \<open>Config\<close>: \<open>core/config.py\<close>. \<open>Process\<close>, \<open>Http\<close>: subprocesses and server answers as parameters.
  \<^item> \<open>Utils\<close>: \<open>core/security/utils.py\<close> (locale \<open>path_resolver\<close> for \<open>os.path.realpath\<close>).
  \<^item> \<open>Escrow\<close>: \<open>core/layer3_escrow.py\<close>. \<open>AuditLog\<close>: \<open>core/security/audit.py\<close> (locales \<open>hash_chain\<close>
    and \<open>merkle_node\<close>). \<open>RateLimit\<close>, \<open>Egress\<close>, \<open>Seccomp\<close>, \<open>ImageVerify\<close>, \<open>Workspace\<close>: the modules of
    the same names under \<open>core/security/\<close>.
  \<^item> \<open>Orchestrator\<close>: \<open>core/layer2_orchestrator.py\<close>. \<open>Commands\<close>: \<open>api/commands.py\<close>.
  \<^item> \<open>Regex\<close>: the part of Python's regular expressions the detectors use, from the pattern text
    through a compiler to a backtracking matcher, and a relational reference semantics. \<open>Codec\<close>:
    Base64, hexadecimal, UTF-8 and the string methods on code points.
  \<^item> \<open>InjectionPatterns\<close>, \<open>Injection\<close>: \<open>core/security/injection.py\<close>. \<open>ExfilPatterns\<close>, \<open>Exfil\<close>:
    \<open>core/security/exfil.py\<close>. Every pattern of the source is in the tables, as its text.
    \<open>InjectionCorpus\<close>: for each injection pattern the phrases it has to find.
  \<^item> \<open>Backend\<close>: the host, the request and the two scans. \<open>Sandbox\<close>: \<open>core/layer1_sandbox.py\<close>.
    \<open>OpenShell\<close>: \<open>core/layer1_openshell.py\<close>. \<open>TaskRunner\<close>: \<open>core/layer1_factory.py\<close> and
    \<open>scripts/sandbox_task.py\<close>, with the contract of both backends as the locale \<open>gated_backend\<close>.
    \<open>CommandLine\<close>: the \<open>__main__\<close> blocks of the three layers.

  \<^bold>\<open>What is proved.\<close>
  \<^item> Escrow: invariants of the reachable engines, who may move a bounty and when, the ledger of
    rewards, the bounds of reputations.
  \<^item> Audit log: the chain commits to every entry and its order, edits and insertions are detected up
    to an exhibited collision of the hash, Merkle proofs are complete and sound, an export is read
    back as it was, a query is filter, drop and take.
  \<^item> Limits: how much a token bucket and an egress rule can admit in any period, in exact arithmetic
    on the rounded values. Seccomp: what the kernel would decide for each syscall.
  \<^item> Detectors: the matcher agrees with its reference semantics (\<open>ends_sem\<close>); every injection pattern
    finds each phrase of its corpus in any text around it; the verdict as a function of counts; a
    malicious phrase or a secret is found whatever surrounds it.
  \<^item> Layer 1: a container starts only through all gates and with the hardening options; an attack
    runs nothing and a leak is not delivered, on either backend and through the task runner; the log
    of a deployment verifies and tells its course; both hold in every sandbox reachable by any
    calls on any hosts; how a deployment ends; the transport of a payload
    into the OpenShell script loses and injects nothing.
  \<^item> Layer 2 and the rest: heartbeats, commands and their round trips, image verification,
    workspaces from creation to wiping.

  \<^bold>\<open>Bounds and fuel.\<close> All functions are total. The JSON reader has twice the length of the text as
  fuel, and \<open>pv_fuel\<close> shows that this is enough. The pattern compiler has twice the length of the
  pattern plus two; every pattern of the tables is shown to compile. The scan for all matches
  has the length of the text, and every step consumes a character. A repetition in the matcher takes
  at most as many rounds as characters are left, which \<open>ends_sem\<close> shows to lose no match.

  \<^bold>\<open>Parameters.\<close> SHA-256, the Unicode database, the binary logarithm, the order in which sets are
  visited, clocks and random names, the commands that are run, the server, the YAML library, the
  resolution of paths and the handlers of commands are arguments; a theorem names what it assumes of them.
  Strings are over the first 256 code points, except in the detectors, whose texts are lists of
  code points; payloads and outputs in layer 1 are strings. A dash that three messages
  hold outside that alphabet stands as its three bytes.

  A JSON text whose value needs more than these strings and finite numbers is \<open>foreign\<close>: where an
  operation reads one, its outcome in the model is the exception \<open>Unmodelled\<close>, which says
  nothing of the code (an import of the audit log stops there). Of the Unicode database the detectors' theorems assume that it is right on ASCII
  (\<open>ascii_ok\<close>) or also on the characters of the corpus (\<open>corpus_ok\<close>).

  \<^bold>\<open>Not modelled.\<close> The interpreter's limits on recursion, on the digits of an integer and on the
  exponent of a float; loggers; locks (operations are atomic steps); the texts of exceptions; argument
  parsers; environment variables that replace defaults of the configuration; writing failures
  of files; symbolic links inside a workspace. The checks of \<open>verify_isolation\<close> stand behind an
  unbound name: they are modelled over what that name may be bound to, and as they are. Tests, container files, policies and shell scripts
  are no part of the program.
\<close>

end
